(* ===== verification/Prelude.thy ===== *)
theory Prelude
  imports Main "HOL-Library.Word" "HOL-Library.AList" "HOL-Library.Char_ord"
    "HOL-Library.List_Lexorder"
begin

text \<open>
  Shared vocabulary of the development: Go's byte strings as \<^typ>\<open>string\<close> (one
  \<^typ>\<open>char\<close> per byte), the functions of package \<open>strings\<close> the program calls, Go's
  64-bit signed arithmetic, Go maps that are iterated or measured as association lists, and
  the lemma collections the component theories extend.
\<close>

named_theorems str_simps \<open>evaluation rules of the string functions\<close>
named_theorems nil_simps \<open>what an operation does on a nil pointer or an empty slice\<close>

section \<open>Signed 64-bit integers\<close>

text \<open>Go's \<open>int\<close>, \<open>int64\<close> and \<open>time.Duration\<close> on a 64-bit target: an exact result
  is reduced into \<open>-2^63 .. 2^63 - 1\<close>.\<close>

definition i64 :: "int \<Rightarrow> int" where
  "i64 x = (x + 2 ^ 63) mod 2 ^ 64 - 2 ^ 63"

lemma i64_id: "- (2 ^ 63) \<le> x \<Longrightarrow> x < 2 ^ 63 \<Longrightarrow> i64 x = x"
  by (simp add: i64_def)

lemma i64_range: "- (2 ^ 63) \<le> i64 x \<and> i64 x < 2 ^ 63"
proof -
  have "0 \<le> (x + 2 ^ 63) mod 2 ^ 64" "(x + 2 ^ 63) mod 2 ^ 64 < 2 ^ 64"
    by (rule pos_mod_sign, simp) (rule pos_mod_bound, simp)
  then show ?thesis unfolding i64_def by auto
qed

lemma i64_idem [simp]: "i64 (i64 x) = i64 x"
  using i64_range [of x] by (intro i64_id) auto

text \<open>Units of \<open>time.Duration\<close> in nanoseconds.\<close>

abbreviation Microsecond :: int where "Microsecond \<equiv> 1000"
abbreviation Millisecond :: int where "Millisecond \<equiv> 1000000"
abbreviation Second :: int where "Second \<equiv> 1000000000"
abbreviation Minute :: int where "Minute \<equiv> 60000000000"
abbreviation Hour :: int where "Hour \<equiv> 3600000000000"

text \<open>A \<open>time.Time\<close> is the number of nanoseconds since the Unix epoch; \<open>Unix()\<close> is the
  second it falls in.\<close>

type_synonym go_time = int
type_synonym duration = int

definition unix :: "go_time \<Rightarrow> int" where
  "unix t = t div Second"

definition from_unix :: "int \<Rightarrow> go_time" where
  "from_unix s = s * Second"

lemma unix_from_unix [simp]: "unix (from_unix s) = s"
  by (simp add: unix_def from_unix_def)

lemma unix_mono: "a \<le> b \<Longrightarrow> unix a \<le> unix b"
  by (simp add: unix_def zdiv_mono1)

text \<open>Division of Go's \<open>int\<close> truncates towards zero.\<close>

definition quot :: "int \<Rightarrow> int \<Rightarrow> int" where
  "quot a b = sgn a * sgn b * (\<bar>a\<bar> div \<bar>b\<bar>)"

lemma quot_nonneg: "0 \<le> a \<Longrightarrow> 0 < b \<Longrightarrow> quot a b = a div b"
  by (cases "a = 0") (simp_all add: quot_def)

lemma find_in_set: "find P xs = Some x \<Longrightarrow> x \<in> set xs \<and> P x"
  by (metis find_Some_iff nth_mem)

section \<open>Package strings\<close>

definition byte_of :: "char \<Rightarrow> int" where
  "byte_of c = of_char c"

definition has_prefix :: "string \<Rightarrow> string \<Rightarrow> bool" where
  "has_prefix s p \<longleftrightarrow> take (length p) s = p"

definition has_suffix :: "string \<Rightarrow> string \<Rightarrow> bool" where
  "has_suffix s p \<longleftrightarrow> length p \<le> length s \<and> drop (length s - length p) s = p"

definition trim_prefix :: "string \<Rightarrow> string \<Rightarrow> string" where
  "trim_prefix s p = (if has_prefix s p then drop (length p) s else s)"

definition trim_suffix :: "string \<Rightarrow> string \<Rightarrow> string" where
  "trim_suffix s p = (if has_suffix s p then take (length s - length p) s else s)"

lemma has_prefix_iff: "has_prefix s p \<longleftrightarrow> (\<exists>t. s = p @ t)"
  unfolding has_prefix_def by (metis append_eq_conv_conj append_take_drop_id)

lemma has_prefix_append [simp]: "has_prefix (p @ t) p"
  by (simp add: has_prefix_def)

lemma has_prefix_Nil [simp]: "has_prefix s []"
  by (simp add: has_prefix_def)

lemma has_prefix_trans: "has_prefix s p \<Longrightarrow> has_prefix p q \<Longrightarrow> has_prefix s q"
  by (auto simp: has_prefix_iff)

lemma has_suffix_iff: "has_suffix s p \<longleftrightarrow> (\<exists>t. s = t @ p)"
  unfolding has_suffix_def
  by (metis append_take_drop_id append_eq_conv_conj diff_le_self le_add2 length_append length_drop
      diff_diff_cancel add_diff_cancel_right')

lemma trim_prefix_append [simp]: "trim_prefix (p @ t) p = t"
  by (simp add: trim_prefix_def)

lemma trim_suffix_append [simp]: "trim_suffix (t @ p) p = t"
  by (simp add: trim_suffix_def has_suffix_iff)

text \<open>\<open>strings.Contains\<close>: the needle occurs at some offset.\<close>

fun str_contains :: "string \<Rightarrow> string \<Rightarrow> bool" where
  "str_contains [] p = (p = [])"
| "str_contains (c # s) p = (has_prefix (c # s) p \<or> str_contains s p)"

lemma str_contains_iff: "str_contains s p \<longleftrightarrow> (\<exists>a b. s = a @ p @ b)"
proof (induction s)
  case Nil
  then show ?case by simp
next
  case (Cons c s)
  show ?case
    unfolding str_contains.simps has_prefix_iff Cons
    by (metis append_Cons append_Nil append_eq_Cons_conv)
qed

text \<open>\<open>strings.ContainsAny\<close> over a list of ASCII bytes.\<close>

definition contains_any :: "string \<Rightarrow> string \<Rightarrow> bool" where
  "contains_any s cs \<longleftrightarrow> (\<exists>c \<in> set s. c \<in> set cs)"

text \<open>\<open>strings.Cut\<close> at a one-byte separator.\<close>

fun cut :: "string \<Rightarrow> char \<Rightarrow> string \<times> string \<times> bool" where
  "cut [] sep = ([], [], False)"
| "cut (c # s) sep =
     (if c = sep then ([], s, True)
      else (case cut s sep of (a, b, ok) \<Rightarrow> (c # a, b, ok)))"

lemma cut_append: "sep \<notin> set a \<Longrightarrow> cut (a @ sep # b) sep = (a, b, True)"
  by (induction a) auto

lemma cut_none: "sep \<notin> set a \<Longrightarrow> cut a sep = (a, [], False)"
  by (induction a) auto

lemma cut_found: "cut s sep = (a, b, True) \<Longrightarrow> s = a @ sep # b \<and> sep \<notin> set a"
  by (induction s arbitrary: a b) (auto split: if_splits prod.splits)

lemma cut_not_found: "cut s sep = (a, b, False) \<Longrightarrow> a = s \<and> b = [] \<and> sep \<notin> set s"
  by (induction s arbitrary: a b) (auto split: if_splits prod.splits)

text \<open>\<open>strings.Split\<close> at a one-byte separator: always at least one part.\<close>

fun split_on :: "char \<Rightarrow> string \<Rightarrow> string list" where
  "split_on sep [] = [[]]"
| "split_on sep (c # s) =
     (if c = sep then [] # split_on sep s
      else (case split_on sep s of [] \<Rightarrow> [[c]] | p # ps \<Rightarrow> (c # p) # ps))"

lemma split_on_nonempty [simp]: "split_on sep s \<noteq> []"
  by (induction s) (auto split: list.splits)

text \<open>The byte sequences of the code points \<open>unicode.IsSpace\<close> accepts, in UTF-8:
  \<open>strings.TrimSpace\<close> removes them at both ends.\<close>

definition go_spaces :: "string list" where
  "go_spaces =
     [[CHR 0x09], [CHR 0x0A], [CHR 0x0B], [CHR 0x0C], [CHR 0x0D], [CHR 0x20],
      [CHR 0xC2, CHR 0x85], [CHR 0xC2, CHR 0xA0], [CHR 0xE1, CHR 0x9A, CHR 0x80],
      [CHR 0xE2, CHR 0x80, CHR 0x80], [CHR 0xE2, CHR 0x80, CHR 0x81],
      [CHR 0xE2, CHR 0x80, CHR 0x82], [CHR 0xE2, CHR 0x80, CHR 0x83],
      [CHR 0xE2, CHR 0x80, CHR 0x84], [CHR 0xE2, CHR 0x80, CHR 0x85],
      [CHR 0xE2, CHR 0x80, CHR 0x86], [CHR 0xE2, CHR 0x80, CHR 0x87],
      [CHR 0xE2, CHR 0x80, CHR 0x88], [CHR 0xE2, CHR 0x80, CHR 0x89],
      [CHR 0xE2, CHR 0x80, CHR 0x8A], [CHR 0xE2, CHR 0x80, CHR 0xA8],
      [CHR 0xE2, CHR 0x80, CHR 0xA9], [CHR 0xE2, CHR 0x80, CHR 0xAF],
      [CHR 0xE2, CHR 0x81, CHR 0x9F], [CHR 0xE3, CHR 0x80, CHR 0x80]]"

lemma go_spaces_nonempty: "p \<in> set go_spaces \<Longrightarrow> p \<noteq> []"
  by (auto simp: go_spaces_def)

function strip_any :: "string list \<Rightarrow> string \<Rightarrow> string" where
  "strip_any ps s =
     (case find (\<lambda>p. p \<noteq> [] \<and> has_prefix s p) ps of
        None \<Rightarrow> s
      | Some p \<Rightarrow> strip_any ps (drop (length p) s))"
  by pat_completeness auto
termination
  by (relation "measure (\<lambda>(ps, s). length s)") (auto simp: find_Some_iff has_prefix_iff)

declare strip_any.simps [simp del]

definition trim_space :: "string \<Rightarrow> string" where
  "trim_space s =
     rev (strip_any (map rev go_spaces) (rev (strip_any go_spaces s)))"

lemma strip_any_suffix: "\<exists>w. s = w @ strip_any ps s"
proof (induction ps s rule: strip_any.induct)
  case (1 ps s)
  show ?case
  proof (cases "find (\<lambda>p. p \<noteq> [] \<and> has_prefix s p) ps")
    case None
    then show ?thesis by (subst strip_any.simps) simp
  next
    case (Some p)
    then obtain w where "drop (length p) s = w @ strip_any ps (drop (length p) s)"
      using "1.IH" by blast
    then have "s = (take (length p) s @ w) @ strip_any ps (drop (length p) s)"
      by (metis append.assoc append_take_drop_id)
    moreover from Some have "strip_any ps s = strip_any ps (drop (length p) s)"
      by (subst strip_any.simps) simp
    ultimately show ?thesis by metis
  qed
qed

lemma strip_any_length: "length (strip_any ps s) \<le> length s"
  using strip_any_suffix [of s ps] by (metis le_add2 length_append)

lemma strip_any_set: "set (strip_any ps s) \<subseteq> set s"
  using strip_any_suffix [of s ps] by (metis Un_upper2 set_append)

lemma trim_space_set: "set (trim_space s) \<subseteq> set s"
  unfolding trim_space_def using strip_any_set by (metis order_trans set_rev)

lemma trim_space_length: "length (trim_space s) \<le> length s"
  unfolding trim_space_def using strip_any_length by (metis length_rev order_trans)

lemma strip_any_fix: "(\<And>p. p \<in> set ps \<Longrightarrow> p \<noteq> [] \<Longrightarrow> \<not> has_prefix s p) \<Longrightarrow> strip_any ps s = s"
  by (subst strip_any.simps) (auto split: option.splits dest: find_in_set)

text \<open>A string whose bytes are all printable ASCII without the blank is left as it is.\<close>

definition graphic :: "char \<Rightarrow> bool" where
  "graphic c \<longleftrightarrow> 0x21 \<le> byte_of c \<and> byte_of c \<le> 0x7e"

lemma has_prefix_hd: "has_prefix s (c # p) \<Longrightarrow> s \<noteq> [] \<and> hd s = c"
  by (auto simp: has_prefix_iff)

lemma go_spaces_not_graphic: "p \<in> set go_spaces \<Longrightarrow> \<not> graphic (hd p) \<and> \<not> graphic (last p)"
  by (auto simp: go_spaces_def graphic_def byte_of_def)

lemma trim_space_ends:
  assumes "s = [] \<or> graphic (hd s) \<and> graphic (last s)"
  shows "trim_space s = s"
proof -
  have 1: "strip_any go_spaces s = s"
  proof (rule strip_any_fix)
    fix p assume p: "p \<in> set go_spaces" "p \<noteq> []"
    show "\<not> has_prefix s p"
    proof
      assume "has_prefix s p"
      with p(2) have "s \<noteq> [] \<and> hd p = hd s" by (cases p) (auto dest: has_prefix_hd)
      with assms go_spaces_not_graphic [OF p(1)] show False by simp
    qed
  qed
  have 2: "strip_any (map rev go_spaces) (rev s) = rev s"
  proof (rule strip_any_fix)
    fix q assume q: "q \<in> set (map rev go_spaces)" "q \<noteq> []"
    then obtain p where p: "p \<in> set go_spaces" "q = rev p" by auto
    show "\<not> has_prefix (rev s) q"
    proof
      assume "has_prefix (rev s) q"
      with q(2) have "rev s \<noteq> [] \<and> hd (rev s) = hd q" by (cases q) (auto dest: has_prefix_hd)
      then have "s \<noteq> [] \<and> last s = last p" by (simp add: p(2) hd_rev)
      with assms go_spaces_not_graphic [OF p(1)] show False by simp
    qed
  qed
  show ?thesis by (simp add: trim_space_def 1 2)
qed

lemma trim_space_graphic:
  assumes "list_all graphic s"
  shows "trim_space s = s"
proof (rule trim_space_ends)
  show "s = [] \<or> graphic (hd s) \<and> graphic (last s)"
    using assms by (cases "s = []") (auto simp: list_all_iff)
qed

text \<open>\<open>strings.TrimRight(s, cs)\<close>, \<open>strings.Trim(s, cs)\<close> for ASCII cutsets.\<close>

definition trim_right :: "string \<Rightarrow> string \<Rightarrow> string" where
  "trim_right s cs = rev (dropWhile (\<lambda>c. c \<in> set cs) (rev s))"

definition trim_both :: "string \<Rightarrow> string \<Rightarrow> string" where
  "trim_both s cs = trim_right (dropWhile (\<lambda>c. c \<in> set cs) s) cs"

text \<open>ASCII case mapping. A byte outside ASCII is left alone.\<close>

definition lower_char :: "char \<Rightarrow> char" where
  "lower_char c =
     (if 65 \<le> byte_of c \<and> byte_of c \<le> 90 then char_of (byte_of c + 32) else c)"

definition upper_char :: "char \<Rightarrow> char" where
  "upper_char c =
     (if 97 \<le> byte_of c \<and> byte_of c \<le> 122 then char_of (byte_of c - 32) else c)"

definition to_lower :: "string \<Rightarrow> string" where "to_lower s = map lower_char s"
definition to_upper :: "string \<Rightarrow> string" where "to_upper s = map upper_char s"

lemma length_to_lower [simp]: "length (to_lower s) = length s"
  by (simp add: to_lower_def)

text \<open>\<open>strings.EqualFold\<close> against an ASCII string: letters compare without case, and the two
  code points outside ASCII whose simple folding is an ASCII letter (U+212A to \<open>k\<close>, U+017F to
  \<open>s\<close>) are folded too.\<close>

fun fold_bytes :: "string \<Rightarrow> string" where
  "fold_bytes [] = []"
| "fold_bytes (c # s) =
     (if has_prefix (c # s) [CHR 0xE2, CHR 0x84, CHR 0xAA] then CHR ''k'' # fold_bytes (drop 2 s)
      else if has_prefix (c # s) [CHR 0xC5, CHR 0xBF] then CHR ''s'' # fold_bytes (drop 1 s)
      else lower_char c # fold_bytes s)"

definition equal_fold :: "string \<Rightarrow> string \<Rightarrow> bool" where
  "equal_fold a b \<longleftrightarrow> fold_bytes a = fold_bytes b"

lemma equal_fold_refl [simp]: "equal_fold s s"
  by (simp add: equal_fold_def)

lemma equal_fold_sym: "equal_fold a b \<Longrightarrow> equal_fold b a"
  by (simp add: equal_fold_def)

lemma equal_fold_trans: "equal_fold a b \<Longrightarrow> equal_fold b c \<Longrightarrow> equal_fold a c"
  by (simp add: equal_fold_def)

text \<open>Lower-case hexadecimal of a byte string (\<open>encoding/hex\<close>).\<close>

definition hex_digit :: "int \<Rightarrow> char" where
  "hex_digit n = (if n < 10 then char_of (48 + n) else char_of (87 + n))"

definition hex_encode :: "string \<Rightarrow> string" where
  "hex_encode s =
     concat (map (\<lambda>c. [hex_digit (byte_of c div 16), hex_digit (byte_of c mod 16)]) s)"

lemma length_hex_encode [simp]: "length (hex_encode s) = 2 * length s"
  by (induction s) (simp_all add: hex_encode_def)

text \<open>Decimal rendering of a Go integer (\<open>strconv.FormatInt\<close> base 10, \<open>%d\<close>).\<close>

function dec_digits :: "int \<Rightarrow> string" where
  "dec_digits n =
     (if n < 10 then [char_of (48 + n)] else dec_digits (n div 10) @ [char_of (48 + n mod 10)])"
  by pat_completeness auto
termination
  by (relation "measure nat") auto

declare dec_digits.simps [simp del]

definition format_int :: "int \<Rightarrow> string" where
  "format_int v = (if v < 0 then CHR ''-'' # dec_digits (- v) else dec_digits v)"

section \<open>Slices and maps\<close>

text \<open>A Go map that the code measures or iterates over is an association list with distinct
  keys; \<^const>\<open>AList.update\<close> stores and \<^const>\<open>map_of\<close> looks up.\<close>

type_synonym ('k, 'v) gomap = "('k \<times> 'v) list"

definition map_get :: "('k, 'v) gomap \<Rightarrow> 'k \<Rightarrow> 'v \<Rightarrow> 'v" where
  "map_get m k zero = (case map_of m k of None \<Rightarrow> zero | Some v \<Rightarrow> v)"

lemma map_get_update [simp]:
  "map_get (AList.update k v m) k' z = (if k' = k then v else map_get m k' z)"
  by (simp add: map_get_def update_conv')

lemma map_get_Nil [simp]: "map_get [] k z = z"
  by (simp add: map_get_def)

text \<open>A Go pointer is \<^typ>\<open>'a option\<close>, nil is \<^const>\<open>None\<close>.\<close>

section \<open>Sequences of checks\<close>

text \<open>\<open>if bad { return err }\<close>, and a run of such statements: the first error is returned.\<close>

definition fails :: "bool \<Rightarrow> 'e \<Rightarrow> 'e option" where
  "fails bad e = (if bad then Some e else None)"

fun first_err :: "'e option list \<Rightarrow> 'e option" where
  "first_err [] = None"
| "first_err (c # cs) = (case c of Some e \<Rightarrow> Some e | None \<Rightarrow> first_err cs)"

lemma fails_None [simp]: "fails bad e = None \<longleftrightarrow> \<not> bad"
  by (simp add: fails_def)

lemma first_err_None: "first_err cs = None \<longleftrightarrow> (\<forall>c \<in> set cs. c = None)"
  by (induction cs) (auto split: option.splits)

lemma first_err_Cons_None [simp]: "first_err (c # cs) = None \<longleftrightarrow> c = None \<and> first_err cs = None"
  by (simp split: option.split)

declare first_err.simps(2) [simp del]

text \<open>\<open>for i, x := range xs\<close> with a check in the body.\<close>

fun check_each :: "nat \<Rightarrow> (nat \<Rightarrow> 'a \<Rightarrow> 'e option) \<Rightarrow> 'a list \<Rightarrow> 'e option" where
  "check_each i f [] = None"
| "check_each i f (x # xs) =
     (case f i x of Some e \<Rightarrow> Some e | None \<Rightarrow> check_each (Suc i) f xs)"

lemma check_each_None: "check_each i f xs = None \<longleftrightarrow> (\<forall>j < length xs. f (i + j) (xs ! j) = None)"
proof (induction xs arbitrary: i)
  case Nil
  then show ?case by simp
next
  case (Cons x xs)
  have "(\<forall>j < length (x # xs). f (i + j) ((x # xs) ! j) = None) \<longleftrightarrow>
      f i x = None \<and> (\<forall>j < length xs. f (Suc i + j) (xs ! j) = None)"
    by (auto simp: less_Suc_eq_0_disj)
  then show ?case by (simp add: Cons split: option.split)
qed

lemma check_each_Cons_None [simp]:
  "check_each i f (x # xs) = None \<longleftrightarrow> f i x = None \<and> check_each (Suc i) f xs = None"
  by (simp split: option.split)

declare check_each.simps(2) [simp del]

lemma check_each_const:
  "check_each i (\<lambda>i x. map_option (g i) (f x)) xs = None \<longleftrightarrow> (\<forall>x \<in> set xs. f x = None)"
  by (simp add: check_each_None all_set_conv_all_nth)

end
