(* ===== verification/Protocol.thy ===== *)
theory Protocol
  imports Prelude
begin

text \<open>
  Package \<open>internal/protocol\<close>: the messages between the module and the inspector, the
  checks of one decoded request (\<open>Parse\<close>), the checks of the verbs an action may carry, and
  the constructors of a reply. \<open>encoding/json\<close> is a parameter (\<open>unmarshal\<close>, \<open>marshal\<close>): the
  records below are the decoded values.
\<close>

section \<open>Messages\<close>

abbreviation Version :: int where "Version \<equiv> 2"

record tls_info =
  tls_version :: string
  tls_sni :: string
  tls_ja4 :: string

record conn =
  client_ip :: string
  client_port :: int
  server_ip :: string
  server_port :: int
  conn_tls :: "tls_info option"

text \<open>\<open>Header [2]string\<close>: a name and a value.\<close>

type_synonym header = "string \<times> string"

record http_info =
  h_method :: string
  h_scheme :: string
  h_host :: string
  h_uri :: string
  h_args_size :: int
  h_version :: string

record response_info =
  rs_status :: int
  rs_headers :: "header list"
  rs_upstream_ms :: int

record enc_info =
  enc_alg :: string
  enc_kid :: string
  enc_nonce :: string

record locator =
  l_store :: string
  l_driver :: string
  l_key :: string
  l_unavailable :: string
  l_size :: int
  l_declared_size :: int
  l_sha256 :: string
  l_processed_sha256 :: string
  l_transformed :: bool
  l_complete :: bool
  l_truncated :: bool
  l_encoding :: string
  l_expires_at :: int
  l_hint :: string
  l_enc :: "enc_info option"

text \<open>\<open>Placed\<close> on a nil locator is false.\<close>

definition Placed :: "locator option \<Rightarrow> bool" where
  "Placed l = (case l of None \<Rightarrow> False
     | Some l \<Rightarrow> l_unavailable l = [] \<and> l_driver l \<noteq> [] \<and> l_key l \<noteq> [])"

record store_refs =
  st_headers :: "locator option"
  st_args :: "locator option"
  st_body :: "locator option"

record route =
  rt_server_name :: string
  rt_location :: string
  rt_profile :: string

record score_state =
  sc_total :: int
  sc_deny_at :: int

record reason =
  rn_code :: string
  rn_class :: string

record object_spec =
  os_set :: string
  os_limit :: int
  os_source :: string

record action =
  a_to :: string
  a_do :: string
  a_apply :: string
  a_phase :: string
  a_code :: string
  a_delta :: int
  a_value :: int
  a_counter :: string
  a_marker :: string
  a_group :: string
  a_set :: string
  a_ttl :: "int option"
  a_when :: "string list"
  a_headers :: "object_spec option"
  a_args :: "object_spec option"
  a_body :: "object_spec option"

record prior_verdict =
  pv_phase :: string
  pv_wave :: int
  pv_inspector :: string
  pv_verdict :: string
  pv_score :: int
  pv_reason :: "reason option"
  pv_actions :: "action list"

definition ReasonCode :: "prior_verdict \<Rightarrow> string" where
  "ReasonCode p = (case pv_reason p of None \<Rightarrow> [] | Some r \<Rightarrow> rn_code r)"

abbreviation "DoChallenge \<equiv> ''challenge''"
abbreviation "DoThreshold \<equiv> ''threshold''"
abbreviation "DoSkip \<equiv> ''skip''"
abbreviation "DoReauth \<equiv> ''reauth''"
abbreviation "DoNote \<equiv> ''note''"
abbreviation "DoMutate \<equiv> ''mutate''"
abbreviation "DoActive \<equiv> ''active''"
abbreviation "DoPassive \<equiv> ''passive''"
abbreviation "DoOff \<equiv> ''off''"
abbreviation "DoVote \<equiv> ''vote''"
abbreviation "DoAudit \<equiv> ''audit''"
abbreviation "DoArchive \<equiv> ''archive''"
abbreviation "DoMark \<equiv> ''mark''"
abbreviation "DoScore \<equiv> ''score''"

abbreviation "ApplyRequest \<equiv> ''request''"
abbreviation "ApplyIP \<equiv> ''ip''"
abbreviation "ApplyASN \<equiv> ''asn''"
abbreviation "ApplySession \<equiv> ''session''"
abbreviation "ApplyConn \<equiv> ''conn''"
abbreviation "ApplyResponse \<equiv> ''response''"

abbreviation "PhaseRequest \<equiv> ''request''"
abbreviation "PhaseResponse \<equiv> ''response''"
abbreviation "PhaseFrame \<equiv> ''frame''"

abbreviation "NeedHeaders \<equiv> ''headers''"
abbreviation "NeedArgs \<equiv> ''args''"
abbreviation "NeedBody \<equiv> ''body''"

abbreviation "VerdictAllow \<equiv> ''allow''"
abbreviation "VerdictScore \<equiv> ''score''"
abbreviation "VerdictRedirect \<equiv> ''redirect''"
abbreviation "VerdictDeny \<equiv> ''deny''"
abbreviation "VerdictError \<equiv> ''error''"

definition Scope :: "action \<Rightarrow> string" where
  "Scope a = (if a_apply a = [] then ApplyRequest else a_apply a)"

record request =
  q_v :: int
  q_rid :: string
  q_ray :: string
  q_phase :: string
  q_wave :: int
  q_inspector :: string
  q_deadline_ms :: int
  q_audit_subject :: "string option"
  q_node :: string
  q_conn :: conn
  q_http :: http_info
  q_vars :: "(string, string) gomap"
  q_needs :: "string list"
  q_store :: store_refs
  q_route :: route
  q_score :: score_state
  q_prior :: "prior_verdict list"
  q_response :: "response_info option"

definition Needed :: "request \<Rightarrow> string \<Rightarrow> bool" where
  "Needed r obj \<longleftrightarrow> list_ex (\<lambda>n. n = obj) (q_needs r)"

section \<open>Checks of the verbs of an action\<close>

datatype proto_error =
    WhenUnknown string
  | WhenTwice string
  | SpecSet string string
  | SpecLimit string
  | SpecSource string string
  | MarkerMissing
  | MarkerTooLong
  | MarkerControl
  | MarkerSpace

abbreviation ArchiveWhen :: "string list" where
  "ArchiveWhen \<equiv> [''allow'', ''deny'']"

text \<open>The loop of \<open>CheckArchiveWhen\<close>: \<open>seen\<close> is the Go map's key set, in the order met.\<close>

fun check_when_loop :: "string list \<Rightarrow> string list \<Rightarrow> proto_error + string list" where
  "check_when_loop seen [] = Inr seen"
| "check_when_loop seen (word # words) =
     (let name = to_lower (trim_space word)
      in if name \<noteq> ''allow'' \<and> name \<noteq> ''deny'' then Inl (WhenUnknown word)
         else if name \<in> set seen then Inl (WhenTwice name)
         else check_when_loop (name # seen) words)"

definition CheckArchiveWhen :: "string list \<Rightarrow> proto_error + string list" where
  "CheckArchiveWhen words =
     (case check_when_loop [] words of
        Inl e \<Rightarrow> Inl e
      | Inr seen \<Rightarrow> Inr (filter (\<lambda>name. name \<in> set seen) ArchiveWhen))"

definition CheckObjectSpec :: "string \<Rightarrow> object_spec option \<Rightarrow> proto_error option" where
  "CheckObjectSpec name o' =
     (case o' of
        None \<Rightarrow> None
      | Some spec \<Rightarrow>
          if os_set spec \<noteq> [] \<and> os_set spec \<noteq> ''on'' \<and> os_set spec \<noteq> ''off''
          then Some (SpecSet name (os_set spec))
          else if os_limit spec < 0 then Some (SpecLimit name)
          else if os_source spec \<noteq> [] \<and> os_source spec \<noteq> ''store'' \<and> os_source spec \<noteq> ''original''
          then Some (SpecSource name (os_source spec))
          else None)"

abbreviation MarkerMax :: nat where "MarkerMax \<equiv> 128"

definition CheckMarker :: "string \<Rightarrow> proto_error option" where
  "CheckMarker marker =
     (if marker = [] then Some MarkerMissing
      else if length marker > MarkerMax then Some MarkerTooLong
      else if list_ex (\<lambda>c. byte_of c < 0x20 \<or> byte_of c = 0x7f) marker then Some MarkerControl
      else if hd marker = CHR '' '' \<or> last marker = CHR '' '' then Some MarkerSpace
      else None)"

lemma check_when_loop_Inr:
  "check_when_loop seen words = Inr out \<Longrightarrow>
     set out = set seen \<union> set (map (\<lambda>w. to_lower (trim_space w)) words) \<and>
     (distinct seen \<longrightarrow> distinct out) \<and> (set seen \<subseteq> set ArchiveWhen \<longrightarrow> set out \<subseteq> set ArchiveWhen)"
proof (induction seen words rule: check_when_loop.induct)
  case (1 seen)
  then show ?case by simp
next
  case (2 seen word words)
  then show ?case by (auto simp: Let_def split: if_splits)
qed

text \<open>A list \<open>CheckArchiveWhen\<close> accepts is put into canonical order, and the canonical list is
  accepted unchanged.\<close>

lemma archive_when_sublists:
  "filter P ArchiveWhen \<in> {[], [''allow''], [''deny''], [''allow'', ''deny'']}"
  by simp

lemma check_when_canonical:
  "xs \<in> {[], [''allow''], [''deny''], [''allow'', ''deny'']} \<Longrightarrow> CheckArchiveWhen xs = Inr xs"
proof -
  have t: "trim_space ''allow'' = ''allow''" "trim_space ''deny'' = ''deny''"
    by (rule trim_space_graphic, simp add: graphic_def byte_of_def)+
  have l: "to_lower ''allow'' = ''allow''" "to_lower ''deny'' = ''deny''"
    by (simp_all add: to_lower_def lower_char_def byte_of_def)
  assume "xs \<in> {[], [''allow''], [''deny''], [''allow'', ''deny'']}"
  then show ?thesis
    by (auto simp: CheckArchiveWhen_def t l Let_def)
qed

section \<open>Parsing a request\<close>

datatype parse_cause =
    InvalidJSON
  | RIDMissing
  | VMissing
  | InspectorMissing
  | PhaseInvalid string
  | HTTPMissing
  | StoreMixes string
  | StoreHalf string

record parse_error =
  pe_rid :: string
  pe_err :: parse_cause

definition validate_locator :: "locator option \<Rightarrow> string \<Rightarrow> parse_cause option" where
  "validate_locator l obj =
     (case l of
        None \<Rightarrow> None
      | Some l \<Rightarrow>
          if l_unavailable l \<noteq> [] \<and> (l_driver l \<noteq> [] \<or> l_key l \<noteq> []) then Some (StoreMixes obj)
          else if (l_driver l = []) \<noteq> (l_key l = []) then Some (StoreHalf obj)
          else None)"

text \<open>The regular expression \<open>"rid"\s*:\s*"([0-9a-fA-F]{1,32})"\<close>, matched at one offset and
  then at the leftmost offset where it matches.\<close>

definition re_space :: "char \<Rightarrow> bool" where
  "re_space c \<longleftrightarrow> byte_of c \<in> {9, 10, 12, 13, 32}"

definition hex_char :: "char \<Rightarrow> bool" where
  "hex_char c \<longleftrightarrow> (48 \<le> byte_of c \<and> byte_of c \<le> 57) \<or> (65 \<le> byte_of c \<and> byte_of c \<le> 70) \<or>
     (97 \<le> byte_of c \<and> byte_of c \<le> 102)"

definition rid_key :: string where
  "rid_key = [CHR 0x22, CHR ''r'', CHR ''i'', CHR ''d'', CHR 0x22]"

definition match_rid :: "string \<Rightarrow> string option" where
  "match_rid s =
     (if \<not> has_prefix s rid_key then None
      else case dropWhile re_space (drop (length rid_key) s) of
        [] \<Rightarrow> None
      | c # s1 \<Rightarrow>
          if c \<noteq> CHR '':'' then None
          else case dropWhile re_space s1 of
            [] \<Rightarrow> None
          | d # s2 \<Rightarrow>
              if d \<noteq> CHR 0x22 then None
              else let digits = takeWhile hex_char s2; rest = dropWhile hex_char s2
                   in if 1 \<le> length digits \<and> length digits \<le> 32 \<and> rest \<noteq> [] \<and> hd rest = CHR 0x22
                      then Some digits else None)"

fun sniffRID :: "string \<Rightarrow> string" where
  "sniffRID [] = []"
| "sniffRID (c # s) =
     (case match_rid (c # s) of Some m \<Rightarrow> m | None \<Rightarrow> sniffRID s)"

text \<open>The locators are checked in the iteration order of a Go map literal, which is not fixed:
  \<open>order\<close> lists the three keys in the order met.\<close>

definition locator_of :: "store_refs \<Rightarrow> string \<Rightarrow> locator option" where
  "locator_of st name =
     (if name = NeedHeaders then st_headers st
      else if name = NeedArgs then st_args st
      else st_body st)"

fun validate_store :: "store_refs \<Rightarrow> string list \<Rightarrow> parse_cause option" where
  "validate_store st [] = None"
| "validate_store st (name # names) =
     (case validate_locator (locator_of st name) name of
        Some e \<Rightarrow> Some e
      | None \<Rightarrow> validate_store st names)"

definition Parse :: "(string \<Rightarrow> request option) \<Rightarrow> string list \<Rightarrow> string \<Rightarrow> parse_error + request" where
  "Parse unmarshal order payload =
     (case unmarshal payload of
        None \<Rightarrow> Inl \<lparr>pe_rid = sniffRID payload, pe_err = InvalidJSON\<rparr>
      | Some req \<Rightarrow>
          if q_rid req = [] then Inl \<lparr>pe_rid = [], pe_err = RIDMissing\<rparr>
          else if q_v req = 0 then Inl \<lparr>pe_rid = q_rid req, pe_err = VMissing\<rparr>
          else if q_inspector req = [] then Inl \<lparr>pe_rid = q_rid req, pe_err = InspectorMissing\<rparr>
          else if q_phase req \<notin> {PhaseRequest, PhaseResponse, PhaseFrame}
          then Inl \<lparr>pe_rid = q_rid req, pe_err = PhaseInvalid (q_phase req)\<rparr>
          else if h_method (q_http req) = [] \<or> h_uri (q_http req) = []
          then Inl \<lparr>pe_rid = q_rid req, pe_err = HTTPMissing\<rparr>
          else case validate_store (q_store req) order of
            Some e \<Rightarrow> Inl \<lparr>pe_rid = q_rid req, pe_err = e\<rparr>
          | None \<Rightarrow> Inr req)"

text \<open>What an accepted request satisfies.\<close>

definition locator_ok :: "locator option \<Rightarrow> bool" where
  "locator_ok l = (case l of None \<Rightarrow> True
     | Some l \<Rightarrow> (l_driver l = []) = (l_key l = []) \<and> (l_unavailable l \<noteq> [] \<longrightarrow> l_driver l = []))"

definition request_ok :: "request \<Rightarrow> bool" where
  "request_ok r \<longleftrightarrow> q_rid r \<noteq> [] \<and> q_v r \<noteq> 0 \<and> q_inspector r \<noteq> [] \<and>
     q_phase r \<in> {PhaseRequest, PhaseResponse, PhaseFrame} \<and>
     h_method (q_http r) \<noteq> [] \<and> h_uri (q_http r) \<noteq> [] \<and>
     locator_ok (st_headers (q_store r)) \<and> locator_ok (st_args (q_store r)) \<and>
     locator_ok (st_body (q_store r))"

lemma validate_locator_None: "validate_locator l obj = None \<longleftrightarrow> locator_ok l"
  by (auto simp: validate_locator_def locator_ok_def split: option.splits if_splits)

lemma validate_store_None:
  "validate_store st names = None \<longleftrightarrow> (\<forall>n \<in> set names. locator_ok (locator_of st n))"
proof (induction names)
  case Nil
  then show ?case by simp
next
  case (Cons n names)
  then show ?case
    using validate_locator_None [of "locator_of st n" n]
    by (cases "validate_locator (locator_of st n) n") auto
qed

section \<open>Replies\<close>

record redirect_ref =
  rd_url :: string
  rd_status :: int

record header_ops =
  ho_set :: "(string, string) gomap"
  ho_unset :: "string list"

record cookie =
  ck_name :: string
  ck_value :: string
  ck_path :: string
  ck_max_age :: int

record rewrite_body =
  rb_key :: string
  rb_size :: int
  rb_sha256 :: string

record rewrite =
  rw_body :: "rewrite_body option"
  rw_content_type :: string

text \<open>\<open>Response *ResponseRef\<close> holds one name.\<close>

record reply =
  rp_v :: int
  rp_rid :: string
  rp_inspector :: string
  rp_verdict :: string
  rp_score :: "int option"
  rp_reason :: "reason option"
  rp_response :: "string option"
  rp_redirect :: "redirect_ref option"
  rp_headers :: "header_ops option"
  rp_rewrite :: "rewrite option"
  rp_cookies :: "cookie list"
  rp_actions :: "action list"

definition empty_reply :: "int \<Rightarrow> string \<Rightarrow> string \<Rightarrow> string \<Rightarrow> reply" where
  "empty_reply v rid inspector verdict =
     \<lparr>rp_v = v, rp_rid = rid, rp_inspector = inspector, rp_verdict = verdict, rp_score = None,
      rp_reason = None, rp_response = None, rp_redirect = None, rp_headers = None,
      rp_rewrite = None, rp_cookies = [], rp_actions = []\<rparr>"

definition SetHeader :: "reply \<Rightarrow> string \<Rightarrow> string \<Rightarrow> reply" where
  "SetHeader r name value =
     (if name = [] then r
      else let ops = (case rp_headers r of None \<Rightarrow> \<lparr>ho_set = [], ho_unset = []\<rparr> | Some h \<Rightarrow> h)
           in r\<lparr>rp_headers := Some (ops\<lparr>ho_set := AList.update name value (ho_set ops)\<rparr>)\<rparr>)"

definition NewReply :: "request \<Rightarrow> string \<Rightarrow> reply" where
  "NewReply req verdict = empty_reply (q_v req) (q_rid req) (q_inspector req) verdict"

definition ErrorReply :: "request \<Rightarrow> string \<Rightarrow> reply" where
  "ErrorReply req code =
     (NewReply req VerdictError)\<lparr>rp_reason := Some \<lparr>rn_code = code, rn_class = []\<rparr>\<rparr>"

abbreviation "ClassOverload \<equiv> ''overload''"

definition ShedReply :: "request \<Rightarrow> string \<Rightarrow> reply" where
  "ShedReply req code =
     (let reply = ErrorReply req code
      in reply\<lparr>rp_reason := map_option (\<lambda>r. r\<lparr>rn_class := ClassOverload\<rparr>) (rp_reason reply)\<rparr>)"

definition FallbackReply :: "string \<Rightarrow> string \<Rightarrow> string \<Rightarrow> reply" where
  "FallbackReply rid inspector code =
     (empty_reply Version rid inspector VerdictError)
       \<lparr>rp_reason := Some \<lparr>rn_code = code, rn_class = []\<rparr>\<rparr>"

datatype reply_error = ScoreRange int | MarshalFailed

definition WithScore :: "reply \<Rightarrow> int \<Rightarrow> reply_error + reply" where
  "WithScore r score =
     (if score < 0 \<or> score > 100 then Inl (ScoreRange score)
      else Inr (r\<lparr>rp_verdict := VerdictScore, rp_score := Some score\<rparr>))"

definition Marshal :: "(reply \<Rightarrow> string option) \<Rightarrow> reply \<Rightarrow> reply_error + string" where
  "Marshal marshal r =
     (case rp_score r of
        Some s \<Rightarrow> if s < 0 \<or> s > 100 then Inl (ScoreRange s)
                  else (case marshal r of None \<Rightarrow> Inl MarshalFailed | Some b \<Rightarrow> Inr b)
      | None \<Rightarrow> (case marshal r of None \<Rightarrow> Inl MarshalFailed | Some b \<Rightarrow> Inr b))"

lemma set_header_lookup:
  assumes "name \<noteq> []"
  shows "\<exists>h. rp_headers (SetHeader r name value) = Some h \<and> map_of (ho_set h) name = Some value"
  using assms by (auto simp: SetHeader_def Let_def update_conv')

lemma parse_core:
  assumes order: "set order = {NeedHeaders, NeedArgs, NeedBody}"
    and json: "unmarshal payload = Some req"
  shows "(\<forall>r. Parse unmarshal order payload = Inr r \<longleftrightarrow> r = req \<and> request_ok req) \<and>
         (\<forall>e. Parse unmarshal order payload = Inl e \<longrightarrow> pe_rid e = q_rid req)"
proof -
  have st: "validate_store (q_store req) order = None \<longleftrightarrow>
      locator_ok (st_headers (q_store req)) \<and> locator_ok (st_args (q_store req)) \<and>
      locator_ok (st_body (q_store req))"
    by (simp add: validate_store_None order locator_of_def)
  show ?thesis
    using st by (auto simp: Parse_def json request_ok_def split: option.splits if_splits)
qed

section \<open>Properties\<close>

text \<open>C25: \<open>Parse\<close> accepts exactly the decoded requests that carry a request id, a version, an
  inspector, a known phase, a method and a path, and whose three locators are each consistent,
  whatever order Go's map iteration takes; and an error reply can always be addressed: once
  JSON decoding and the request id succeeded, the error carries the request's id.\<close>

theorem parse_accepts:
  assumes order: "set order = {NeedHeaders, NeedArgs, NeedBody}"
    and json: "unmarshal payload = Some req"
  shows "(\<forall>r. Parse unmarshal order payload = Inr r \<longleftrightarrow> r = req \<and> request_ok req) \<and>
         (\<forall>e. Parse unmarshal order payload = Inl e \<longrightarrow> pe_rid e = q_rid req)"
  using order json by (intro parse_core)

definition sample_request :: request where
  "sample_request = \<lparr>q_v = 2, q_rid = ''ab'', q_ray = [], q_phase = PhaseRequest, q_wave = 0,
     q_inspector = ''captcha'', q_deadline_ms = 0, q_audit_subject = None, q_node = ''n'',
     q_conn = \<lparr>client_ip = ''10.0.0.1'', client_port = 1, server_ip = [], server_port = 0,
       conn_tls = None\<rparr>,
     q_http = \<lparr>h_method = ''GET'', h_scheme = [], h_host = [], h_uri = ''/'', h_args_size = 0,
       h_version = []\<rparr>,
     q_vars = [], q_needs = [], q_store = \<lparr>st_headers = None, st_args = None, st_body = None\<rparr>,
     q_route = \<lparr>rt_server_name = [], rt_location = [], rt_profile = ''default''\<rparr>,
     q_score = \<lparr>sc_total = 0, sc_deny_at = 0\<rparr>, q_prior = [], q_response = None\<rparr>"

theorem parse_accepts_witness:
  "Parse (\<lambda>_. Some sample_request) [NeedBody, NeedHeaders, NeedArgs] [] = Inr sample_request"
proof -
  have o: "set [NeedBody, NeedHeaders, NeedArgs] = {NeedHeaders, NeedArgs, NeedBody}" by auto
  show ?thesis
    using parse_accepts [OF o, of "\<lambda>_. Some sample_request" "[]" sample_request]
    by (simp add: request_ok_def sample_request_def locator_ok_def)
qed

end
