(* ===== verification/Overload.thy ===== *)
theory Overload
  imports Prelude
begin

text \<open>Package \<open>internal/overload\<close>: the share of the queue at which an \<open>overload\<close> rule fires.\<close>

abbreviation OverloadOn :: string where "OverloadOn \<equiv> ''overload''"
abbreviation AtMin :: int where "AtMin \<equiv> 25"
abbreviation AtMax :: int where "AtMax \<equiv> 100"

definition overload_at :: "int option \<Rightarrow> int" where
  "overload_at at = (case at of None \<Rightarrow> AtMax | Some v \<Rightarrow> v)"

text \<open>\<open>Check\<close>: the error carries the offending value.\<close>

definition overload_check :: "int option \<Rightarrow> int option" where
  "overload_check at =
     (case at of
        None \<Rightarrow> None
      | Some v \<Rightarrow> if v < AtMin \<or> v > AtMax then Some v else None)"

definition overload_fires :: "int \<Rightarrow> int \<Rightarrow> bool \<Rightarrow> bool" where
  "overload_fires at fill shed = (if shed then True else at < AtMax \<and> fill \<ge> at)"

text \<open>A rule without \<open>at\<close> fires on shed requests only.\<close>

lemma overload_default_only_shed: "overload_fires (overload_at None) fill shed \<longleftrightarrow> shed"
  by (simp add: overload_fires_def overload_at_def)

lemma overload_fires_mono:
  "overload_fires at fill shed \<Longrightarrow> fill \<le> fill' \<Longrightarrow> overload_fires at fill' shed"
  by (auto simp: overload_fires_def split: if_splits)

end
