(* ===== verification/Go_Float.thy ===== *)
theory Go_Float
  imports Complex_Main Prelude "HOL-Library.Log_Nat"
begin

text \<open>
  Go's \<open>float64\<close>. A finite value is the rational number it denotes, and every arithmetic
  operation is the exact operation followed by \<open>f64\<close>, the IEEE 754 binary64 rounding (to
  nearest, ties to even, with gradual underflow). Infinities and NaN are outside the model:
  the bucket capacities, loss rates and scores the program computes with stay far below
  \<open>2^1024\<close>.

  The operations of the components take the rounding \<open>rd\<close> as an argument. The code is the
  instance \<open>rd = f64\<close>; the real-number specification it approximates is \<open>rd = id\<close>. The locale
  \<open>rounding\<close> states what both have in common.
\<close>

section \<open>Rounding\<close>

type_synonym float64 = rat

definition round_even :: "rat \<Rightarrow> int" where
  "round_even x =
     (let f = \<lfloor>x\<rfloor>; r = x - of_int f
      in if r < 1 / 2 then f else if r > 1 / 2 then f + 1 else if even f then f else f + 1)"

text \<open>The binary exponent of a positive rational.\<close>

definition floor_log2 :: "rat \<Rightarrow> int" where
  "floor_log2 x =
     (let (a, b) = quotient_of x; k = int (floorlog 2 (nat a)) - int (floorlog 2 (nat b))
      in if 2 powi k \<le> x then k else k - 1)"

definition ulp_exp :: "rat \<Rightarrow> int" where
  "ulp_exp x = max (floor_log2 x - 52) (- 1074)"

definition f64_pos :: "rat \<Rightarrow> rat" where
  "f64_pos x = of_int (round_even (x / 2 powi ulp_exp x)) * 2 powi ulp_exp x"

definition f64 :: "rat \<Rightarrow> rat" where
  "f64 x = (if x = 0 then 0 else if x > 0 then f64_pos x else - f64_pos (- x))"

lemma round_even_int [simp]: "round_even (of_int n) = n"
  by (simp add: round_even_def Let_def)

lemma round_even_floor: "round_even x = \<lfloor>x\<rfloor> \<or> round_even x = \<lfloor>x\<rfloor> + 1"
  by (auto simp: round_even_def Let_def)

lemma round_even_mono: "x \<le> y \<Longrightarrow> round_even x \<le> round_even y"
proof -
  assume le: "x \<le> y"
  then have fl: "\<lfloor>x\<rfloor> \<le> \<lfloor>y\<rfloor>" by (rule floor_mono)
  show ?thesis
  proof (cases "\<lfloor>x\<rfloor> = \<lfloor>y\<rfloor>")
    case True
    with le show ?thesis by (auto simp: round_even_def Let_def)
  next
    case False
    with fl have "\<lfloor>x\<rfloor> + 1 \<le> \<lfloor>y\<rfloor>" by simp
    then show ?thesis using round_even_floor [of x] round_even_floor [of y] by linarith
  qed
qed

lemma floorlog_powi:
  assumes "n > (0::int)"
  defines "L \<equiv> int (floorlog 2 (nat n))"
  shows "2 powi (L - 1) \<le> (of_int n :: rat)" "(of_int n :: rat) < 2 powi L"
proof -
  define l where "l = floorlog 2 (nat n)"
  have l: "(2::nat) ^ (l - 1) \<le> nat n" "nat n < 2 ^ l"
    using floorlog_bounds [of "nat n" 2] assms(1) by (auto simp: l_def)
  have l0: "l > 0" using l(2) assms(1) by (cases l) auto
  have "int (2 ^ (l - 1)) \<le> n" "n < int (2 ^ l)"
    using l assms(1) by linarith+
  then have "(2::int) ^ (l - 1) \<le> n" "n < 2 ^ l" by simp_all
  then have "(of_int (2 ^ (l - 1)) :: rat) \<le> of_int n" "(of_int n :: rat) < of_int (2 ^ l)"
    by (simp_all only: of_int_le_iff of_int_less_iff)
  moreover have "(2 :: rat) powi (int l - 1) = 2 ^ (l - 1)"
    using l0 by (simp add: power_int_def nat_diff_distrib')
  moreover have "(2 :: rat) powi (int l) = 2 ^ l" by (simp add: power_int_def)
  ultimately show "2 powi (L - 1) \<le> (of_int n :: rat)" "(of_int n :: rat) < 2 powi L"
    by (simp_all add: L_def l_def)
qed

lemma floor_log2_bounds:
  assumes "x > 0"
  shows "2 powi floor_log2 x \<le> x" "x < 2 powi (floor_log2 x + 1)"
proof -
  obtain a b where q: "quotient_of x = (a, b)" by (cases "quotient_of x")
  then have b: "b > 0" and x: "x = of_int a / of_int b"
    using quotient_of_denom_pos quotient_of_div by blast+
  with assms have a: "a > 0" by (simp add: zero_less_divide_iff)
  define la where "la = int (floorlog 2 (nat a))"
  define lb where "lb = int (floorlog 2 (nat b))"
  note A = floorlog_powi [OF a, folded la_def]
  note B = floorlog_powi [OF b, folded lb_def]
  define k where "k = la - lb"
  have "x < 2 powi la / 2 powi (lb - 1)"
    unfolding x using A B a b by (intro frac_less) auto
  also have "\<dots> = (2::rat) powi (k + 1)"
    by (simp add: k_def power_int_diff power_int_add field_simps)
  finally have up: "x < 2 powi (k + 1)" .
  have "(2::rat) powi (k - 1) = 2 powi (la - 1) / 2 powi lb"
    by (simp add: k_def power_int_diff power_int_add field_simps)
  also have "\<dots> < x"
    unfolding x using A B a b by (intro frac_less2) auto
  finally have low: "2 powi (k - 1) < x" .
  have "floor_log2 x = (if 2 powi k \<le> x then k else k - 1)"
    by (simp add: floor_log2_def q k_def la_def lb_def Let_def)
  with up low show "2 powi floor_log2 x \<le> x" "x < 2 powi (floor_log2 x + 1)"
    by (auto split: if_splits)
qed

lemma floor_log2_mono:
  assumes "0 < x" "x \<le> y"
  shows "floor_log2 x \<le> floor_log2 y"
proof (rule ccontr)
  assume "\<not> floor_log2 x \<le> floor_log2 y"
  then have "(2::rat) powi (floor_log2 y + 1) \<le> 2 powi floor_log2 x"
    by (intro power_int_increasing) auto
  with floor_log2_bounds(1) [OF assms(1)] floor_log2_bounds(2) [of y] assms show False
    by linarith
qed

lemma powi2_int:
  assumes "0 \<le> e"
  shows "\<exists>n. (2::rat) powi e = of_int n"
  using assms by (intro exI [of _ "2 ^ nat e"]) (simp add: power_int_def)

text \<open>A value that is a multiple of a power of two at least its unit in the last place is
  kept.\<close>

lemma f64_pos_exact:
  assumes "x = of_int m * 2 powi q" "ulp_exp x \<le> q"
  shows "f64_pos x = x"
proof -
  obtain n where n: "(2::rat) powi (q - ulp_exp x) = of_int n"
    using powi2_int assms(2) by fastforce
  have "x / 2 powi ulp_exp x = of_int m * 2 powi (q - ulp_exp x)"
    unfolding assms(1) by (simp add: power_int_diff)
  also have "\<dots> = of_int (m * n)" by (simp add: n)
  finally have d: "x / 2 powi ulp_exp x = of_int (m * n)" .
  then have "f64_pos x = x / 2 powi ulp_exp x * 2 powi ulp_exp x"
    by (simp only: f64_pos_def round_even_int)
  then show ?thesis by simp
qed

lemma f64_pos_int:
  assumes "0 < n" "n < 2 ^ 53"
  shows "f64_pos (of_int n) = of_int n"
proof (rule f64_pos_exact [where m = n and q = 0])
  have "(2::rat) powi floor_log2 (of_int n) \<le> of_int n"
    using assms by (intro floor_log2_bounds) simp
  also have "\<dots> < of_int (2 ^ 53)" using assms(2) by (simp only: of_int_less_iff)
  also have "\<dots> = (2::rat) powi 53" by (simp add: power_int_def)
  finally have "floor_log2 (of_int n) < 53"
    using power_int_increasing [of 53 "floor_log2 (of_int n)" "2::rat"] by force
  then show "ulp_exp (of_int n) \<le> 0" by (simp add: ulp_exp_def)
qed simp

lemma f64_pos_mono:
  assumes "0 < x" "x \<le> y"
  shows "f64_pos x \<le> f64_pos y"
proof (cases "ulp_exp x = ulp_exp y")
  case True
  have "x / 2 powi ulp_exp y \<le> y / 2 powi ulp_exp y"
    using assms(2) by (intro divide_right_mono) auto
  then have "(of_int (round_even (x / 2 powi ulp_exp y)) :: rat) \<le> of_int (round_even (y / 2 powi ulp_exp y))"
    by (simp only: of_int_le_iff round_even_mono)
  then show ?thesis unfolding f64_pos_def True by (intro mult_right_mono) auto
next
  case False
  define kx where "kx = floor_log2 x"
  define ky where "ky = floor_log2 y"
  have "kx \<le> ky" using floor_log2_mono [OF assms] by (simp add: kx_def ky_def)
  define t where "t = max (kx + 1) (ulp_exp x)"
  from False \<open>kx \<le> ky\<close> have lt: "t \<le> ky" "ulp_exp y = ky - 52" "ulp_exp x \<le> t"
    by (auto simp: ulp_exp_def kx_def ky_def t_def max_def split: if_splits)
  obtain n where n: "(2::rat) powi (t - ulp_exp x) = of_int n"
    using powi2_int lt(3) by fastforce
  have "x < 2 powi (kx + 1)" using floor_log2_bounds(2) [OF assms(1)] by (simp add: kx_def)
  also have "\<dots> \<le> (2::rat) powi t" by (intro power_int_increasing) (auto simp: t_def)
  finally have "x / 2 powi ulp_exp x \<le> 2 powi t / 2 powi ulp_exp x"
    by (intro divide_right_mono) auto
  also have "\<dots> = of_int n" by (simp add: n [symmetric] power_int_diff)
  finally have "round_even (x / 2 powi ulp_exp x) \<le> n"
    using round_even_mono round_even_int by metis
  then have "f64_pos x \<le> of_int n * 2 powi ulp_exp x"
    unfolding f64_pos_def by (intro mult_right_mono) auto
  also have "\<dots> = 2 powi t" by (simp add: n [symmetric] power_int_diff)
  also have "\<dots> \<le> (2::rat) powi ky" using lt(1) by (intro power_int_increasing) auto
  also have "\<dots> = of_int (2 ^ 52) * 2 powi ulp_exp y"
    by (simp add: lt(2) power_int_diff)
  also have "\<dots> \<le> f64_pos y"
  proof -
    have "(of_int (2 ^ 52) :: rat) = 2 powi ky / 2 powi ulp_exp y"
      by (simp add: lt(2) power_int_diff)
    also have "\<dots> \<le> y / 2 powi ulp_exp y"
      using floor_log2_bounds(1) [of y] assms by (intro divide_right_mono) (auto simp: ky_def)
    finally have "2 ^ 52 \<le> round_even (y / 2 powi ulp_exp y)"
      using round_even_mono round_even_int by metis
    then have "(of_int (2 ^ 52) :: rat) \<le> of_int (round_even (y / 2 powi ulp_exp y))"
      by (simp only: of_int_le_iff)
    then show ?thesis unfolding f64_pos_def by (intro mult_right_mono) auto
  qed
  finally show ?thesis .
qed

lemma f64_pos_nonneg: "0 < x \<Longrightarrow> 0 \<le> f64_pos x"
proof -
  assume "0 < x"
  then have "0 \<le> x / 2 powi ulp_exp x" by simp
  then have "round_even 0 \<le> round_even (x / 2 powi ulp_exp x)" by (rule round_even_mono)
  then have "0 \<le> round_even (x / 2 powi ulp_exp x)" using round_even_int [of 0] by simp
  then show ?thesis by (simp add: f64_pos_def)
qed

lemma f64_mono: "x \<le> y \<Longrightarrow> f64 x \<le> f64 y"
  using f64_pos_mono [of x y] f64_pos_mono [of "- y" "- x"] f64_pos_nonneg [of y]
    f64_pos_nonneg [of "- x"]
  by (auto simp: f64_def)

lemma f64_int: "\<bar>n\<bar> < 2 ^ 53 \<Longrightarrow> f64 (of_int n) = of_int n"
  using f64_pos_int [of n] f64_pos_int [of "- n"] by (auto simp: f64_def)

section \<open>What a rounding promises\<close>

locale rounding =
  fixes rd :: "rat \<Rightarrow> rat"
  assumes rd_mono: "x \<le> y \<Longrightarrow> rd x \<le> rd y"
    and rd_int: "\<bar>n\<bar> < 2 ^ 53 \<Longrightarrow> rd (of_int n) = of_int n"
begin

lemma rd_0: "rd 0 = 0" using rd_int [of 0] by simp
lemma rd_1: "rd 1 = 1" using rd_int [of 1] by simp
lemma rd_100: "rd 100 = 100" using rd_int [of 100] by simp

lemma rd_nonneg: "0 \<le> x \<Longrightarrow> 0 \<le> rd x" using rd_mono [of 0 x] by (simp add: rd_0)
lemma rd_nonpos: "x \<le> 0 \<Longrightarrow> rd x \<le> 0" using rd_mono [of x 0] by (simp add: rd_0)
lemma rd_le_1: "x \<le> 1 \<Longrightarrow> rd x \<le> 1" using rd_mono [of x 1] by (simp add: rd_1)

lemma rd_ratio: "0 \<le> a \<Longrightarrow> a \<le> b \<Longrightarrow> 0 < b \<Longrightarrow> 0 \<le> rd (a / b) \<and> rd (a / b) \<le> 1"
  by (simp add: rd_nonneg rd_le_1)

lemma rd_percent:
  assumes "0 \<le> a" "a \<le> b" "0 < b"
  shows "0 \<le> rd (rd (a / b) * 100) \<and> rd (rd (a / b) * 100) \<le> 100"
  using rd_ratio [OF assms] rd_mono [of "rd (a / b) * 100" 100] by (simp add: rd_nonneg rd_100)

lemma rd_full_percent: "0 < b \<Longrightarrow> rd (rd (b / b) * 100) = 100"
  by (simp add: rd_1 rd_100)

end

interpretation binary64: rounding f64
  by unfold_locales (auto intro: f64_mono f64_int)

interpretation exact: rounding "\<lambda>x. x"
  by unfold_locales auto

text \<open>Conversion of a non-negative \<open>float64\<close> to a signed 64-bit integer drops the fraction.\<close>

definition float_to_int :: "float64 \<Rightarrow> int" where
  "float_to_int x = (if x \<ge> 0 then \<lfloor>x\<rfloor> else \<lceil>x\<rceil>)"

text \<open>\<open>Duration.Seconds()\<close>: whole seconds plus the rounded fraction.\<close>

definition seconds_of :: "(rat \<Rightarrow> rat) \<Rightarrow> duration \<Rightarrow> float64" where
  "seconds_of rd d =
     (let sec = quot d Second; nsec = d - sec * Second
      in rd (rd (of_int sec) + rd (rd (of_int nsec) / 1000000000)))"

end
