(* ===== verification/Netip.thy ===== *)
theory Netip
  imports Prelude
begin

unbundle bit_operations_syntax

text \<open>
  The part of Go's \<open>net/netip\<close> the program uses: parsing of addresses and prefixes, unmapping
  of IPv4-in-IPv6, masking, and the textual form of a prefix. The zero \<open>Addr\<close> and a parse error
  are \<^const>\<open>None\<close>; a \<open>Prefix\<close> is its address without zone and its \<open>Bits()\<close>, which is \<open>-1\<close> when
  \<open>PrefixFrom\<close> was given a length that does not fit the family.
\<close>

section \<open>Addresses\<close>

datatype addr = A4 "32 word" | A6 "128 word" string

definition word_of_bytes :: "int list \<Rightarrow> 'a::len word" where
  "word_of_bytes bs = foldl (\<lambda>w b. push_bit 8 w OR word_of_int b) 0 bs"

definition bytes4 :: "32 word \<Rightarrow> int list" where
  "bytes4 w = map (\<lambda>k. uint (take_bit 8 (drop_bit k w))) [24, 16, 8, 0]"

definition bytes16 :: "128 word \<Rightarrow> int list" where
  "bytes16 w = map (\<lambda>k. uint (take_bit 8 (drop_bit k w)))
     [120, 112, 104, 96, 88, 80, 72, 64, 56, 48, 40, 32, 24, 16, 8, 0]"

definition addr_from4 :: "int list \<Rightarrow> addr" where "addr_from4 bs = A4 (word_of_bytes bs)"
definition addr_from16 :: "int list \<Rightarrow> addr" where "addr_from16 bs = A6 (word_of_bytes bs) []"

fun is4 :: "addr \<Rightarrow> bool" where
  "is4 (A4 _) = True"
| "is4 (A6 _ _) = False"

fun is4in6 :: "addr \<Rightarrow> bool" where
  "is4in6 (A4 _) = False"
| "is4in6 (A6 w _) = (drop_bit 32 w = 0xffff)"

fun bit_len :: "addr \<Rightarrow> int" where
  "bit_len (A4 _) = 32"
| "bit_len (A6 _ _) = 128"

fun unmap :: "addr \<Rightarrow> addr" where
  "unmap (A4 w) = A4 w"
| "unmap (A6 w z) = (if drop_bit 32 w = 0xffff then A4 (ucast w) else A6 w z)"

fun without_zone :: "addr \<Rightarrow> addr" where
  "without_zone (A4 w) = A4 w"
| "without_zone (A6 w _) = A6 w []"

lemma unmap_idem [simp]: "unmap (unmap a) = unmap a"
  by (cases a) auto

lemma bit_len_without_zone [simp]: "bit_len (without_zone a) = bit_len a"
  by (cases a) auto

lemma is4_without_zone [simp]: "is4 (without_zone a) = is4 a"
  by (cases a) auto

lemma bit_len_cases: "bit_len a = (if is4 a then 32 else 128)"
  by (cases a) auto

section \<open>Parsing\<close>

text \<open>\<open>parseIPv4Fields\<close>: \<open>val\<close> and \<open>diglen\<close> describe the octet being read, \<open>prev\<close> is the
  previous byte, \<open>fields\<close> the octets read so far.\<close>

fun v4_fields :: "int \<Rightarrow> nat \<Rightarrow> char option \<Rightarrow> int list \<Rightarrow> string \<Rightarrow> int list option" where
  "v4_fields val diglen prev fields [] =
     (if length fields < 3 then None else Some (fields @ [val]))"
| "v4_fields val diglen prev fields (c # s) =
     (if 48 \<le> byte_of c \<and> byte_of c \<le> 57
      then if diglen = 1 \<and> val = 0 then None
           else let val' = val * 10 + (byte_of c - 48)
                in if val' > 255 then None
                   else v4_fields val' (diglen + 1) (Some c) fields s
      else if c = CHR ''.''
      then if prev = None \<or> s = [] \<or> prev = Some (CHR ''.'') then None
           else if length fields = 3 then None
           else v4_fields 0 0 (Some c) (fields @ [val]) s
      else None)"

lemma v4_fields_bytes:
  "v4_fields val dl prev fields s = Some bs \<Longrightarrow> 0 \<le> val \<Longrightarrow> val < 256 \<Longrightarrow>
     \<forall>b \<in> set fields. 0 \<le> b \<and> b < 256 \<Longrightarrow> length fields \<le> 3 \<Longrightarrow>
     length bs = 4 \<and> (\<forall>b \<in> set bs. 0 \<le> b \<and> b < 256)"
  by (induction val dl prev fields s rule: v4_fields.induct)
    (auto simp: Let_def split: if_splits)

definition is_hex :: "char \<Rightarrow> bool" where
  "is_hex c \<longleftrightarrow> (48 \<le> byte_of c \<and> byte_of c \<le> 57) \<or> (97 \<le> byte_of c \<and> byte_of c \<le> 102) \<or>
     (65 \<le> byte_of c \<and> byte_of c \<le> 70)"

definition hex_val :: "char \<Rightarrow> int" where
  "hex_val c = (if byte_of c \<le> 57 then byte_of c - 48
                else if 97 \<le> byte_of c then byte_of c - 87 else byte_of c - 55)"

definition hex_num :: "string \<Rightarrow> int" where
  "hex_num s = foldl (\<lambda>acc c. acc * 16 + hex_val c) 0 s"

definition v6_finish :: "int list \<Rightarrow> nat option \<Rightarrow> string \<Rightarrow> int list option" where
  "v6_finish ip ellipsis s =
     (if s \<noteq> [] then None
      else if length ip < 16
      then (case ellipsis of
              None \<Rightarrow> None
            | Some e \<Rightarrow> Some (take e ip @ replicate (16 - length ip) 0 @ drop e ip))
      else if ellipsis \<noteq> None then None else Some ip)"

text \<open>The group loop of \<open>parseIPv6\<close>; \<open>ip\<close> holds the bytes read so far.\<close>

function v6_loop :: "int list \<Rightarrow> nat option \<Rightarrow> string \<Rightarrow> int list option" where
  "v6_loop ip ellipsis s =
     (if length ip \<ge> 16 then v6_finish ip ellipsis s
      else let digits = takeWhile is_hex s; rest = dropWhile is_hex s
           in if length digits > 4 then None
              else if digits = [] then None
              else if rest \<noteq> [] \<and> hd rest = CHR ''.''
              then if ellipsis = None \<and> length ip \<noteq> 12 then None
                   else if length ip + 4 > 16 then None
                   else (case v4_fields 0 0 None [] s of
                           None \<Rightarrow> None
                         | Some f \<Rightarrow> v6_finish (ip @ f) ellipsis [])
              else let ip' = ip @ [hex_num digits div 256, hex_num digits mod 256]
                   in if rest = [] then v6_finish ip' ellipsis []
                      else if hd rest \<noteq> CHR '':'' then None
                      else if tl rest = [] then None
                      else if hd (tl rest) = CHR '':''
                      then if ellipsis \<noteq> None then None
                           else if tl (tl rest) = [] then v6_finish ip' (Some (length ip')) []
                           else v6_loop ip' (Some (length ip')) (tl (tl rest))
                      else v6_loop ip' ellipsis (tl rest))"
  by pat_completeness auto
termination
  by (relation "measure (\<lambda>(ip, e, s). 16 - length ip)") (auto simp: Let_def)

declare v6_loop.simps [simp del]

definition parse_v6 :: "string \<Rightarrow> addr option" where
  "parse_v6 raw =
     (case cut raw (CHR ''%'') of (s, zone, has_zone) \<Rightarrow>
        if has_zone \<and> zone = [] then None
        else if has_prefix s ''::''
        then let s' = drop 2 s
             in if s' = [] then Some (A6 0 zone)
                else map_option (\<lambda>bs. A6 (word_of_bytes bs) zone) (v6_loop [] (Some 0) s')
        else map_option (\<lambda>bs. A6 (word_of_bytes bs) zone) (v6_loop [] None s))"

definition ParseAddr :: "string \<Rightarrow> addr option" where
  "ParseAddr s =
     (case find (\<lambda>c. c = CHR ''.'' \<or> c = CHR '':'' \<or> c = CHR ''%'') s of
        None \<Rightarrow> None
      | Some c \<Rightarrow>
          if c = CHR ''.'' then map_option addr_from4 (v4_fields 0 0 None [] s)
          else if c = CHR '':'' then parse_v6 s
          else None)"

section \<open>Text\<close>

fun join_with :: "string \<Rightarrow> string list \<Rightarrow> string" where
  "join_with sep [] = []"
| "join_with sep [x] = x"
| "join_with sep (x # y # xs) = x @ sep @ join_with sep (y # xs)"

definition v4_string :: "32 word \<Rightarrow> string" where
  "v4_string w = join_with ''.'' (map dec_digits (bytes4 w))"

function hex_digits :: "int \<Rightarrow> string" where
  "hex_digits n = (if n < 16 then [hex_digit n] else hex_digits (n div 16) @ [hex_digit (n mod 16)])"
  by pat_completeness auto
termination
  by (relation "measure nat") auto

declare hex_digits.simps [simp del]

fun groups16 :: "int list \<Rightarrow> int list" where
  "groups16 (a # b # bs) = (a * 256 + b) # groups16 bs"
| "groups16 _ = []"

text \<open>The run of zero groups that \<open>::\<close> stands for: the longest of at least two, the first of
  these.\<close>

definition zero_run :: "int list \<Rightarrow> nat \<Rightarrow> nat" where
  "zero_run gs i = length (takeWhile (\<lambda>g. g = 0) (drop i gs))"

fun best_run :: "int list \<Rightarrow> nat \<Rightarrow> nat \<times> nat \<Rightarrow> nat \<times> nat" where
  "best_run gs 0 best = best"
| "best_run gs (Suc k) best =
     (let i = length gs - Suc k; l = zero_run gs i
      in best_run gs k (if l \<ge> 2 \<and> l > snd best then (i, l) else best))"

definition v6_string :: "128 word \<Rightarrow> string" where
  "v6_string w =
     (let gs = groups16 (bytes16 w); (z, l) = best_run gs (length gs) (0, 0)
      in if l = 0 then join_with '':'' (map hex_digits gs)
         else join_with '':'' (map hex_digits (take z gs)) @ ''::'' @
              join_with '':'' (map hex_digits (drop (z + l) gs)))"

fun addr_string :: "addr \<Rightarrow> string" where
  "addr_string (A4 w) = v4_string w"
| "addr_string (A6 w z) =
     (if drop_bit 32 w = 0xffff then ''::ffff:'' @ v4_string (ucast w) else v6_string w) @
     (if z = [] then [] else ''%'' @ z)"

section \<open>Prefixes\<close>

type_synonym ip_prefix = "addr \<times> int"

definition PrefixFrom :: "addr \<Rightarrow> int \<Rightarrow> ip_prefix" where
  "PrefixFrom a bits = (without_zone a, if 0 \<le> bits \<and> bits \<le> bit_len a then bits else - 1)"

definition high_bits :: "nat \<Rightarrow> 'a::len word" where
  "high_bits n = NOT (mask (LENGTH('a) - n))"

fun mask_addr :: "addr \<Rightarrow> int \<Rightarrow> addr" where
  "mask_addr (A4 w) b = A4 (w AND high_bits (nat b))"
| "mask_addr (A6 w z) b = A6 (w AND high_bits (nat b)) []"

text \<open>\<open>Addr.Prefix\<close>: an error when the length is out of range.\<close>

definition addr_prefix :: "addr \<Rightarrow> int \<Rightarrow> ip_prefix option" where
  "addr_prefix a b =
     (if b < 0 \<or> b > bit_len a then None else Some (PrefixFrom (mask_addr a b) b))"

text \<open>\<open>Masked()\<close>; the zero \<open>Prefix\<close> of the error case is \<^const>\<open>None\<close>.\<close>

definition masked :: "ip_prefix \<Rightarrow> ip_prefix option" where
  "masked p = addr_prefix (fst p) (snd p)"

definition prefix_string :: "ip_prefix \<Rightarrow> string" where
  "prefix_string p =
     (if snd p < 0 then ''invalid Prefix''
      else addr_string (fst p) @ ''/'' @ format_int (snd p))"

text \<open>\<open>strconv.Atoi\<close> on a string of decimal digits only (the callers checked the first).\<close>

definition atoi_digits :: "string \<Rightarrow> int option" where
  "atoi_digits s =
     (if s = [] \<or> \<not> list_all (\<lambda>c. 48 \<le> byte_of c \<and> byte_of c \<le> 57) s then None
      else let v = foldl (\<lambda>acc c. acc * 10 + (byte_of c - 48)) 0 s
           in if v < 2 ^ 63 then Some v else None)"

definition cut_last_slash :: "string \<Rightarrow> (string \<times> string) option" where
  "cut_last_slash s =
     (case cut (rev s) (CHR ''/'') of (b, a, ok) \<Rightarrow> if ok then Some (rev a, rev b) else None)"

definition ParsePrefix :: "string \<Rightarrow> ip_prefix option" where
  "ParsePrefix s =
     (case cut_last_slash s of
        None \<Rightarrow> None
      | Some (a, bits) \<Rightarrow>
          (case ParseAddr a of
             None \<Rightarrow> None
           | Some ip \<Rightarrow>
               if ip \<noteq> without_zone ip then None
               else if length bits > 1 \<and> (byte_of (hd bits) < 49 \<or> byte_of (hd bits) > 57) then None
               else (case atoi_digits bits of
                       None \<Rightarrow> None
                     | Some n \<Rightarrow> if n > bit_len ip then None else Some (PrefixFrom ip n))))"

lemma is4_mask [simp]: "is4 (mask_addr a b) = is4 a"
  by (cases a) auto

lemma without_zone_mask [simp]: "without_zone (mask_addr a b) = mask_addr a b"
  by (cases a) auto

lemma bit_len_mask [simp]: "bit_len (mask_addr a b) = bit_len a"
  by (simp add: bit_len_cases)

lemma mask_addr_idem [simp]: "mask_addr (mask_addr a b) b = mask_addr a b"
  by (cases a) (simp_all add: ac_simps)

lemma mask_addr_without_zone [simp]: "mask_addr (without_zone a) b = mask_addr a b"
  by (cases a) simp_all

lemma addr_prefix_ok:
  "0 \<le> b \<Longrightarrow> b \<le> bit_len a \<Longrightarrow> addr_prefix a b = Some (mask_addr a b, b)"
  by (simp add: addr_prefix_def PrefixFrom_def)

lemma addr_prefix_bits: "addr_prefix a b = Some p \<Longrightarrow> snd p = b \<and> 0 \<le> b \<and> b \<le> bit_len a"
  by (auto simp: addr_prefix_def PrefixFrom_def split: if_splits)

lemma masked_idem: "masked p = Some q \<Longrightarrow> masked q = Some q"
  by (auto simp: masked_def addr_prefix_def PrefixFrom_def split: if_splits)

end
