(* ===== verification/Base64.thy ===== *)
theory Base64
  imports Prelude
begin

text \<open>
  \<open>base64.RawURLEncoding\<close>: the URL alphabet without padding. The decoder skips carriage returns
  and newlines and, as Go's non-strict decoder, ignores the unused low bits of a last partial
  quantum.
\<close>

definition b64_char :: "int \<Rightarrow> char" where
  "b64_char v =
     (if v < 26 then char_of (65 + v)
      else if v < 52 then char_of (71 + v)
      else if v < 62 then char_of (v - 4)
      else if v = 62 then CHR ''-'' else CHR ''_'')"

definition b64_val :: "char \<Rightarrow> int option" where
  "b64_val c =
     (let b = byte_of c
      in if 65 \<le> b \<and> b \<le> 90 then Some (b - 65)
         else if 97 \<le> b \<and> b \<le> 122 then Some (b - 71)
         else if 48 \<le> b \<and> b \<le> 57 then Some (b + 4)
         else if b = 45 then Some 62
         else if b = 95 then Some 63 else None)"

fun b64_sextets :: "int list \<Rightarrow> int list" where
  "b64_sextets (a # b # c # bs) =
     (a div 4) # ((a mod 4) * 16 + b div 16) # ((b mod 16) * 4 + c div 64) # (c mod 64) # b64_sextets bs"
| "b64_sextets [a, b] = [a div 4, (a mod 4) * 16 + b div 16, (b mod 16) * 4]"
| "b64_sextets [a] = [a div 4, (a mod 4) * 16]"
| "b64_sextets [] = []"

fun b64_octets :: "int list \<Rightarrow> int list option" where
  "b64_octets (a # b # c # d # vs) =
     (case b64_octets vs of
        None \<Rightarrow> None
      | Some bs \<Rightarrow> Some ((a * 4 + b div 16) # ((b mod 16) * 16 + c div 4) # ((c mod 4) * 64 + d) # bs))"
| "b64_octets [a, b, c] = Some [a * 4 + b div 16, (b mod 16) * 16 + c div 4]"
| "b64_octets [a, b] = Some [a * 4 + b div 16]"
| "b64_octets [a] = None"
| "b64_octets [] = Some []"

definition b64_encode :: "string \<Rightarrow> string" where
  "b64_encode s = map b64_char (b64_sextets (map byte_of s))"

fun b64_vals :: "string \<Rightarrow> int list option" where
  "b64_vals [] = Some []"
| "b64_vals (c # s) =
     (if c = CHR 0x0A \<or> c = CHR 0x0D then b64_vals s
      else case b64_val c of
        None \<Rightarrow> None
      | Some v \<Rightarrow> (case b64_vals s of None \<Rightarrow> None | Some vs \<Rightarrow> Some (v # vs)))"

definition b64_decode :: "string \<Rightarrow> string option" where
  "b64_decode s =
     (case b64_vals s of
        None \<Rightarrow> None
      | Some vs \<Rightarrow> map_option (map char_of) (b64_octets vs))"

section \<open>Round trip\<close>

lemma byte_of_range [simp]: "0 \<le> byte_of c" "byte_of c < 256"
proof -
  have "(of_char c :: int) = int (of_char c)"
    by (metis of_nat_of_char)
  then show "0 \<le> byte_of c" by (simp add: byte_of_def)
  have "(of_char c :: nat) < 256" by (rule nat_of_char_less_256)
  then show "byte_of c < 256" using \<open>(of_char c :: int) = int (of_char c)\<close> by (simp add: byte_of_def)
qed

lemma char_of_byte_of [simp]: "char_of (byte_of c) = c"
  by (simp add: byte_of_def)

lemma byte_of_char_of: "0 \<le> v \<Longrightarrow> v < 256 \<Longrightarrow> byte_of (char_of v) = v"
  by (simp add: byte_of_def)

lemma pack_div: "0 \<le> y \<Longrightarrow> y < k \<Longrightarrow> (x * k + y) div k = (x :: int)"
  by (simp add: div_add1_eq)

lemma pack_mod: "0 \<le> y \<Longrightarrow> y < k \<Longrightarrow> (x * k + y) mod k = (y :: int)"
  by (simp add: mod_add_eq [symmetric])

lemma octet_parts:
  assumes "0 \<le> (b :: int)" "b < 256"
  shows "0 \<le> b div 4" "b div 4 < 64" "0 \<le> b div 16" "b div 16 < 16" "0 \<le> b div 64" "b div 64 < 4"
  using assms by auto

lemma b64_octets_sextets:
  "\<forall>b \<in> set bs. 0 \<le> b \<and> b < 256 \<Longrightarrow> b64_octets (b64_sextets bs) = Some bs"
proof (induction bs rule: b64_sextets.induct)
  case (1 a b c bs)
  then have IH: "b64_octets (b64_sextets bs) = Some bs" by simp
  have r: "0 \<le> b" "b < 256" "0 \<le> c" "c < 256" using 1 by auto
  show ?case
    using IH by (simp add: pack_div pack_mod octet_parts [OF r(1,2)] octet_parts [OF r(3,4)])
next
  case (2 a b)
  then have r: "0 \<le> b" "b < 256" by auto
  show ?case using pack_div [of 0 4] by (simp add: pack_div pack_mod octet_parts [OF r])
qed simp_all

lemma pack_range:
  "0 \<le> x \<Longrightarrow> x < 4 \<Longrightarrow> 0 \<le> y \<Longrightarrow> y < 16 \<Longrightarrow> 0 \<le> x * 16 + y \<and> x * 16 + y < (64 :: int)"
  "0 \<le> x' \<Longrightarrow> x' < 16 \<Longrightarrow> 0 \<le> y' \<Longrightarrow> y' < 4 \<Longrightarrow> 0 \<le> x' * 4 + y' \<and> x' * 4 + y' < (64 :: int)"
  "0 \<le> x \<Longrightarrow> x < 4 \<Longrightarrow> 0 \<le> x * 16 \<and> x * 16 < (64 :: int)"
  "0 \<le> x' \<Longrightarrow> x' < 16 \<Longrightarrow> 0 \<le> x' * 4 \<and> x' * 4 < (64 :: int)"
  by linarith+

lemma sextet_parts:
  assumes "0 \<le> (a :: int)" "a < 256" "0 \<le> b" "b < 256"
  shows "0 \<le> a div 4 \<and> a div 4 < 64" "0 \<le> (a mod 4) * 16 \<and> (a mod 4) * 16 < 64"
    "0 \<le> (a mod 4) * 16 + b div 16 \<and> (a mod 4) * 16 + b div 16 < 64"
    "0 \<le> (a mod 16) * 4 \<and> (a mod 16) * 4 < 64"
    "0 \<le> (a mod 16) * 4 + b div 64 \<and> (a mod 16) * 4 + b div 64 < 64"
    "0 \<le> a mod 64 \<and> a mod 64 < 64"
proof -
  have m: "0 \<le> a mod 4" "a mod 4 < 4" "0 \<le> a mod 16" "a mod 16 < 16" by simp_all
  show "0 \<le> a div 4 \<and> a div 4 < 64" using octet_parts [OF assms(1,2)] by blast
  show "0 \<le> (a mod 4) * 16 \<and> (a mod 4) * 16 < 64" by (rule pack_range(3) [OF m(1,2)])
  show "0 \<le> (a mod 4) * 16 + b div 16 \<and> (a mod 4) * 16 + b div 16 < 64"
    by (rule pack_range(1) [OF m(1,2) octet_parts(3,4) [OF assms(3,4)]])
  show "0 \<le> (a mod 16) * 4 \<and> (a mod 16) * 4 < 64" by (rule pack_range(4) [OF m(3,4)])
  show "0 \<le> (a mod 16) * 4 + b div 64 \<and> (a mod 16) * 4 + b div 64 < 64"
    by (rule pack_range(2) [OF m(3,4) octet_parts(5,6) [OF assms(3,4)]])
  show "0 \<le> a mod 64 \<and> a mod 64 < 64" by simp
qed

lemma b64_sextets_range:
  "\<forall>b \<in> set bs. 0 \<le> b \<and> b < 256 \<Longrightarrow> list_all (\<lambda>v. 0 \<le> v \<and> v < 64) (b64_sextets bs)"
proof (induction bs rule: b64_sextets.induct)
  case (1 a b c bs)
  then have IH: "list_all (\<lambda>v. 0 \<le> v \<and> v < 64) (b64_sextets bs)"
    and r: "0 \<le> a" "a < 256" "0 \<le> b" "b < 256" "0 \<le> c" "c < 256" by auto
  show ?case
    unfolding b64_sextets.simps list.pred_inject
    using IH sextet_parts [OF r(1-4)] sextet_parts [OF r(3-6)] sextet_parts [OF r(5,6,1,2)]
    by blast
next
  case (2 a b)
  then have r: "0 \<le> a" "a < 256" "0 \<le> b" "b < 256" by auto
  show ?case
    unfolding b64_sextets.simps list.pred_inject
    using sextet_parts [OF r(1-4)] sextet_parts [OF r(3,4,1,2)] by (intro conjI) (blast | simp only: list.pred_inject)+
next
  case (3 a)
  then have r: "0 \<le> a" "a < 256" by auto
  show ?case
    unfolding b64_sextets.simps list.pred_inject using sextet_parts [OF r r]
    by (intro conjI) (blast | simp only: list.pred_inject)+
qed simp

lemma b64_val_char:
  assumes "0 \<le> v" "v < 64"
  shows "b64_val (b64_char v) = Some v \<and> b64_char v \<noteq> CHR 0x0A \<and> b64_char v \<noteq> CHR 0x0D"
proof -
  have c: "byte_of (CHR 0x0A) = 10" "byte_of (CHR 0x0D) = 13" "byte_of (CHR ''-'') = 45"
    "byte_of (CHR ''_'') = 95"
    by (simp_all add: byte_of_def)
  have "byte_of (b64_char v) =
      (if v < 26 then 65 + v else if v < 52 then 71 + v else if v < 62 then v - 4
       else if v = 62 then 45 else 95)"
    using assms by (simp add: b64_char_def byte_of_char_of c)
  then show ?thesis using assms c by (auto simp: b64_val_def Let_def split: if_splits)
qed

lemma b64_vals_chars:
  "list_all (\<lambda>v. 0 \<le> v \<and> v < 64) vs \<Longrightarrow> b64_vals (map b64_char vs) = Some vs"
  by (induction vs) (auto simp: b64_val_char)

lemma b64_round_trip [simp]: "b64_decode (b64_encode s) = Some s"
proof -
  have r: "\<forall>b \<in> set (map byte_of s). 0 \<le> b \<and> b < 256" by auto
  show ?thesis
    using b64_vals_chars [OF b64_sextets_range [OF r]] b64_octets_sextets [OF r]
    by (simp add: b64_decode_def b64_encode_def o_def)
qed

lemma b64_encode_nonempty: "s \<noteq> [] \<Longrightarrow> b64_encode s \<noteq> []"
proof
  assume "s \<noteq> []" "b64_encode s = []"
  then have "b64_decode (b64_encode s) = Some []" by (simp add: b64_decode_def)
  with \<open>s \<noteq> []\<close> show False by simp
qed

end
