(* ===== verification/Token.thy ===== *)
theory Token
  imports Base64 Sha256 Netip
begin

text \<open>
  Package \<open>internal/token\<close>: the sealed clearance and ticket cookies both processes share, and
  the client bindings (subnet, user-agent fingerprint) they carry.

  The \<open>cipher.AEAD\<close> a \<open>Key\<close> holds is a record of its operations, as in Go, where it is an
  interface; \<open>encoding/json\<close> of the two payload types is the record \<open>token_json\<close>. Base64,
  SHA-256 and address parsing are defined, not assumed. \<open>crypto/rand.Read\<close> never returns an
  error in the Go version of the module (1.25), so random bytes are arguments.
\<close>

section \<open>Payloads and keys\<close>

abbreviation clearancePrefix :: string where "clearancePrefix \<equiv> ''c1''"
abbreviation ticketPrefix :: string where "ticketPrefix \<equiv> ''k1''"
abbreviation keyLabel :: string where "keyLabel \<equiv> ''waf-captcha aead v1''"
abbreviation minSecret :: nat where "minSecret \<equiv> 16"

datatype token_error = ErrMalformed | ErrSealed | ErrExpired | ErrBind

record clearance =
  c_jti :: string
  c_cid :: string
  c_issued :: int
  c_expiry :: int
  c_profile :: string
  c_provider :: string
  c_net :: string
  c_ua :: string
  c_fp :: string
  c_flags :: "string list"

record ticket =
  t_nonce :: string
  t_return :: string
  t_profile :: string
  t_attempt :: int
  t_net :: string
  t_ua :: string
  t_expiry :: int

record bind =
  b_net :: string
  b_ua :: string

text \<open>\<open>ad_seal nonce plaintext ad\<close> and \<open>ad_open nonce ciphertext ad\<close>.\<close>

record aead =
  ad_nonce_size :: nat
  ad_overhead :: nat
  ad_seal :: "string \<Rightarrow> string \<Rightarrow> string \<Rightarrow> string"
  ad_open :: "string \<Rightarrow> string \<Rightarrow> string \<Rightarrow> string option"

record token_json =
  enc_clearance :: "clearance \<Rightarrow> string option"
  dec_clearance :: "string \<Rightarrow> clearance option"
  enc_ticket :: "ticket \<Rightarrow> string option"
  dec_ticket :: "string \<Rightarrow> ticket option"

record token_key =
  k_gcm :: aead
  k_json :: token_json

datatype key_error = KeyTooShort nat | CipherError

text \<open>\<open>new_gcm\<close> is \<open>aes.NewCipher\<close> followed by \<open>cipher.NewGCM\<close>.\<close>

definition NewKey :: "(string \<Rightarrow> aead option) \<Rightarrow> token_json \<Rightarrow> string \<Rightarrow> key_error + token_key" where
  "NewKey new_gcm json raw =
     (let secret = trim_space raw
      in if length secret < minSecret then Inl (KeyTooShort (length secret))
         else case new_gcm (hmac_sha256 secret keyLabel) of
           None \<Rightarrow> Inl CipherError
         | Some gcm \<Rightarrow> Inr \<lparr>k_gcm = gcm, k_json = json\<rparr>)"

section \<open>Sealing and opening\<close>

text \<open>\<open>gcm.Seal(nonce, nonce, body, prefix)\<close> appends the ciphertext to the nonce.\<close>

definition seal_token :: "token_key \<Rightarrow> string \<Rightarrow> string \<Rightarrow> string option \<Rightarrow> string option" where
  "seal_token k nonce prefix body =
     (case body of
        None \<Rightarrow> None
      | Some body \<Rightarrow>
          Some (prefix @ ''.'' @ b64_encode (nonce @ ad_seal (k_gcm k) nonce body prefix)))"

definition open_token ::
    "token_key \<Rightarrow> string \<Rightarrow> string \<Rightarrow> (string \<Rightarrow> 'a option) \<Rightarrow> token_error + 'a" where
  "open_token k prefix raw unmarshal =
     (case cut raw (CHR ''.'') of (kind, body, ok) \<Rightarrow>
        if \<not> ok \<or> kind \<noteq> prefix \<or> body = [] then Inl ErrMalformed
        else case b64_decode body of
          None \<Rightarrow> Inl ErrMalformed
        | Some sealed \<Rightarrow>
            if length sealed < ad_nonce_size (k_gcm k) + ad_overhead (k_gcm k)
            then Inl ErrMalformed
            else let nonce = take (ad_nonce_size (k_gcm k)) sealed
                 in case ad_open (k_gcm k) nonce (drop (ad_nonce_size (k_gcm k)) sealed) prefix of
                      None \<Rightarrow> Inl ErrSealed
                    | Some plain \<Rightarrow>
                        (case unmarshal plain of None \<Rightarrow> Inl ErrMalformed | Some x \<Rightarrow> Inr x))"

definition SealClearance :: "token_key \<Rightarrow> string \<Rightarrow> clearance \<Rightarrow> string option" where
  "SealClearance k nonce c = seal_token k nonce clearancePrefix (enc_clearance (k_json k) c)"

definition SealTicket :: "token_key \<Rightarrow> string \<Rightarrow> ticket \<Rightarrow> string option" where
  "SealTicket k nonce t = seal_token k nonce ticketPrefix (enc_ticket (k_json k) t)"

text \<open>The pair of Go's results: the value (nil on a malformed token) and the error.\<close>

definition OpenClearance ::
    "token_key \<Rightarrow> string \<Rightarrow> go_time \<Rightarrow> bind \<Rightarrow> clearance option \<times> token_error option" where
  "OpenClearance k raw now want =
     (case open_token k clearancePrefix raw (dec_clearance (k_json k)) of
        Inl e \<Rightarrow> (None, Some e)
      | Inr c \<Rightarrow>
          if c_jti c = [] \<or> c_cid c = [] \<or> c_expiry c = 0 then (None, Some ErrMalformed)
          else if unix now \<ge> c_expiry c then (Some c, Some ErrExpired)
          else if b_net want \<noteq> [] \<and> c_net c \<noteq> [] \<and> b_net want \<noteq> c_net c
          then (Some c, Some ErrBind)
          else if b_ua want \<noteq> [] \<and> c_ua c \<noteq> [] \<and> b_ua want \<noteq> c_ua c
          then (Some c, Some ErrBind)
          else (Some c, None))"

definition OpenTicket ::
    "token_key \<Rightarrow> string \<Rightarrow> go_time \<Rightarrow> ticket option \<times> token_error option" where
  "OpenTicket k raw now =
     (case open_token k ticketPrefix raw (dec_ticket (k_json k)) of
        Inl e \<Rightarrow> (None, Some e)
      | Inr t \<Rightarrow>
          if t_nonce t = [] \<or> t_expiry t = 0 then (None, Some ErrMalformed)
          else if unix now \<ge> t_expiry t then (Some t, Some ErrExpired)
          else (Some t, None))"

text \<open>\<open>NewID\<close> renders sixteen random bytes.\<close>

definition NewID :: "string \<Rightarrow> string" where
  "NewID bytes = hex_encode bytes"

section \<open>Bindings\<close>

definition Subnet :: "string \<Rightarrow> int \<Rightarrow> int \<Rightarrow> string" where
  "Subnet ip v4bits v6bits =
     (case ParseAddr ip of
        None \<Rightarrow> []
      | Some a \<Rightarrow>
          let addr = unmap a;
              bits = (if is4 addr then v4bits else v6bits);
              bits' = (if bits \<le> 0 \<or> bits > bit_len addr then bit_len addr else bits)
          in case addr_prefix addr bits' of
               None \<Rightarrow> []
             | Some p \<Rightarrow> prefix_string p)"

definition Fingerprint :: "string \<Rightarrow> string" where
  "Fingerprint ua = (if ua = [] then [] else hex_encode (take 4 (sha256 ua)))"

lemma length_fingerprint: "ua \<noteq> [] \<Longrightarrow> length (Fingerprint ua) = 8"
  by (simp add: Fingerprint_def)

text \<open>\<open>Subnet\<close> has no error path left once the address parses: the length it asks for always
  fits the family, and the answer depends on the address only through its masked prefix.\<close>

definition subnet_bits :: "addr \<Rightarrow> int \<Rightarrow> int \<Rightarrow> int" where
  "subnet_bits a v4bits v6bits =
     (let bits = (if is4 a then v4bits else v6bits)
      in if bits \<le> 0 \<or> bits > bit_len a then bit_len a else bits)"

lemma bit_len_pos: "0 < bit_len a"
  by (cases a) auto

lemma subnet_bits_range: "0 \<le> subnet_bits a v4 v6 \<and> subnet_bits a v4 v6 \<le> bit_len a"
  using bit_len_pos [of a] by (auto simp: subnet_bits_def Let_def)

lemma subnet_of_addr:
  assumes "ParseAddr ip = Some a"
  shows "Subnet ip v4 v6 =
     prefix_string (mask_addr (unmap a) (subnet_bits (unmap a) v4 v6), subnet_bits (unmap a) v4 v6)"
proof -
  let ?b = "subnet_bits (unmap a) v4 v6"
  have "addr_prefix (unmap a) ?b = Some (mask_addr (unmap a) ?b, ?b)"
    using subnet_bits_range [of "unmap a" v4 v6] by (intro addr_prefix_ok) auto
  then show ?thesis
    by (simp add: Subnet_def assms subnet_bits_def Let_def del: unmap.simps)
qed

lemma subnet_unparsable: "ParseAddr ip = None \<Longrightarrow> Subnet ip v4 v6 = []"
  by (simp add: Subnet_def)

section \<open>Lemmas on sealed tokens\<close>

text \<open>What the program relies on of an AEAD: opening undoes sealing under the same nonce and
  additional data, sealed text is at least the overhead longer than nothing, and nothing opens
  under additional data it was not sealed with.\<close>

definition aead_correct :: "aead \<Rightarrow> bool" where
  "aead_correct g \<longleftrightarrow>
     (\<forall>n p ad. length n = ad_nonce_size g \<longrightarrow>
        ad_open g n (ad_seal g n p ad) ad = Some p \<and> ad_overhead g \<le> length (ad_seal g n p ad))"

definition aead_binds_ad :: "aead \<Rightarrow> bool" where
  "aead_binds_ad g \<longleftrightarrow>
     (\<forall>n p ad ad'. length n = ad_nonce_size g \<longrightarrow> ad \<noteq> ad' \<longrightarrow>
        ad_open g n (ad_seal g n p ad) ad' = None)"

lemma cut_sealed:
  "CHR ''.'' \<notin> set prefix \<Longrightarrow> cut (prefix @ ''.'' @ body) (CHR ''.'') = (prefix, body, True)"
  using cut_append [of "CHR ''.''" prefix body] by simp

lemma open_sealed:
  assumes "CHR ''.'' \<notin> set prefix" "length nonce = ad_nonce_size (k_gcm k)"
    and "aead_correct (k_gcm k)" "nonce \<noteq> []"
    and "seal_token k nonce prefix (Some body) = Some raw"
  shows "open_token k prefix raw unmarshal =
     (case unmarshal body of None \<Rightarrow> Inl ErrMalformed | Some x \<Rightarrow> Inr x)"
proof -
  let ?ct = "ad_seal (k_gcm k) nonce body prefix"
  have raw: "raw = prefix @ ''.'' @ b64_encode (nonce @ ?ct)"
    using assms(5) by (simp add: seal_token_def)
  have ne: "b64_encode (nonce @ ?ct) \<noteq> []" using assms(4) by (intro b64_encode_nonempty) simp
  have o: "ad_open (k_gcm k) nonce ?ct prefix = Some body" "ad_overhead (k_gcm k) \<le> length ?ct"
    using assms(2,3) by (simp_all add: aead_correct_def)
  show ?thesis
    unfolding open_token_def raw cut_sealed [OF assms(1)]
    using ne o assms(2) by (simp add: Let_def)
qed

lemma open_other_prefix:
  assumes "CHR ''.'' \<notin> set prefix" "prefix \<noteq> prefix'"
    and "seal_token k nonce prefix body = Some raw"
  shows "open_token k prefix' raw unmarshal = Inl ErrMalformed"
  using assms(2,3) cut_sealed [OF assms(1)]
  by (auto simp: seal_token_def open_token_def split: option.splits)

lemma relabelled_fails:
  assumes "CHR ''.'' \<notin> set prefix'" "length nonce = ad_nonce_size (k_gcm k)"
    and "aead_binds_ad (k_gcm k)" "prefix \<noteq> prefix'"
  shows "\<exists>e. open_token k prefix'
      (prefix' @ ''.'' @ b64_encode (nonce @ ad_seal (k_gcm k) nonce body prefix)) unmarshal = Inl e"
  using assms unfolding open_token_def cut_sealed [OF assms(1)]
  by (auto simp: Let_def aead_binds_ad_def)

text \<open>The checks of an opened clearance.\<close>

lemma open_clearance_ok:
  assumes "OpenClearance k raw now want = (c', None)"
  shows "\<exists>c. c' = Some c \<and> open_token k clearancePrefix raw (dec_clearance (k_json k)) = Inr c \<and>
     c_jti c \<noteq> [] \<and> c_cid c \<noteq> [] \<and> unix now < c_expiry c \<and>
     (b_net want = [] \<or> c_net c = [] \<or> b_net want = c_net c) \<and>
     (b_ua want = [] \<or> c_ua c = [] \<or> b_ua want = c_ua c)"
  using assms by (auto simp: OpenClearance_def split: sum.splits if_splits)

lemma open_ticket_ok:
  assumes "OpenTicket k raw now = (t', None)"
  shows "\<exists>t. t' = Some t \<and> open_token k ticketPrefix raw (dec_ticket (k_json k)) = Inr t \<and>
     t_nonce t \<noteq> [] \<and> unix now < t_expiry t"
  using assms by (auto simp: OpenTicket_def split: sum.splits if_splits)

section \<open>Properties\<close>

text \<open>C12: The clearance round trip. What \<open>SealClearance\<close> produced opens, at any later instant and
  for any visitor, to exactly the clearance sealed; the answer has no error if and only if the
  clearance is complete, has not expired and both bindings agree wherever both sides name one.
  As a ticket the same string is malformed.\<close>

theorem clearance_round_trip:
  assumes aead: "aead_correct (k_gcm k)"
    and nonce: "length nonce = ad_nonce_size (k_gcm k)" "nonce \<noteq> []"
    and json: "\<And>body. enc_clearance (k_json k) c = Some body \<Longrightarrow> dec_clearance (k_json k) body = Some c"
    and sealed: "SealClearance k nonce c = Some raw"
  shows "(OpenClearance k raw now want = (Some c, None) \<longleftrightarrow>
            c_jti c \<noteq> [] \<and> c_cid c \<noteq> [] \<and> c_expiry c \<noteq> 0 \<and> unix now < c_expiry c \<and>
            (b_net want = [] \<or> c_net c = [] \<or> b_net want = c_net c) \<and>
            (b_ua want = [] \<or> c_ua c = [] \<or> b_ua want = c_ua c)) \<and>
         (\<forall>c' e. OpenClearance k raw now want = (Some c', e) \<longrightarrow> c' = c) \<and>
         OpenTicket k raw now = (None, Some ErrMalformed)"
proof -
  obtain body where body: "enc_clearance (k_json k) c = Some body"
    using sealed by (auto simp: SealClearance_def seal_token_def split: option.splits)
  have st: "seal_token k nonce clearancePrefix (Some body) = Some raw"
    using sealed body by (simp add: SealClearance_def)
  have o: "open_token k clearancePrefix raw (dec_clearance (k_json k)) = Inr c"
    using open_sealed [OF _ nonce(1) aead nonce(2) st, of "dec_clearance (k_json k)"] json [OF body]
    by simp
  have t: "open_token k ticketPrefix raw (dec_ticket (k_json k)) = Inl ErrMalformed"
    using open_other_prefix [OF _ _ st, of ticketPrefix "dec_ticket (k_json k)"] by simp
  show ?thesis by (auto simp: OpenClearance_def OpenTicket_def o t)
qed

definition toy_aead :: aead where
  "toy_aead = \<lparr>ad_nonce_size = 1, ad_overhead = 0, ad_seal = (\<lambda>n p ad. ad @ p),
     ad_open = (\<lambda>n ct ad. if has_prefix ct ad then Some (drop (length ad) ct) else None)\<rparr>"

definition toy_clearance :: clearance where
  "toy_clearance = \<lparr>c_jti = ''j'', c_cid = ''c'', c_issued = 100, c_expiry = 200, c_profile = ''p'',
     c_provider = ''image'', c_net = ''10.0.0.0/24'', c_ua = [], c_fp = [], c_flags = []\<rparr>"

definition toy_ticket :: ticket where
  "toy_ticket = \<lparr>t_nonce = ''n'', t_return = ''/'', t_profile = ''p'', t_attempt = 1,
     t_net = [], t_ua = [], t_expiry = 200\<rparr>"

definition toy_key :: token_key where
  "toy_key = \<lparr>k_gcm = toy_aead, k_json = \<lparr>enc_clearance = (\<lambda>c. Some (c_jti c)),
     dec_clearance = (\<lambda>b. if b = ''j'' then Some toy_clearance else None),
     enc_ticket = (\<lambda>t. Some (t_nonce t)),
     dec_ticket = (\<lambda>b. if b = ''n'' then Some toy_ticket else None)\<rparr>\<rparr>"

lemma toy_aead_correct: "aead_correct toy_aead"
  by (simp add: aead_correct_def toy_aead_def)

theorem clearance_round_trip_witness:
  "\<exists>raw. SealClearance toy_key ''0'' toy_clearance = Some raw \<and>
     OpenClearance toy_key raw (from_unix 150) \<lparr>b_net = ''10.0.0.0/24'', b_ua = ''x''\<rparr> =
       (Some toy_clearance, None) \<and>
     OpenTicket toy_key raw (from_unix 150) = (None, Some ErrMalformed)"
proof -
  obtain raw where raw: "SealClearance toy_key ''0'' toy_clearance = Some raw"
    by (simp add: SealClearance_def seal_token_def toy_key_def)
  have a: "aead_correct (k_gcm toy_key)" by (simp add: toy_key_def toy_aead_correct)
  have j: "enc_clearance (k_json toy_key) toy_clearance = Some body \<Longrightarrow>
      dec_clearance (k_json toy_key) body = Some toy_clearance" for body
    by (auto simp: toy_key_def toy_clearance_def)
  have n: "length ''0'' = ad_nonce_size (k_gcm toy_key)" "''0'' \<noteq> []"
    by (simp_all add: toy_key_def toy_aead_def)
  have c: "c_jti toy_clearance \<noteq> [] \<and> c_cid toy_clearance \<noteq> [] \<and> c_expiry toy_clearance \<noteq> 0 \<and>
      unix (from_unix 150) < c_expiry toy_clearance \<and> c_net toy_clearance = ''10.0.0.0/24'' \<and>
      c_ua toy_clearance = []"
    by (simp add: toy_clearance_def)
  show ?thesis
    using raw c clearance_round_trip [OF a n j raw, of "from_unix 150"
        "\<lparr>b_net = ''10.0.0.0/24'', b_ua = ''x''\<rparr>"]
    by (intro exI [of _ raw]) (simp only: bind.simps simp_thms)
qed

text \<open>The label of a token is authenticated. A ticket's ciphertext relabelled as a clearance,
  or a clearance's relabelled as a ticket, never opens, whatever the payload, the instant and
  the visitor, provided the AEAD refuses additional data it did not seal.\<close>

theorem kinds_never_mix:
  assumes aead: "aead_binds_ad (k_gcm k)" and nonce: "length nonce = ad_nonce_size (k_gcm k)"
  shows "(\<exists>e. OpenClearance k
            (clearancePrefix @ ''.'' @ b64_encode (nonce @ ad_seal (k_gcm k) nonce body ticketPrefix))
            now want = (None, Some e)) \<and>
         (\<exists>e. OpenTicket k
            (ticketPrefix @ ''.'' @ b64_encode (nonce @ ad_seal (k_gcm k) nonce body clearancePrefix))
            now = (None, Some e))"
  using relabelled_fails [OF _ nonce aead, of clearancePrefix ticketPrefix body "dec_clearance (k_json k)"]
    relabelled_fails [OF _ nonce aead, of ticketPrefix clearancePrefix body "dec_ticket (k_json k)"]
  by (auto simp: OpenClearance_def OpenTicket_def)

fun ad_code :: "string \<Rightarrow> string" where
  "ad_code [] = ''0''"
| "ad_code (c # cs) = CHR ''1'' # c # ad_code cs"

definition sep_aead :: aead where
  "sep_aead = toy_aead\<lparr>ad_seal := (\<lambda>n p ad. ad_code ad @ p),
     ad_open := (\<lambda>n ct ad. if has_prefix ct (ad_code ad) then Some (drop (length (ad_code ad)) ct)
       else None)\<rparr>"

lemma ad_code_prefix_free: "ad_code a @ x = ad_code b @ y \<Longrightarrow> a = b"
proof (induction a arbitrary: b)
  case Nil
  then show ?case by (cases b) auto
next
  case (Cons c a)
  then show ?case by (cases b) auto
qed

lemma sep_aead_binds: "aead_binds_ad sep_aead"
  unfolding aead_binds_ad_def sep_aead_def by (auto simp: has_prefix_iff dest: ad_code_prefix_free)

theorem kinds_never_mix_witness:
  "let k = toy_key\<lparr>k_gcm := sep_aead\<rparr>
   in \<exists>e. OpenClearance k
            (clearancePrefix @ ''.'' @ b64_encode (''0'' @ ad_seal (k_gcm k) ''0'' ''n'' ticketPrefix))
            (from_unix 150) \<lparr>b_net = [], b_ua = []\<rparr> = (None, Some e)"
proof -
  have a: "aead_binds_ad (k_gcm (toy_key\<lparr>k_gcm := sep_aead\<rparr>))" by (simp add: sep_aead_binds)
  have n: "length ''0'' = ad_nonce_size (k_gcm (toy_key\<lparr>k_gcm := sep_aead\<rparr>))"
    by (simp add: sep_aead_def toy_aead_def)
  show ?thesis
    unfolding Let_def by (rule conjunct1 [OF kinds_never_mix [OF a n]])
qed

end
