(* ===== verification/Profile.thy ===== *)
theory Profile
  imports Protocol Overload Go_Float
begin

text \<open>
  Package \<open>internal/config\<close>, file \<open>profile.go\<close>: a profile and the questions the rest of the
  program asks of it. The checks of \<open>Validate\<close> are in the theory \<open>Validate\<close>.

  A profile is what \<open>yaml\<close> decoded over \<open>defaults\<close>; the decoder is the parameter of
  \<open>ParseProfile\<close>. The parsed page template is kept as its source text. \<open>strings.ToUpper\<close> is
  applied to HTTP methods only, which are ASCII tokens.
\<close>

section \<open>Constants\<close>

abbreviation "ModeEnforce \<equiv> ''enforce''"
abbreviation "ModeObserve \<equiv> ''observe''"
abbreviation "ModeOff \<equiv> ''off''"
abbreviation "WhenAlways \<equiv> ''always''"
abbreviation "WhenBuckets \<equiv> ''buckets''"
abbreviation "WhenNever \<equiv> ''never''"
abbreviation "MatchExact \<equiv> ''exact''"
abbreviation "MatchPrefix \<equiv> ''prefix''"
abbreviation "ProviderImage \<equiv> ''image''"
abbreviation "ProviderTurnstile \<equiv> ''turnstile''"
abbreviation "ProviderReCAPTCHA \<equiv> ''recaptcha''"
abbreviation "ProviderHCaptcha \<equiv> ''hcaptcha''"
abbreviation "ProviderSmartCaptcha \<equiv> ''smartcaptcha''"
abbreviation "OnErrorFallback \<equiv> ''fallback''"
abbreviation "OnErrorAllow \<equiv> ''allow''"
abbreviation "OnErrorDeny \<equiv> ''deny''"
abbreviation "RosterRedis \<equiv> ''redis''"
abbreviation "RosterMemory \<equiv> ''memory''"
abbreviation "BindNet \<equiv> ''subnet''"
abbreviation "BindIP \<equiv> ''ip''"
abbreviation "BindUA \<equiv> ''ua''"
abbreviation "AnyInspector \<equiv> ''*''"
abbreviation "AnyVerb \<equiv> ''*''"
abbreviation "DefaultName \<equiv> ''default''"
abbreviation "ProbeName \<equiv> ''_probe''"

abbreviation "OnFail \<equiv> ''fail''"
abbreviation "OnPass \<equiv> ''pass''"
abbreviation "OnBucketCaptcha \<equiv> ''bucket_captcha''"
abbreviation "OnBucketBan \<equiv> ''bucket_ban''"
abbreviation "OnCleared \<equiv> ''cleared''"
abbreviation "OnUncleared \<equiv> ''uncleared''"
abbreviation "OnOverload \<equiv> OverloadOn"

abbreviation "NextAllow \<equiv> ''allow''"
abbreviation "NextChallenge \<equiv> ''challenge''"

abbreviation "WriteAddr \<equiv> ''addr''"
abbreviation "WriteNet \<equiv> ''net''"
abbreviation "WriteNetAll \<equiv> ''net_all''"
abbreviation "WriteASN \<equiv> ''asn''"
abbreviation "WriteCID \<equiv> ''cid''"

section \<open>Data\<close>

record rate =
  ra_n :: int
  ra_per :: duration

record bucket_tier =
  bt_max :: float64
  bt_loss :: float64
  bt_captcha_at :: int
  bt_ban_at :: int

record profile_buckets =
  pb_ip :: bucket_tier
  pb_sess :: bucket_tier
  pb_asn_net :: bucket_tier
  pb_asn_router :: bucket_tier

record event_rule =
  er_on :: string
  er_at :: "int option"
  er_bucket :: string
  er_next :: string
  er_to :: string
  er_do :: string
  er_apply :: string
  er_phase :: string
  er_delta :: "int option"
  er_value :: "int option"
  er_counter :: string
  er_group :: string
  er_set :: string
  er_marker :: string
  er_headers :: "object_spec option"
  er_args :: "object_spec option"
  er_body :: "object_spec option"
  er_when :: "string list"
  er_list :: string
  er_ttl :: duration
  er_write :: string
  er_charge :: string
  er_percent :: int
  er_code :: string

record prior_rule =
  pri_from :: string
  pri_accept :: "string list"
  pri_codes :: "string list"

record trigger =
  tg_when :: string
  tg_prior :: "prior_rule list"

record page_rule =
  pg_path :: string
  pg_match :: string
  pg_methods :: "string list"
  pg_when :: string
  pg_provider :: string

record gate =
  g_redirect_methods :: "string list"
  g_redirect_status :: int
  g_deny_response :: string
  g_html_only :: bool
  g_inline :: bool

record provider_ref =
  pf_kind :: string
  pf_length :: int
  pf_audio :: "bool option"

record image_config =
  ic_alphabet :: string
  ic_languages :: "string list"
  ic_audio_dir :: string

record external_config =
  ex_version :: string
  ex_sitekey :: string
  ex_secret_env :: string
  ex_secret_store :: string
  ex_min_score :: float64
  ex_remoteip :: bool
  ex_timeout :: duration
  ex_on_error :: string

record provider_config =
  pc_image :: image_config
  pc_turnstile :: external_config
  pc_recaptcha :: external_config
  pc_hcaptcha :: external_config
  pc_smartcaptcha :: external_config

record challenge =
  ch_cookie :: string
  ch_ttl :: duration

record clearance_cfg =
  cc_cookie :: string
  cc_id_cookie :: string
  cc_ttl :: duration
  cc_bind :: "string list"
  cc_v4 :: int
  cc_v6 :: int
  cc_list :: string
  cc_grace :: duration

record fingerprint_cfg =
  fc_collect :: bool
  fc_canvas :: bool
  fc_farm_at :: int
  fc_window :: duration

record limits =
  li_issue :: rate
  li_verify :: rate
  li_pending_max :: int
  li_budget :: rate

record roster_cfg =
  rc_store :: string
  rc_prefix :: string
  rc_revoke_refresh :: duration

record profile =
  p_name :: string
  p_mode :: string
  p_path :: string
  p_title :: string
  p_note :: string
  p_trigger :: trigger
  p_buckets :: profile_buckets
  p_rules :: "event_rule list"
  p_pages :: "page_rule list"
  p_gate :: gate
  p_provider :: provider_ref
  p_fallback :: "provider_ref option"
  p_provider_cfg :: provider_config
  p_challenge :: challenge
  p_clearance :: clearance_cfg
  p_fingerprint :: fingerprint_cfg
  p_limits :: limits
  p_upstream_header :: string
  p_roster :: roster_cfg
  p_languages :: "string list"
  p_page :: "string option"

definition zero_tier :: bucket_tier where
  "zero_tier = \<lparr>bt_max = 0, bt_loss = 0, bt_captcha_at = 0, bt_ban_at = 0\<rparr>"

definition zero_external :: external_config where
  "zero_external = \<lparr>ex_version = [], ex_sitekey = [], ex_secret_env = [], ex_secret_store = [],
     ex_min_score = 0, ex_remoteip = False, ex_timeout = 0, ex_on_error = []\<rparr>"

section \<open>Queries\<close>

definition rate_enabled :: "rate \<Rightarrow> bool" where
  "rate_enabled r \<longleftrightarrow> ra_n r > 0"

definition bucket_tier_of :: "profile_buckets \<Rightarrow> string \<Rightarrow> bucket_tier" where
  "bucket_tier_of b kind =
     (if kind = ''ip'' then pb_ip b
      else if kind = ''sess'' then pb_sess b
      else if kind = ''asn_net'' then pb_asn_net b
      else if kind = ''asn_router'' then pb_asn_router b
      else zero_tier)"

definition tier_enabled :: "bucket_tier \<Rightarrow> bool" where
  "tier_enabled t \<longleftrightarrow> bt_max t > 0 \<and> bt_loss t > 0"

definition buckets_enabled :: "profile_buckets \<Rightarrow> bool" where
  "buckets_enabled b \<longleftrightarrow> tier_enabled (pb_ip b) \<or> tier_enabled (pb_sess b) \<or>
     tier_enabled (pb_asn_net b) \<or> tier_enabled (pb_asn_router b)"

abbreviation bucketKinds :: "string list" where
  "bucketKinds \<equiv> [''ip'', ''sess'', ''asn_net'', ''asn_router'']"

definition knownBucket :: "string \<Rightarrow> bool" where
  "knownBucket kind = list_ex (\<lambda>k. k = kind) bucketKinds"

definition onWave :: "string \<Rightarrow> bool" where
  "onWave on \<longleftrightarrow> on = OnBucketCaptcha \<or> on = OnBucketBan \<or> on = OnCleared \<or> on = OnUncleared \<or>
     on = OnOverload"

definition bucketEvent :: "string \<Rightarrow> bool" where
  "bucketEvent on \<longleftrightarrow> on = OnBucketCaptcha \<or> on = OnBucketBan"

definition nextEvent :: "string \<Rightarrow> bool" where
  "nextEvent on \<longleftrightarrow> on = OnUncleared \<or> bucketEvent on"

definition Axis :: "event_rule \<Rightarrow> string" where
  "Axis r =
     (if er_apply r \<noteq> [] then er_apply r
      else if er_do r = DoReauth then ApplySession
      else if er_do r = DoNote then []
      else ApplyRequest)"

definition RulesFor :: "profile \<Rightarrow> string \<Rightarrow> string \<Rightarrow> string \<Rightarrow> event_rule list" where
  "RulesFor p on bucket nxt =
     filter (\<lambda>r. er_on r = on \<and> (er_bucket r = [] \<or> er_bucket r = bucket) \<and>
                 (er_next r = [] \<or> er_next r = nxt)) (p_rules p)"

definition Accepts :: "prior_rule \<Rightarrow> string \<Rightarrow> bool" where
  "Accepts r verb = list_ex (\<lambda>v. v = verb \<or> v = AnyVerb) (pri_accept r)"

definition WantsCode :: "prior_rule \<Rightarrow> string \<Rightarrow> bool" where
  "WantsCode r code =
     (if pri_codes r = [] then True else list_ex (\<lambda>c. c = code) (pri_codes r))"

definition containsVerb :: "string list \<Rightarrow> string \<Rightarrow> bool" where
  "containsVerb xs verb = list_ex (\<lambda>v. v = verb) xs"

definition ListEnabled :: "clearance_cfg \<Rightarrow> bool" where
  "ListEnabled c \<longleftrightarrow> cc_list c \<noteq> []"

definition hasBind :: "profile \<Rightarrow> string \<Rightarrow> bool" where
  "hasBind p kind = list_ex (\<lambda>b. b = kind) (cc_bind (p_clearance p))"

definition BindsNet :: "profile \<Rightarrow> bool" where
  "BindsNet p \<longleftrightarrow> hasBind p BindNet \<or> hasBind p BindIP"

definition BindsUA :: "profile \<Rightarrow> bool" where
  "BindsUA p \<longleftrightarrow> hasBind p BindUA"

definition NetBits :: "profile \<Rightarrow> int \<times> int" where
  "NetBits p =
     (if hasBind p BindIP then (32, 128) else (cc_v4 (p_clearance p), cc_v6 (p_clearance p)))"

definition External :: "profile \<Rightarrow> string \<Rightarrow> external_config" where
  "External p kind =
     (if kind = ProviderTurnstile then pc_turnstile (p_provider_cfg p)
      else if kind = ProviderReCAPTCHA then pc_recaptcha (p_provider_cfg p)
      else if kind = ProviderHCaptcha then pc_hcaptcha (p_provider_cfg p)
      else if kind = ProviderSmartCaptcha then pc_smartcaptcha (p_provider_cfg p)
      else zero_external)"

definition Refs :: "profile \<Rightarrow> provider_ref list" where
  "Refs p = p_provider p # (case p_fallback p of None \<Rightarrow> [] | Some f \<Rightarrow> [f])"

definition ProviderRef :: "profile \<Rightarrow> string \<Rightarrow> provider_ref option" where
  "ProviderRef p kind =
     (if pf_kind (p_provider p) = kind then Some (p_provider p)
      else case p_fallback p of
        Some f \<Rightarrow> if pf_kind f = kind then Some f else None
      | None \<Rightarrow> None)"

definition hasProvider :: "profile \<Rightarrow> string \<Rightarrow> bool" where
  "hasProvider p kind \<longleftrightarrow> ProviderRef p kind \<noteq> None"

definition ProviderKinds :: "profile \<Rightarrow> string list" where
  "ProviderKinds p = map pf_kind (Refs p)"

definition RedirectsMethod :: "profile \<Rightarrow> string \<Rightarrow> bool" where
  "RedirectsMethod p meth = list_ex (\<lambda>m. m = meth) (g_redirect_methods (p_gate p))"

definition FormInline :: "profile \<Rightarrow> bool" where
  "FormInline p = g_inline (p_gate p)"

definition OwnPath :: "profile \<Rightarrow> string \<Rightarrow> bool" where
  "OwnPath p uri =
     (if p_path p = [] then False
      else if uri = p_path p then True
      else has_prefix uri (trim_right (p_path p) ''/'' @ ''/''))"

record page_choice =
  ru_when :: string
  ru_page :: string
  ru_provider :: string

definition page_matches :: "page_rule \<Rightarrow> string \<Rightarrow> string \<Rightarrow> bool" where
  "page_matches r meth uri =
     (if pg_methods r \<noteq> [] \<and> \<not> list_ex (\<lambda>m. m = meth) (pg_methods r) then False
      else if pg_match r = MatchExact then uri = pg_path r
      else uri = pg_path r \<or> has_prefix uri (pg_path r))"

fun rule_for_loop :: "page_rule list \<Rightarrow> string \<Rightarrow> string \<Rightarrow> string \<Rightarrow> page_choice" where
  "rule_for_loop [] dflt meth uri = \<lparr>ru_when = dflt, ru_page = [], ru_provider = []\<rparr>"
| "rule_for_loop (r # rs) dflt meth uri =
     (if \<not> page_matches r meth uri then rule_for_loop rs dflt meth uri
      else \<lparr>ru_when = pg_when r, ru_page = pg_path r, ru_provider = pg_provider r\<rparr>)"

definition RuleFor :: "profile \<Rightarrow> string \<Rightarrow> string \<Rightarrow> page_choice" where
  "RuleFor p meth uri = rule_for_loop (p_pages p) (tg_when (p_trigger p)) meth uri"

section \<open>Defaults and parsing\<close>

definition defaults :: "string \<Rightarrow> profile" where
  "defaults name =
     (let ext = zero_external\<lparr>ex_timeout := 3 * Second, ex_on_error := OnErrorFallback\<rparr>
      in \<lparr>p_name = name, p_mode = ModeEnforce, p_path = [],
          p_title = ''Confirm you are not a robot'', p_note = [],
          p_trigger = \<lparr>tg_when = WhenBuckets, tg_prior = []\<rparr>,
          p_buckets = \<lparr>pb_ip = zero_tier, pb_sess = zero_tier, pb_asn_net = zero_tier,
                       pb_asn_router = zero_tier\<rparr>,
          p_rules = [], p_pages = [],
          p_gate = \<lparr>g_redirect_methods = [''GET'', ''HEAD''], g_redirect_status = 303,
                    g_deny_response = ''captcha_required'', g_html_only = True,
                    g_inline = False\<rparr>,
          p_provider = \<lparr>pf_kind = ProviderImage, pf_length = 0, pf_audio = None\<rparr>,
          p_fallback = None,
          p_provider_cfg =
            \<lparr>pc_image = \<lparr>ic_alphabet = ''ABCDEFGHJKLMNPQRSTUVWXYZ23456789'',
                          ic_languages = [], ic_audio_dir = []\<rparr>,
             pc_turnstile = ext,
             pc_recaptcha = ext\<lparr>ex_version := ''v2'', ex_min_score := 1 / 2\<rparr>,
             pc_hcaptcha = ext, pc_smartcaptcha = ext\<rparr>,
          p_challenge = \<lparr>ch_cookie = ''waf_cap'', ch_ttl = 5 * Minute\<rparr>,
          p_clearance = \<lparr>cc_cookie = ''waf_clr'', cc_id_cookie = ''waf_cid'', cc_ttl = 24 * Hour,
                         cc_bind = [BindNet, BindUA], cc_v4 = 24, cc_v6 = 64, cc_list = [],
                         cc_grace = 0\<rparr>,
          p_fingerprint = \<lparr>fc_collect = True, fc_canvas = False, fc_farm_at = 50,
                           fc_window = Hour\<rparr>,
          p_limits = \<lparr>li_issue = \<lparr>ra_n = 30, ra_per = Minute\<rparr>,
                      li_verify = \<lparr>ra_n = 60, ra_per = Minute\<rparr>, li_pending_max = 200000,
                      li_budget = \<lparr>ra_n = 50, ra_per = Second\<rparr>\<rparr>,
          p_upstream_header = ''X-WAF-Captcha'',
          p_roster = \<lparr>rc_store = RosterRedis, rc_prefix = ''cap:'', rc_revoke_refresh = 2 * Second\<rparr>,
          p_languages = [''en'', ''ru''], p_page = None\<rparr>)"

definition providerDefaults :: "provider_ref \<Rightarrow> provider_ref" where
  "providerDefaults ref =
     (if pf_kind ref = ProviderImage
      then let ref = (if pf_length ref = 0 then ref\<lparr>pf_length := 5\<rparr> else ref)
           in (if pf_audio ref = None then ref\<lparr>pf_audio := Some True\<rparr> else ref)
      else ref)"

definition pageDefaults :: "page_rule \<Rightarrow> page_rule" where
  "pageDefaults r =
     (let r = (if pg_match r = [] then r\<lparr>pg_match := MatchPrefix\<rparr> else r)
      in (if pg_when r = [] then r\<lparr>pg_when := WhenAlways\<rparr> else r))"

text \<open>\<open>decode\<close> is \<open>yaml.Decoder.Decode\<close> with \<open>KnownFields(true)\<close> into the given value.\<close>

definition ParseProfile ::
    "(profile \<Rightarrow> string \<Rightarrow> profile option) \<Rightarrow> string \<Rightarrow> string \<Rightarrow> profile option" where
  "ParseProfile decode name raw =
     (case decode (defaults name) raw of
        None \<Rightarrow> None
      | Some p \<Rightarrow> Some (p\<lparr>p_name := name, p_provider := providerDefaults (p_provider p),
                         p_fallback := map_option providerDefaults (p_fallback p),
                         p_pages := map pageDefaults (p_pages p)\<rparr>))"

definition probeVariant :: "profile \<Rightarrow> profile" where
  "probeVariant p =
     p\<lparr>p_name := ProbeName, p_mode := ModeEnforce,
       p_trigger := \<lparr>tg_when = WhenAlways, tg_prior = []\<rparr>, p_pages := [],
       p_gate := (p_gate p)\<lparr>g_html_only := False\<rparr>,
       p_path := (if p_path p = [] then ''/waf/captcha'' else p_path p)\<rparr>"

section \<open>Lemmas\<close>

lemma rules_for_sound:
  "r \<in> set (RulesFor p on bucket nxt) \<Longrightarrow> r \<in> set (p_rules p) \<and> er_on r = on"
  by (simp add: RulesFor_def)

lemma accepts_iff: "Accepts r verb \<longleftrightarrow> verb \<in> set (pri_accept r) \<or> AnyVerb \<in> set (pri_accept r)"
  by (auto simp: Accepts_def list_ex_iff)

lemma rule_for_cases:
  "(\<exists>r \<in> set rs. page_matches r meth uri \<and>
      rule_for_loop rs d meth uri =
        \<lparr>ru_when = pg_when r, ru_page = pg_path r, ru_provider = pg_provider r\<rparr>) \<or>
   (\<forall>r \<in> set rs. \<not> page_matches r meth uri) \<and>
      rule_for_loop rs d meth uri = \<lparr>ru_when = d, ru_page = [], ru_provider = []\<rparr>"
  by (induction rs) auto

lemma provider_ref_in_refs:
  "ProviderRef p kind = Some r \<Longrightarrow> r \<in> set (Refs p) \<and> pf_kind r = kind"
  by (auto simp: ProviderRef_def Refs_def split: if_splits option.splits)

lemma trim_right_prefix: "\<exists>t. s = trim_right s cs @ t"
  unfolding trim_right_def
  by (metis rev_append rev_rev_ident takeWhile_dropWhile_id)

text \<open>The probe's profile challenges every request on a real path.\<close>

lemma probe_variant_enforces:
  "p_mode (probeVariant p) = ModeEnforce \<and> p_path (probeVariant p) \<noteq> [] \<and>
   RuleFor (probeVariant p) meth uri = \<lparr>ru_when = WhenAlways, ru_page = [], ru_provider = []\<rparr>"
  by (simp add: probeVariant_def RuleFor_def)

end
