(* ===== verification/Validate.thy ===== *)
theory Validate
  imports Profile
begin

text \<open>
  The checks a profile passes before it is used (\<open>internal/config/profile.go\<close>: \<open>Validate\<close> and
  the functions it calls). Each error of the source is a constructor; a run of
  \<open>if bad { return err }\<close> is a list of checks whose first error is returned.
\<close>

section \<open>Rules\<close>

datatype phase_error = PhaseOnlyControl | PhaseUnknown string | ConnNeedsFrame

datatype delta_error = ThresholdNeedsDelta | DeltaRange int | DeltaOnlyThreshold

datatype value_error =
    NoteValueZero
  | NoteValueRange int
  | CounterName string
  | ScoreNeedsValue
  | ScoreValueRange int
  | CounterOnlyNote
  | ValueOnlyNoteScore

datatype group_error = MutateNeedsGroup | GroupName string | MutateNeedsSet string | GroupSetStray

datatype record_error =
    AuditNeedsSet string
  | OnlyForSetOn
  | OnlyForArchive
  | WhenErr proto_error
  | SpecErr proto_error
  | ObjectsStray
  | TTLStrayAsk

datatype ask_error =
    DoUnknown string
  | ApplyNotAllowed string
  | NeedsTo
  | PhaseErr phase_error
  | TakesNoTo
  | DeltaErr delta_error
  | ValueErr value_error
  | GroupErr group_error
  | MarkerErr proto_error
  | MarkerStray
  | RecordErr record_error

datatype rule_error =
    AtOnlyOverload
  | AtRange int
  | OnUnknown string
  | BucketOnlyThreshold
  | BucketUnknown string
  | NextNotHere
  | NextUnknown string
  | NotExactlyOne
  | AskNeedsWave string
  | AskErr ask_error
  | TTLStray
  | CIDWrite
  | WriteUnknown string
  | TTLRequired
  | ChargeUnknown string
  | PercentRange int
  | CodeForm string

definition upper_letter :: "char \<Rightarrow> bool" where
  "upper_letter c \<longleftrightarrow> 65 \<le> byte_of c \<and> byte_of c \<le> 90"

definition digit_char :: "char \<Rightarrow> bool" where
  "digit_char c \<longleftrightarrow> 48 \<le> byte_of c \<and> byte_of c \<le> 57"

definition ascii_letter :: "char \<Rightarrow> bool" where
  "ascii_letter c \<longleftrightarrow> upper_letter c \<or> (97 \<le> byte_of c \<and> byte_of c \<le> 122)"

text \<open>\<open>^[A-Z][A-Z0-9_]{0,63}$\<close> and \<open>^[A-Za-z0-9][A-Za-z0-9._-]{0,63}$\<close>.\<close>

definition codeRe :: "string \<Rightarrow> bool" where
  "codeRe s \<longleftrightarrow> s \<noteq> [] \<and> length s \<le> 64 \<and> upper_letter (hd s) \<and>
     list_all (\<lambda>c. upper_letter c \<or> digit_char c \<or> c = CHR ''_'') (tl s)"

definition counterNameRe :: "string \<Rightarrow> bool" where
  "counterNameRe s \<longleftrightarrow> s \<noteq> [] \<and> length s \<le> 64 \<and> (ascii_letter (hd s) \<or> digit_char (hd s)) \<and>
     list_all (\<lambda>c. ascii_letter c \<or> digit_char c \<or> c \<in> set ''._-'') (tl s)"

definition auditVerb :: "string \<Rightarrow> bool" where
  "auditVerb do' \<longleftrightarrow> do' = DoAudit \<or> do' = DoArchive"

definition recordVerb :: "string \<Rightarrow> bool" where
  "recordVerb do' \<longleftrightarrow> auditVerb do' \<or> do' = DoMark \<or> do' = DoScore"

definition controlVerb :: "string \<Rightarrow> bool" where
  "controlVerb do' \<longleftrightarrow> do' \<in> {DoActive, DoPassive, DoVote, DoOff}"

definition checkPhaseAsk :: "string \<Rightarrow> string \<Rightarrow> string \<Rightarrow> phase_error option" where
  "checkPhaseAsk do' phase apply' =
     (if phase = [] then None
      else first_err
        [fails (\<not> controlVerb do') PhaseOnlyControl,
         fails (phase \<notin> {PhaseRequest, PhaseResponse, PhaseFrame}) (PhaseUnknown phase),
         fails (apply' = ApplyConn \<and> phase \<noteq> PhaseFrame) ConnNeedsFrame])"

text \<open>The axes a verb may be applied to; a verb outside the table is unknown.\<close>

definition ask_axes :: "string \<Rightarrow> string list option" where
  "ask_axes do' =
     (if do' \<in> {DoChallenge, DoThreshold, DoSkip, DoMutate} then Some [ApplyRequest]
      else if do' = DoReauth then Some [ApplySession]
      else if do' = DoNote then Some [ApplyRequest, ApplyIP, ApplyASN, ApplySession]
      else if do' \<in> {DoActive, DoPassive, DoVote, DoOff} then Some [ApplyRequest]
      else if do' \<in> {DoAudit, DoArchive} then Some [ApplyRequest]
      else if do' \<in> {DoMark, DoScore} then Some [ApplyRequest]
      else None)"

definition check_delta :: "event_rule \<Rightarrow> delta_error option" where
  "check_delta r =
     (if er_do r = DoThreshold
      then (case er_delta r of
              None \<Rightarrow> Some ThresholdNeedsDelta
            | Some d \<Rightarrow> if d = 0 then Some ThresholdNeedsDelta
                        else if d < -100 \<or> d > 900 then Some (DeltaRange d)
                        else None)
      else fails (er_delta r \<noteq> None) DeltaOnlyThreshold)"

definition check_value :: "event_rule \<Rightarrow> value_error option" where
  "check_value r =
     (if er_do r = DoNote
      then (case er_value r of
              Some v \<Rightarrow> if v = 0 then Some NoteValueZero
                        else if v < -100 \<or> v > 100 then Some (NoteValueRange v)
                        else fails (er_counter r \<noteq> [] \<and> \<not> counterNameRe (er_counter r))
                               (CounterName (er_counter r))
            | None \<Rightarrow> fails (er_counter r \<noteq> [] \<and> \<not> counterNameRe (er_counter r))
                        (CounterName (er_counter r)))
      else if er_do r = DoScore
      then (case er_value r of
              None \<Rightarrow> Some ScoreNeedsValue
            | Some v \<Rightarrow> if v = 0 then Some ScoreNeedsValue
                        else if v < -100 \<or> v > 100 then Some (ScoreValueRange v)
                        else fails (er_counter r \<noteq> []) CounterOnlyNote)
      else first_err [fails (er_value r \<noteq> None) ValueOnlyNoteScore,
                      fails (er_counter r \<noteq> []) CounterOnlyNote])"

definition check_group :: "event_rule \<Rightarrow> group_error option" where
  "check_group r =
     (if er_do r = DoMutate
      then first_err
        [fails (er_group r = []) MutateNeedsGroup,
         fails (\<not> counterNameRe (er_group r)) (GroupName (er_group r)),
         fails (er_set r \<noteq> ''on'' \<and> er_set r \<noteq> ''off'') (MutateNeedsSet (er_set r))]
      else fails (er_group r \<noteq> [] \<or> (er_set r \<noteq> [] \<and> \<not> auditVerb (er_do r))) GroupSetStray)"

definition check_mark :: "event_rule \<Rightarrow> ask_error option" where
  "check_mark r =
     (if er_do r = DoMark then map_option MarkerErr (CheckMarker (er_marker r))
      else fails (er_marker r \<noteq> []) MarkerStray)"

definition has_objects :: "event_rule \<Rightarrow> bool" where
  "has_objects r \<longleftrightarrow> er_headers r \<noteq> None \<or> er_args r \<noteq> None \<or> er_body r \<noteq> None"

definition check_record :: "event_rule \<Rightarrow> record_error option" where
  "check_record r =
     (if auditVerb (er_do r)
      then first_err
        [fails (er_set r \<noteq> ''on'' \<and> er_set r \<noteq> ''off'') (AuditNeedsSet (er_set r)),
         fails (er_set r = ''off'' \<and> (er_ttl r \<noteq> 0 \<or> er_when r \<noteq> [] \<or> has_objects r)) OnlyForSetOn,
         fails (er_do r = DoAudit \<and> (er_ttl r \<noteq> 0 \<or> er_when r \<noteq> [])) OnlyForArchive,
         (case CheckArchiveWhen (er_when r) of Inl e \<Rightarrow> Some (WhenErr e) | Inr _ \<Rightarrow> None),
         map_option SpecErr (CheckObjectSpec ''headers'' (er_headers r)),
         map_option SpecErr (CheckObjectSpec ''args'' (er_args r)),
         map_option SpecErr (CheckObjectSpec ''body'' (er_body r))]
      else first_err
        [fails (er_when r \<noteq> [] \<or> has_objects r) ObjectsStray,
         fails (er_ttl r \<noteq> 0) TTLStrayAsk])"

definition validateAsk :: "event_rule \<Rightarrow> ask_error option" where
  "validateAsk r =
     (case ask_axes (er_do r) of
        None \<Rightarrow> Some (DoUnknown (er_do r))
      | Some axes \<Rightarrow>
          let axis = (if er_apply r = [] \<and> length axes = 1 then hd axes else er_apply r)
          in first_err
            [fails (\<not> list_ex (\<lambda>a. a = axis) axes) (ApplyNotAllowed (er_apply r)),
             fails (controlVerb (er_do r) \<and> er_to r = []) NeedsTo,
             map_option PhaseErr (checkPhaseAsk (er_do r) (er_phase r) (Axis r)),
             fails (recordVerb (er_do r) \<and> er_to r \<noteq> []) TakesNoTo,
             map_option DeltaErr (check_delta r), map_option ValueErr (check_value r),
             map_option GroupErr (check_group r), check_mark r, map_option RecordErr (check_record r)])"

definition check_on :: "event_rule \<Rightarrow> rule_error option" where
  "check_on r =
     (if er_on r \<in> {OnFail, OnPass, OnBucketCaptcha, OnBucketBan, OnCleared, OnUncleared}
      then fails (er_at r \<noteq> None) AtOnlyOverload
      else if er_on r = OnOverload then map_option AtRange (overload_check (er_at r))
      else Some (OnUnknown (er_on r)))"

definition check_next :: "event_rule \<Rightarrow> rule_error option" where
  "check_next r =
     (if er_next r = [] then None
      else if er_next r \<in> {NextAllow, NextChallenge}
      then fails (\<not> nextEvent (er_on r)) NextNotHere
      else Some (NextUnknown (er_next r)))"

definition rule_kinds :: "event_rule \<Rightarrow> int" where
  "rule_kinds r = (if er_do r \<noteq> [] then 1 else 0) + (if er_list r \<noteq> [] then 1 else 0) +
     (if er_charge r \<noteq> [] then 1 else 0)"

definition check_write :: "event_rule \<Rightarrow> rule_error option" where
  "check_write r =
     (if er_list r = [] then None
      else if er_write r \<in> {[], WriteAddr, WriteNet, WriteNetAll, WriteASN}
      then fails (er_ttl r = 0) TTLRequired
      else if er_write r = WriteCID
      then first_err [fails (er_on r \<noteq> OnPass \<and> er_on r \<noteq> OnCleared) CIDWrite,
                      fails (er_ttl r = 0) TTLRequired]
      else Some (WriteUnknown (er_write r)))"

definition validateEventRule :: "event_rule \<Rightarrow> rule_error option" where
  "validateEventRule r = first_err
     [check_on r,
      (if er_bucket r \<noteq> []
       then first_err [fails (\<not> bucketEvent (er_on r)) BucketOnlyThreshold,
                       fails (\<not> knownBucket (er_bucket r)) (BucketUnknown (er_bucket r))]
       else None),
      check_next r,
      fails (rule_kinds r \<noteq> 1) NotExactlyOne,
      (if er_do r \<noteq> []
       then first_err [fails (\<not> onWave (er_on r)) (AskNeedsWave (er_on r)),
                       map_option AskErr (validateAsk r)]
       else fails (er_ttl r \<noteq> 0 \<and> er_list r = []) TTLStray),
      check_write r,
      (if er_charge r \<noteq> []
       then first_err [fails (\<not> knownBucket (er_charge r)) (ChargeUnknown (er_charge r)),
                       fails (er_percent r < -100 \<or> er_percent r > 100 \<or> er_percent r = 0)
                         (PercentRange (er_percent r))]
       else None),
      fails (er_code r \<noteq> [] \<and> \<not> codeRe (er_code r)) (CodeForm (er_code r))]"

section \<open>Accepted asks of earlier inspectors\<close>

datatype prior_error =
    FromEmpty
  | AcceptRequired
  | NotOurs string
  | VerbUnknown string
  | OnlyChallengeFromAny

fun check_verbs :: "string list \<Rightarrow> prior_error option" where
  "check_verbs [] = None"
| "check_verbs (verb # verbs) =
     (if verb \<in> {AnyVerb, DoChallenge, DoThreshold, DoSkip, DoNote} then check_verbs verbs
      else if verb = DoReauth then Some (NotOurs verb)
      else Some (VerbUnknown verb))"

definition validatePrior :: "prior_rule \<Rightarrow> prior_error option" where
  "validatePrior r = first_err
     [fails (pri_from r = []) FromEmpty,
      fails (pri_accept r = []) AcceptRequired,
      check_verbs (pri_accept r),
      (if pri_from r \<noteq> AnyInspector then None
       else fails (containsVerb (pri_accept r) AnyVerb \<or> Accepts r DoSkip \<or> Accepts r DoThreshold \<or>
                   Accepts r DoNote) OnlyChallengeFromAny)]"

section \<open>The profile\<close>

datatype path_error = PathEmpty | PathNotAbsolute string | PathQuery string

datatype tier_error = TierMax | TierLoss | TierCaptchaAt | TierBanAt

datatype page_error =
    PagePath string
  | PageMatch string
  | PageWhen string
  | PageMethod string
  | PageProvider string

datatype gate_error = RedirectStatusBad int | DenyResponseEmpty | RedirectMethodBad nat string

datatype external_error =
    SiteKeyEmpty
  | SecretMissing
  | SecretBoth
  | OnErrorBad
  | TimeoutZero
  | ReCaptchaVersion

datatype provider_error =
    ProviderEmpty
  | FallbackSame
  | ImageLength nat int
  | AlphabetShort
  | ExternalErr string external_error
  | ProviderUnknown nat string

datatype clearance_error =
    CookieEmpty
  | CookieSame
  | TTLZero
  | BindUnknown string
  | BindBoth
  | SubnetRange
  | ListName string
  | GraceLong duration

datatype profile_error =
    ModeBad string
  | PathErr path_error
  | TriggerWhen string
  | TierErr string tier_error
  | RuleErr nat rule_error
  | PriorErr nat prior_error
  | PageErr nat page_error
  | GateErr gate_error
  | ProviderErr provider_error
  | ClearanceErr clearance_error
  | HeaderEmpty
  | RosterStoreBad string
  | RosterPrefixEmpty

definition validateWhen :: "(string \<Rightarrow> 'e) \<Rightarrow> string \<Rightarrow> 'e option" where
  "validateWhen field when = fails (when \<notin> {WhenAlways, WhenBuckets, WhenNever}) (field when)"

definition validate_tier :: "bucket_tier \<Rightarrow> tier_error option" where
  "validate_tier t =
     (if bt_max t = 0 \<and> bt_loss t = 0 \<and> bt_captcha_at t = 0 \<and> bt_ban_at t = 0 then None
      else first_err
        [fails (bt_max t < 0) TierMax,
         fails (bt_max t > 0 \<and> (bt_loss t \<le> 0 \<or> bt_loss t > 100)) TierLoss,
         fails (bt_captcha_at t < 0 \<or> bt_captcha_at t > 100) TierCaptchaAt,
         fails (bt_ban_at t \<noteq> 0 \<and> (bt_ban_at t > 100 \<or>
                  (bt_captcha_at t > 0 \<and> bt_ban_at t < bt_captcha_at t))) TierBanAt])"

definition validateBuckets :: "profile_buckets \<Rightarrow> profile_error option" where
  "validateBuckets b = first_err
     [map_option (TierErr ''buckets.ip'') (validate_tier (pb_ip b)),
      map_option (TierErr ''buckets.sess'') (validate_tier (pb_sess b)),
      map_option (TierErr ''buckets.asn_net'') (validate_tier (pb_asn_net b)),
      map_option (TierErr ''buckets.asn_router'') (validate_tier (pb_asn_router b))]"

definition validate_external :: "string \<Rightarrow> external_config \<Rightarrow> external_error option" where
  "validate_external kind cfg = first_err
     [fails (ex_sitekey cfg = []) SiteKeyEmpty,
      fails (ex_secret_env cfg = [] \<and> ex_secret_store cfg = []) SecretMissing,
      fails (ex_secret_env cfg \<noteq> [] \<and> ex_secret_store cfg \<noteq> []) SecretBoth,
      fails (ex_on_error cfg \<notin> {OnErrorFallback, OnErrorAllow, OnErrorDeny}) OnErrorBad,
      fails (ex_timeout cfg = 0) TimeoutZero,
      fails (kind = ProviderReCAPTCHA \<and> ex_version cfg \<noteq> ''v2'' \<and> ex_version cfg \<noteq> ''v3'')
        ReCaptchaVersion]"

definition validate_ref :: "profile \<Rightarrow> nat \<Rightarrow> provider_ref \<Rightarrow> provider_error option" where
  "validate_ref p i ref =
     (if pf_kind ref = ProviderImage
      then first_err
        [fails (pf_length ref < 3 \<or> pf_length ref > 10) (ImageLength i (pf_length ref)),
         fails (length (ic_alphabet (pc_image (p_provider_cfg p))) < 8) AlphabetShort]
      else if pf_kind ref \<in> {ProviderTurnstile, ProviderReCAPTCHA, ProviderHCaptcha,
                             ProviderSmartCaptcha}
      then map_option (ExternalErr (pf_kind ref)) (validate_external (pf_kind ref) (External p (pf_kind ref)))
      else Some (ProviderUnknown i (pf_kind ref)))"

definition validateProviders :: "profile \<Rightarrow> provider_error option" where
  "validateProviders p = first_err
     [fails (pf_kind (p_provider p) = []) ProviderEmpty,
      fails (case p_fallback p of None \<Rightarrow> False | Some f \<Rightarrow> pf_kind f = pf_kind (p_provider p))
        FallbackSame,
      check_each 0 (validate_ref p) (Refs p)]"

definition validate_page :: "profile \<Rightarrow> page_rule \<Rightarrow> page_error option" where
  "validate_page p r = first_err
     [fails (\<not> has_prefix (pg_path r) ''/'') (PagePath (pg_path r)),
      fails (pg_match r \<notin> {MatchExact, MatchPrefix}) (PageMatch (pg_match r)),
      validateWhen PageWhen (pg_when r),
      check_each 0 (\<lambda>_ m. fails (m \<noteq> to_upper m) (PageMethod m)) (pg_methods r),
      fails (pg_provider r \<noteq> [] \<and> \<not> hasProvider p (pg_provider r)) (PageProvider (pg_provider r))]"

text \<open>The checks before \<open>clearance.grace\<close> is filled in.\<close>

definition validate_head :: "profile \<Rightarrow> profile_error option" where
  "validate_head p = first_err
     [fails (p_mode p \<notin> {ModeEnforce, ModeObserve, ModeOff}) (ModeBad (p_mode p)),
      fails (p_mode p = ModeEnforce \<and> p_path p = []) (PathErr PathEmpty),
      (if p_path p \<noteq> []
       then first_err [fails (\<not> has_prefix (p_path p) ''/'') (PathErr (PathNotAbsolute (p_path p))),
                       fails (contains_any (p_path p) ''?#'') (PathErr (PathQuery (p_path p)))]
       else None),
      validateWhen TriggerWhen (tg_when (p_trigger p)),
      validateBuckets (p_buckets p),
      check_each 0 (\<lambda>i r. map_option (RuleErr i) (validateEventRule r)) (p_rules p),
      check_each 0 (\<lambda>i r. map_option (PriorErr i) (validatePrior r)) (tg_prior (p_trigger p)),
      check_each 0 (\<lambda>i r. map_option (PageErr i) (validate_page p r)) (p_pages p),
      fails (g_redirect_status (p_gate p) \<notin> {302, 303, 307})
        (GateErr (RedirectStatusBad (g_redirect_status (p_gate p)))),
      fails (g_deny_response (p_gate p) = []) (GateErr DenyResponseEmpty),
      check_each 0 (\<lambda>i m. fails (m \<noteq> to_upper m) (GateErr (RedirectMethodBad i m)))
        (g_redirect_methods (p_gate p)),
      map_option ProviderErr (validateProviders p),
      fails (ch_cookie (p_challenge p) = [] \<or> cc_cookie (p_clearance p) = [] \<or>
             cc_id_cookie (p_clearance p) = []) (ClearanceErr CookieEmpty),
      fails (ch_cookie (p_challenge p) = cc_cookie (p_clearance p) \<or>
             cc_cookie (p_clearance p) = cc_id_cookie (p_clearance p) \<or>
             ch_cookie (p_challenge p) = cc_id_cookie (p_clearance p)) (ClearanceErr CookieSame),
      fails (ch_ttl (p_challenge p) = 0 \<or> cc_ttl (p_clearance p) = 0) (ClearanceErr TTLZero),
      check_each 0 (\<lambda>_ b. fails (b \<notin> {BindNet, BindIP, BindUA}) (ClearanceErr (BindUnknown b)))
        (cc_bind (p_clearance p)),
      fails (hasBind p BindNet \<and> hasBind p BindIP) (ClearanceErr BindBoth),
      fails (cc_v4 (p_clearance p) < 0 \<or> cc_v4 (p_clearance p) > 32 \<or>
             cc_v6 (p_clearance p) < 0 \<or> cc_v6 (p_clearance p) > 128) (ClearanceErr SubnetRange),
      fails (ListEnabled (p_clearance p) \<and> contains_any (cc_list (p_clearance p)) '' .>*'')
        (ClearanceErr (ListName (cc_list (p_clearance p))))]"

definition fill_grace :: "profile \<Rightarrow> profile" where
  "fill_grace p =
     (if ListEnabled (p_clearance p) \<and> cc_grace (p_clearance p) \<le> 0
      then p\<lparr>p_clearance := (p_clearance p)\<lparr>cc_grace := 2 * Second\<rparr>\<rparr> else p)"

definition validate_tail :: "profile \<Rightarrow> profile_error option" where
  "validate_tail p = first_err
     [fails (ListEnabled (p_clearance p) \<and> cc_grace (p_clearance p) > 5 * Minute)
        (ClearanceErr (GraceLong (cc_grace (p_clearance p)))),
      fails (p_upstream_header p = []) HeaderEmpty,
      fails (rc_store (p_roster p) \<notin> {RosterRedis, RosterMemory}) (RosterStoreBad (rc_store (p_roster p))),
      fails (rc_prefix (p_roster p) = []) RosterPrefixEmpty]"

text \<open>\<open>Validate\<close> returns the error and leaves the profile it filled in.\<close>

definition ValidateProfile :: "profile \<Rightarrow> profile_error option \<times> profile" where
  "ValidateProfile p =
     (case validate_head p of
        Some e \<Rightarrow> (Some e, p)
      | None \<Rightarrow> (let p' = fill_grace p in (validate_tail p', p')))"

section \<open>What the checks establish\<close>

lemma check_verbs_None:
  "check_verbs vs = None \<longleftrightarrow> set vs \<subseteq> {AnyVerb, DoChallenge, DoThreshold, DoSkip, DoNote}"
  by (induction vs) auto

lemma validate_prior_any:
  assumes "validatePrior r = None" "pri_from r = AnyInspector"
  shows "set (pri_accept r) = {DoChallenge}"
proof -
  have ne: "pri_accept r \<noteq> []"
    and sub: "set (pri_accept r) \<subseteq> {AnyVerb, DoChallenge, DoThreshold, DoSkip, DoNote}"
    and no: "\<not> containsVerb (pri_accept r) AnyVerb" "\<not> Accepts r DoSkip" "\<not> Accepts r DoThreshold"
      "\<not> Accepts r DoNote"
    using assms by (simp_all add: validatePrior_def check_verbs_None)
  have "x = DoChallenge" if "x \<in> set (pri_accept r)" for x
    using that sub no by (auto simp: accepts_iff containsVerb_def list_ex_iff)
  with ne show ?thesis by (cases "pri_accept r") auto
qed

lemma validate_head_prior:
  assumes "validate_head p = None" "r \<in> set (tg_prior (p_trigger p))"
  shows "validatePrior r = None"
  using assms by (simp add: validate_head_def check_each_const)

lemma validate_head_rules:
  assumes "validate_head p = None" "r \<in> set (p_rules p)"
  shows "validateEventRule r = None"
  using assms by (simp add: validate_head_def check_each_const)

lemma validate_fill_grace: "validate_head (fill_grace p) = validate_head p"
proof -
  have pg: "validate_page (fill_grace p) = validate_page p"
    by (rule ext) (simp add: validate_page_def hasProvider_def ProviderRef_def fill_grace_def)
  have "validate_ref (fill_grace p) = validate_ref p"
    by (intro ext) (simp add: validate_ref_def External_def fill_grace_def)
  moreover have "Refs (fill_grace p) = Refs p" "p_provider (fill_grace p) = p_provider p"
    "p_fallback (fill_grace p) = p_fallback p"
    by (simp_all add: Refs_def fill_grace_def split: option.split)
  ultimately have pv: "validateProviders (fill_grace p) = validateProviders p"
    by (simp only: validateProviders_def)
  show ?thesis
    unfolding validate_head_def pg pv
    by (simp add: fill_grace_def hasBind_def ListEnabled_def)
qed

lemma fill_grace_idem [simp]: "fill_grace (fill_grace p) = fill_grace p"
  by (simp add: fill_grace_def ListEnabled_def)

lemma fill_grace_fixed:
  "fill_grace p = p \<longleftrightarrow> \<not> (ListEnabled (p_clearance p) \<and> cc_grace (p_clearance p) \<le> 0)"
proof
  assume eq: "fill_grace p = p"
  have "ListEnabled (p_clearance p) \<Longrightarrow> cc_grace (p_clearance p) \<le> 0 \<Longrightarrow>
      cc_grace (p_clearance (fill_grace p)) = 2 * Second"
    by (simp add: fill_grace_def)
  then show "\<not> (ListEnabled (p_clearance p) \<and> cc_grace (p_clearance p) \<le> 0)"
    unfolding eq by linarith
qed (simp add: fill_grace_def)

lemma validate_success:
  "ValidateProfile p = (None, q) \<longleftrightarrow>
     validate_head p = None \<and> q = fill_grace p \<and> validate_tail q = None"
  unfolding ValidateProfile_def Let_def by (cases "validate_head p") (simp, blast, simp)

lemma probe_fields:
  "p_mode (probeVariant q) = ModeEnforce" "tg_when (p_trigger (probeVariant q)) = WhenAlways"
  "tg_prior (p_trigger (probeVariant q)) = []" "p_pages (probeVariant q) = []"
  "p_buckets (probeVariant q) = p_buckets q" "p_rules (probeVariant q) = p_rules q"
  "g_redirect_status (p_gate (probeVariant q)) = g_redirect_status (p_gate q)"
  "g_deny_response (p_gate (probeVariant q)) = g_deny_response (p_gate q)"
  "g_redirect_methods (p_gate (probeVariant q)) = g_redirect_methods (p_gate q)"
  "p_provider (probeVariant q) = p_provider q" "p_fallback (probeVariant q) = p_fallback q"
  "p_provider_cfg (probeVariant q) = p_provider_cfg q"
  "p_challenge (probeVariant q) = p_challenge q" "p_clearance (probeVariant q) = p_clearance q"
  "p_upstream_header (probeVariant q) = p_upstream_header q" "p_roster (probeVariant q) = p_roster q"
  by (simp_all add: probeVariant_def)

lemma validated_self: "ValidateProfile p = (None, q) \<Longrightarrow> ValidateProfile q = (None, q)"
  by (auto simp: validate_success validate_fill_grace)

definition sample_profile :: profile where
  "sample_profile = (defaults ''sample'')
     \<lparr>p_path := ''/waf/captcha'',
      p_provider := \<lparr>pf_kind = ProviderImage, pf_length = 5, pf_audio = Some True\<rparr>,
      p_clearance := (p_clearance (defaults ''sample''))\<lparr>cc_list := ''captcha_clear''\<rparr>,
      p_trigger := \<lparr>tg_when = WhenBuckets,
         tg_prior = [\<lparr>pri_from = AnyInspector, pri_accept = [DoChallenge], pri_codes = []\<rparr>,
                     \<lparr>pri_from = ''geo'', pri_accept = [DoSkip, DoNote], pri_codes = []\<rparr>]\<rparr>\<rparr>"

text \<open>The sample is valid under any name.\<close>

lemma sample_named_valid:
  "ValidateProfile (sample_profile\<lparr>p_name := name\<rparr>) = (None, fill_grace (sample_profile\<lparr>p_name := name\<rparr>))"
proof -
  have tier: "validate_tier zero_tier = None" by (simp add: validate_tier_def zero_tier_def)
  have up: "to_upper ''GET'' = ''GET''" "to_upper ''HEAD'' = ''HEAD''"
    by (simp_all add: to_upper_def upper_char_def byte_of_def)
  have "validate_head (sample_profile\<lparr>p_name := name\<rparr>) = None"
    unfolding validate_head_def sample_profile_def defaults_def
    by (simp add: tier up validateWhen_def validateBuckets_def validatePrior_def containsVerb_def
        Accepts_def validateProviders_def Refs_def validate_ref_def hasBind_def ListEnabled_def
        has_prefix_def contains_any_def Let_def)
  moreover have "validate_tail (fill_grace (sample_profile\<lparr>p_name := name\<rparr>)) = None"
    by (simp add: validate_tail_def fill_grace_def sample_profile_def defaults_def ListEnabled_def
        Let_def)
  ultimately show ?thesis by (simp add: validate_success)
qed

lemma sample_valid: "ValidateProfile sample_profile = (None, fill_grace sample_profile)"
proof -
  have "sample_profile\<lparr>p_name := ''sample''\<rparr> = sample_profile"
    by (simp add: sample_profile_def defaults_def Let_def)
  then show ?thesis using sample_named_valid [of "''sample''"] by (simp only:)
qed

lemma probe_validates:
  assumes "ValidateProfile p = (None, q)"
  shows "ValidateProfile q = (None, q) \<and> ValidateProfile (probeVariant q) = (None, probeVariant q)"
proof -
  note q = validated_self [OF assms]
  then have h: "validate_head q = None" and fg: "fill_grace q = q" and t: "validate_tail q = None"
    by (simp_all add: validate_success)
  have "validate_ref (probeVariant q) = validate_ref q"
    by (intro ext) (simp add: validate_ref_def External_def probe_fields)
  then have pv: "validateProviders (probeVariant q) = validateProviders q"
    by (simp only: validateProviders_def Refs_def probe_fields)
  have "p_path q \<noteq> [] \<Longrightarrow> has_prefix (p_path q) ''/'' \<and> \<not> contains_any (p_path q) ''?#''"
    using h by (simp add: validate_head_def)
  then have path: "has_prefix (p_path (probeVariant q)) ''/''"
      "\<not> contains_any (p_path (probeVariant q)) ''?#''" "p_path (probeVariant q) \<noteq> []"
    by (auto simp: probeVariant_def has_prefix_def contains_any_def)
  have "validate_head (probeVariant q) = None"
    using h path
    unfolding validate_head_def pv hasBind_def probe_fields first_err_Cons_None fails_None
      validateWhen_def
    by (simp only: check_each.simps first_err.simps simp_thms if_False if_True insert_iff empty_iff
        fails_def option.case)
  moreover have "fill_grace (probeVariant q) = probeVariant q"
    using fg by (simp add: fill_grace_fixed probe_fields)
  moreover have "validate_tail (probeVariant q) = None"
    using t by (simp add: validate_tail_def probe_fields)
  ultimately show ?thesis using q by (simp add: validate_success)
qed

section \<open>Properties\<close>

text \<open>Validation is stable and closed under the probe. A profile that passed validates again
  without change, so a reload cannot reject what is in use; and the probe's variant of it, which
  the store publishes without validating it, would pass unchanged too.\<close>

theorem validate_stable:
  assumes "ValidateProfile p = (None, q)"
  shows "ValidateProfile q = (None, q) \<and> ValidateProfile (probeVariant q) = (None, probeVariant q)"
  using assms by (rule probe_validates)

theorem validate_stable_witness:
  "ValidateProfile (probeVariant (fill_grace sample_profile)) =
     (None, probeVariant (fill_grace sample_profile))"
  using validate_stable [OF sample_valid] by blast

text \<open>The bounds of the buckets. After validation every tier that is switched on has a leak of
  at most 100 percent per second and a challenge threshold between 0 and 100; a ban threshold
  never exceeds 100 and, where both are set, never lies below the challenge threshold.\<close>

theorem validated_tiers:
  assumes "ValidateProfile p = (None, q)" "knownBucket kind"
  defines "t \<equiv> bucket_tier_of (p_buckets q) kind"
  shows "0 \<le> bt_max t \<and> (tier_enabled t \<longrightarrow> 0 < bt_loss t \<and> bt_loss t \<le> 100) \<and>
     0 \<le> bt_captcha_at t \<and> bt_captcha_at t \<le> 100 \<and> bt_ban_at t \<le> 100 \<and>
     (0 < bt_captcha_at t \<and> bt_ban_at t \<noteq> 0 \<longrightarrow> bt_captcha_at t \<le> bt_ban_at t)"
proof -
  have "validate_head q = None" using validated_self [OF assms(1)] by (simp add: validate_success)
  then have b: "validateBuckets (p_buckets q) = None" by (simp add: validate_head_def)
  have "kind \<in> set bucketKinds" using assms(2) by (simp add: knownBucket_def list_ex_iff)
  with b have "validate_tier t = None"
    unfolding t_def validateBuckets_def bucket_tier_of_def by auto
  then show ?thesis
    by (auto simp: validate_tier_def tier_enabled_def split: if_splits)
qed

theorem validated_tiers_witness:
  "bt_captcha_at (bucket_tier_of (p_buckets (fill_grace sample_profile)) ''sess'') \<le> 100"
  using validated_tiers [OF sample_valid, of "''sess''"] by (simp add: knownBucket_def)

text \<open>What the error text of the ban check promises (\<open>ban_at must be 0 or captcha_at..100\<close>)
  is not what it enforces: with \<open>captcha_at\<close> unset, every negative \<open>ban_at\<close> passes.\<close>

theorem negative_ban_at_passes:
  "validate_tier \<lparr>bt_max = 10, bt_loss = 5, bt_captcha_at = 0, bt_ban_at = b\<rparr> = None \<longleftrightarrow> b \<le> 100"
  by (auto simp: validate_tier_def)

end
