(* ===== verification/Buckets.thy ===== *)
theory Buckets
  imports Go_Float "HOL-Library.Product_Lexorder"
begin

text \<open>
  Package \<open>internal/buckets\<close>: leaky buckets, kept in Redis or in a local ledger. A bucket is one
  number: the score plus \<open>rate * epoch(now)\<close>, so that it leaks by itself as time passes.

  Floating point is taken with the rounding \<open>rd\<close> as an argument (the code is \<open>f64\<close>). The Redis
  server is not part of the repository: the commands the code sends are values, and the replies
  are arguments of the function that reads them.
\<close>

section \<open>Data\<close>

abbreviation "KindIP \<equiv> ''ip''"
abbreviation "KindSess \<equiv> ''sess''"
abbreviation "KindNet \<equiv> ''asn_net''"
abbreviation "KindRouter \<equiv> ''asn_router''"

record tier =
  ti_max :: float64
  ti_loss :: float64

type_synonym tiers = "(string, tier) gomap"

text \<open>\<open>Ref\<close>: the kind and the key of a bucket.\<close>

type_synonym bref = "string \<times> string"

record charge =
  cg_ref :: bref
  cg_add :: float64

record level =
  lv_ref :: bref
  lv_score :: float64
  lv_percent :: float64

definition tier_of :: "tiers \<Rightarrow> string \<Rightarrow> tier" where
  "tier_of ts kind = map_get ts kind \<lparr>ti_max = 0, ti_loss = 0\<rparr>"

definition bucket_enabled :: "tier \<Rightarrow> bool" where
  "bucket_enabled t \<longleftrightarrow> ti_max t > 0 \<and> ti_loss t > 0"

definition ratePerSec :: "(rat \<Rightarrow> rat) \<Rightarrow> tier \<Rightarrow> float64" where
  "ratePerSec rd t = rd (rd (ti_loss t / 100) * ti_max t)"

definition lifetime :: "(rat \<Rightarrow> rat) \<Rightarrow> tier \<Rightarrow> duration" where
  "lifetime rd t =
     (if \<not> bucket_enabled t then 0 else float_to_int (rd (rd (100 / ti_loss t) * of_int Second)))"

definition clamp :: "float64 \<Rightarrow> float64 \<Rightarrow> float64 \<Rightarrow> float64" where
  "clamp v lo hi = (if v < lo then lo else if v > hi then hi else v)"

text \<open>\<open>time.Date(2024, 1, 1, ...)\<close> is second 1704067200; \<open>epoch\<close> is measured from there.\<close>

definition epochStart :: go_time where
  "epochStart = from_unix 1704067200"

definition epoch :: "(rat \<Rightarrow> rat) \<Rightarrow> go_time \<Rightarrow> float64" where
  "epoch rd now = seconds_of rd (now - epochStart)"

definition bucket_base :: "(rat \<Rightarrow> rat) \<Rightarrow> tier \<Rightarrow> go_time \<Rightarrow> float64" where
  "bucket_base rd t now = rd (ratePerSec rd t * epoch rd now)"

definition level_of :: "(rat \<Rightarrow> rat) \<Rightarrow> bref \<Rightarrow> tier \<Rightarrow> float64 \<Rightarrow> level" where
  "level_of rd ref t effective =
     \<lparr>lv_ref = ref, lv_score = effective,
      lv_percent = (if ti_max t > 0 then rd (rd (effective / ti_max t) * 100) else 0)\<rparr>"

definition bucket_key :: "string \<Rightarrow> string \<Rightarrow> bref \<Rightarrow> string" where
  "bucket_key prefix profile ref = prefix @ profile @ '':'' @ fst ref @ '':'' @ snd ref"

definition IPKey :: "string \<Rightarrow> string" where
  "IPKey addr =
     (if addr = [] then []
      else if str_contains addr '':'' then addr @ ''/128''
      else addr @ ''/32'')"

section \<open>Which buckets a call touches\<close>

definition ref_add :: "tiers \<Rightarrow> bref list \<Rightarrow> bref \<Rightarrow> bref list" where
  "ref_add ts out r =
     (if \<not> bucket_enabled (tier_of ts (fst r)) \<or> snd r = [] then out
      else if r \<in> set out then out
      else out @ [r])"

text \<open>\<open>sort.Slice\<close> by kind, then by key: the lexicographic order of pairs of byte strings. The
  elements are distinct, so the sort has one result.\<close>

definition refUnion :: "charge list \<Rightarrow> bref list \<Rightarrow> tiers \<Rightarrow> bref list" where
  "refUnion charges reads ts =
     sort (foldl (ref_add ts) (foldl (ref_add ts) [] (map cg_ref charges)) reads)"

definition sum_charges :: "(rat \<Rightarrow> rat) \<Rightarrow> charge list \<Rightarrow> (bref, float64) gomap" where
  "sum_charges rd charges =
     foldl (\<lambda>m c. AList.update (cg_ref c) (rd (map_get m (cg_ref c) 0 + cg_add c)) m) [] charges"

section \<open>The local ledger\<close>

abbreviation defaultLocalMax :: nat where "defaultLocalMax \<equiv> 100000"

record ledger =
  lg_max :: nat
  lg_m :: "(string, float64) gomap"

definition local_step ::
    "(rat \<Rightarrow> rat) \<Rightarrow> (bref \<Rightarrow> string) \<Rightarrow> tiers \<Rightarrow> (bref, float64) gomap \<Rightarrow> go_time \<Rightarrow>
     (string, float64) gomap \<Rightarrow> bref \<Rightarrow> level \<times> (string, float64) gomap" where
  "local_step rd key ts sm now m ref =
     (let t = tier_of ts (fst ref); base = bucket_base rd t now; stored = map_of m (key ref);
          eff = (case stored of Some s \<Rightarrow> clamp (rd (s - base)) 0 (ti_max t) | None \<Rightarrow> 0)
      in case map_of sm ref of
           Some delta \<Rightarrow>
             let eff = clamp (rd (eff + delta)) 0 (ti_max t)
             in (level_of rd ref t eff, AList.update (key ref) (rd (eff + base)) m)
         | None \<Rightarrow>
             (level_of rd ref t eff,
              if stored \<noteq> None \<and> eff \<le> 0 then AList.delete (key ref) m else m))"

fun local_loop ::
    "(rat \<Rightarrow> rat) \<Rightarrow> (bref \<Rightarrow> string) \<Rightarrow> tiers \<Rightarrow> (bref, float64) gomap \<Rightarrow> go_time \<Rightarrow>
     bref list \<Rightarrow> (string, float64) gomap \<Rightarrow> level list \<times> (string, float64) gomap" where
  "local_loop rd key ts sm now [] m = ([], m)"
| "local_loop rd key ts sm now (r # rs) m =
     (let (l, m1) = local_step rd key ts sm now m r;
          (ls, m2) = local_loop rd key ts sm now rs m1
      in (l # ls, m2))"

text \<open>The eviction loop: \<open>order\<close> is the order Go's map iteration takes.\<close>

fun evict_loop :: "nat \<Rightarrow> string list \<Rightarrow> (string, float64) gomap \<Rightarrow> (string, float64) gomap" where
  "evict_loop half [] m = m"
| "evict_loop half (k # ks) m =
     (let m' = AList.delete k m in if length m' \<le> half then m' else evict_loop half ks m')"

definition evict :: "nat \<Rightarrow> string list \<Rightarrow> (string, float64) gomap \<Rightarrow> (string, float64) gomap" where
  "evict limit order m = (if length m > limit then evict_loop (limit div 2) order m else m)"

definition applyLocal ::
    "(rat \<Rightarrow> rat) \<Rightarrow> string list \<Rightarrow> (bref \<Rightarrow> string) \<Rightarrow> tiers \<Rightarrow> charge list \<Rightarrow> bref list \<Rightarrow>
     go_time \<Rightarrow> ledger \<Rightarrow> level list \<times> ledger" where
  "applyLocal rd order key ts charges refs now lg =
     (let (ls, m) = local_loop rd key ts (sum_charges rd charges) now refs (lg_m lg)
      in (ls, lg\<lparr>lg_m := evict (lg_max lg) order m\<rparr>))"

section \<open>Redis\<close>

datatype redis_cmd =
    SetNX string float64 duration
  | IncrByFloat string float64
  | PExpire string duration
  | GetFloat string
  | SetKey string float64 duration

text \<open>The first pipeline: what is sent for one bucket.\<close>

definition redis_request ::
    "(rat \<Rightarrow> rat) \<Rightarrow> (bref \<Rightarrow> string) \<Rightarrow> tiers \<Rightarrow> (bref, float64) gomap \<Rightarrow> go_time \<Rightarrow> bref \<Rightarrow>
     redis_cmd list" where
  "redis_request rd key ts sm now ref =
     (let t = tier_of ts (fst ref)
      in case map_of sm ref of
           Some delta \<Rightarrow> [SetNX (key ref) (bucket_base rd t now) (lifetime rd t),
                          IncrByFloat (key ref) delta,
                          PExpire (key ref) (lifetime rd t)]
         | None \<Rightarrow> [GetFloat (key ref)])"

text \<open>What is made of the reply to one bucket (\<open>None\<close>: the command failed, or the key is
  missing): the level, and the corrected value to store, if any.\<close>

definition redis_result ::
    "(rat \<Rightarrow> rat) \<Rightarrow> tiers \<Rightarrow> (bref, float64) gomap \<Rightarrow> go_time \<Rightarrow> bref \<Rightarrow> float64 option \<Rightarrow>
     level \<times> float64 option" where
  "redis_result rd ts sm now ref reply =
     (let t = tier_of ts (fst ref); base = bucket_base rd t now
      in case reply of
           None \<Rightarrow> (\<lparr>lv_ref = ref, lv_score = 0, lv_percent = 0\<rparr>, None)
         | Some raw \<Rightarrow>
             let eff = rd (raw - base); charged = (map_of sm ref \<noteq> None);
                 delta = map_get sm ref 0
             in if charged \<and> eff < delta
                then let eff = clamp delta 0 (ti_max t)
                     in (level_of rd ref t eff, Some (rd (base + eff)))
                else if eff > ti_max t
                then (level_of rd ref t (ti_max t),
                      if charged then Some (rd (base + ti_max t)) else None)
                else if eff < 0 then (level_of rd ref t 0, None)
                else (level_of rd ref t eff, None))"

definition redis_fix ::
    "(rat \<Rightarrow> rat) \<Rightarrow> (bref \<Rightarrow> string) \<Rightarrow> tiers \<Rightarrow> bref \<Rightarrow> float64 option \<Rightarrow> redis_cmd list" where
  "redis_fix rd key ts ref fixed =
     (case fixed of
        None \<Rightarrow> []
      | Some v \<Rightarrow> [SetKey (key ref) v (lifetime rd (tier_of ts (fst ref)))])"

text \<open>\<open>exec1\<close> and \<open>exec2\<close> are the two pipelines: the first answers with a value per bucket or
  with an error other than \<open>redis.Nil\<close>; the second only succeeds or fails. The result carries
  the commands sent.\<close>

definition applyRedis ::
    "(rat \<Rightarrow> rat) \<Rightarrow> (redis_cmd list list \<Rightarrow> float64 option list option) \<Rightarrow>
     (redis_cmd list \<Rightarrow> bool) \<Rightarrow> (bref \<Rightarrow> string) \<Rightarrow> tiers \<Rightarrow> charge list \<Rightarrow> bref list \<Rightarrow> go_time \<Rightarrow>
     level list option \<times> redis_cmd list" where
  "applyRedis rd exec1 exec2 key ts charges refs now =
     (let sm = sum_charges rd charges;
          reqs = map (redis_request rd key ts sm now) refs
      in case exec1 reqs of
           None \<Rightarrow> (None, concat reqs)
         | Some replies \<Rightarrow>
             let results = map2 (redis_result rd ts sm now) refs replies;
                 fixes = concat (map2 (\<lambda>ref r. redis_fix rd key ts ref (snd r)) refs results)
             in if fixes = [] then (Some (map fst results), concat reqs)
                else if exec2 fixes then (Some (map fst results), concat reqs @ fixes)
                else (None, concat reqs @ fixes))"

section \<open>Apply\<close>

text \<open>Either backend; \<open>None\<close> in the result is the error of the Redis backend.\<close>

datatype backend =
    Local
  | RedisClient "redis_cmd list list \<Rightarrow> float64 option list option" "redis_cmd list \<Rightarrow> bool"

definition live_charges :: "tiers \<Rightarrow> charge list \<Rightarrow> charge list" where
  "live_charges ts charges =
     filter (\<lambda>c. bucket_enabled (tier_of ts (fst (cg_ref c))) \<and> cg_add c \<noteq> 0) charges"

definition Apply ::
    "(rat \<Rightarrow> rat) \<Rightarrow> backend \<Rightarrow> string list \<Rightarrow> string \<Rightarrow> string \<Rightarrow> tiers \<Rightarrow> charge list \<Rightarrow> bref list \<Rightarrow>
     go_time \<Rightarrow> ledger \<Rightarrow> level list option \<times> ledger" where
  "Apply rd be order prefix profile ts charges reads now lg =
     (let live = live_charges ts charges; refs = refUnion live reads ts;
          key = bucket_key prefix profile
      in if refs = [] then (Some [], lg)
         else case be of
           Local \<Rightarrow> (let (ls, lg') = applyLocal rd order key ts live refs now lg in (Some ls, lg'))
         | RedisClient exec1 exec2 \<Rightarrow>
             (fst (applyRedis rd exec1 exec2 key ts live refs now), lg))"

section \<open>Lemmas\<close>

lemma clamp_range: "lo \<le> hi \<Longrightarrow> lo \<le> clamp v lo hi \<and> clamp v lo hi \<le> hi"
  by (auto simp: clamp_def)

lemma clamp_id: "lo \<le> v \<Longrightarrow> v \<le> hi \<Longrightarrow> clamp v lo hi = v"
  by (auto simp: clamp_def)

lemma ref_add_set:
  "set (ref_add ts out r) =
     set out \<union> (if bucket_enabled (tier_of ts (fst r)) \<and> snd r \<noteq> [] then {r} else {})"
  by (auto simp: ref_add_def)

lemma ref_add_distinct: "distinct out \<Longrightarrow> distinct (ref_add ts out r)"
  by (simp add: ref_add_def)

lemma ref_adds:
  "set (foldl (ref_add ts) out rs) =
     set out \<union> {r \<in> set rs. bucket_enabled (tier_of ts (fst r)) \<and> snd r \<noteq> []}"
  "distinct out \<Longrightarrow> distinct (foldl (ref_add ts) out rs)"
  by (induction rs arbitrary: out) (auto simp: ref_add_set ref_add_distinct)

lemma refUnion_set:
  "set (refUnion charges reads ts) =
     {r \<in> cg_ref ` set charges \<union> set reads. bucket_enabled (tier_of ts (fst r)) \<and> snd r \<noteq> []}"
  by (auto simp: refUnion_def ref_adds)

lemma refUnion_distinct: "distinct (refUnion charges reads ts)"
  by (simp add: refUnion_def ref_adds)

lemma refUnion_sorted: "sorted (refUnion charges reads ts)"
  by (simp add: refUnion_def)

lemma local_loop_fst [simp]:
  "fst (local_loop rd key ts sm now [] m) = []"
  "fst (local_loop rd key ts sm now (r # rs) m) =
     fst (local_step rd key ts sm now m r) #
     fst (local_loop rd key ts sm now rs (snd (local_step rd key ts sm now m r)))"
  by (simp_all add: Let_def split: prod.split)

lemma local_loop_snd [simp]:
  "snd (local_loop rd key ts sm now [] m) = m"
  "snd (local_loop rd key ts sm now (r # rs) m) =
     snd (local_loop rd key ts sm now rs (snd (local_step rd key ts sm now m r)))"
  by (simp_all add: Let_def split: prod.split)

declare local_loop.simps [simp del]

lemma local_step_ref: "lv_ref (fst (local_step rd key ts sm now m r)) = r"
  by (simp add: local_step_def level_of_def Let_def split: option.split)

lemma local_loop_refs: "map lv_ref (fst (local_loop rd key ts sm now rs m)) = rs"
  by (induction rs arbitrary: m) (auto simp: local_step_ref)

lemma redis_result_ref: "lv_ref (fst (redis_result rd ts sm now ref reply)) = ref"
  by (simp add: redis_result_def level_of_def Let_def split: option.split)

lemma apply_local_levels:
  "fst (Apply rd Local order prefix profile ts charges reads now lg) =
     Some (fst (local_loop rd (bucket_key prefix profile) ts
       (sum_charges rd (live_charges ts charges)) now
       (refUnion (live_charges ts charges) reads ts) (lg_m lg)))"
  by (simp add: Apply_def applyLocal_def Let_def split: prod.split)

lemma apply_local_ledger:
  "snd (Apply rd Local order prefix profile ts charges reads now lg) =
     (let refs = refUnion (live_charges ts charges) reads ts
      in if refs = [] then lg
         else lg\<lparr>lg_m := evict (lg_max lg) order
           (snd (local_loop rd (bucket_key prefix profile) ts
             (sum_charges rd (live_charges ts charges)) now refs (lg_m lg)))\<rparr>)"
  by (simp add: Apply_def applyLocal_def Let_def split: prod.split)

text \<open>A level within its bucket: the score within the capacity, the percentage within 0..100.\<close>

definition level_ok :: "tiers \<Rightarrow> level \<Rightarrow> bool" where
  "level_ok ts l \<longleftrightarrow> 0 \<le> lv_score l \<and> lv_score l \<le> ti_max (tier_of ts (fst (lv_ref l))) \<and>
     0 \<le> lv_percent l \<and> lv_percent l \<le> 100"

context rounding
begin

lemma level_of_ok:
  assumes "0 \<le> eff" "eff \<le> ti_max (tier_of ts (fst ref))"
  shows "level_ok ts (level_of rd ref (tier_of ts (fst ref)) eff)"
  using assms rd_percent [OF assms] by (auto simp: level_ok_def level_of_def)

lemma local_step_ok:
  assumes "0 \<le> ti_max (tier_of ts (fst ref))"
  shows "level_ok ts (fst (local_step rd key ts sm now m ref))"
  unfolding local_step_def Let_def
  by (auto split: option.split intro!: level_of_ok simp: clamp_range assms)

lemma local_loop_ok:
  assumes "\<forall>r \<in> set rs. 0 \<le> ti_max (tier_of ts (fst r))"
  shows "\<forall>l \<in> set (fst (local_loop rd key ts sm now rs m)). level_ok ts l"
  using assms
proof (induction rs arbitrary: m)
  case (Cons r rs)
  have "level_ok ts (fst (local_step rd key ts sm now m r))"
    using Cons.prems by (intro local_step_ok) simp
  with Cons show ?case by simp
qed simp

lemma redis_result_ok:
  assumes "0 \<le> ti_max (tier_of ts (fst ref))"
  shows "level_ok ts (fst (redis_result rd ts sm now ref reply))"
proof (cases reply)
  case None
  then show ?thesis using assms by (simp add: redis_result_def level_ok_def)
next
  case (Some raw)
  then show ?thesis
    using assms clamp_range [OF assms]
    by (auto simp: redis_result_def Let_def intro!: level_of_ok)
qed

lemma applyRedis_ok:
  assumes "\<forall>r \<in> set refs. 0 \<le> ti_max (tier_of ts (fst r))"
    and "fst (applyRedis rd exec1 exec2 key ts charges refs now) = Some ls"
  shows "\<forall>l \<in> set ls. level_ok ts l"
proof -
  obtain sm replies where "ls = map fst (map2 (redis_result rd ts sm now) refs replies)"
    using assms(2) unfolding applyRedis_def Let_def by (auto split: option.splits if_splits)
  moreover have "level_ok ts (fst (redis_result rd ts sm now ref reply))"
    if "(ref, reply) \<in> set (zip refs replies)" for ref reply
    using set_zip_leftD [OF that] assms(1) by (intro redis_result_ok) simp
  ultimately show ?thesis by auto
qed

lemma apply_ok:
  assumes "fst (Apply rd be order prefix profile ts charges reads now lg) = Some ls"
  shows "\<forall>l \<in> set ls. level_ok ts l"
proof -
  let ?refs = "refUnion (live_charges ts charges) reads ts"
  have en: "\<forall>r \<in> set ?refs. 0 \<le> ti_max (tier_of ts (fst r))"
    by (auto simp: refUnion_set bucket_enabled_def)
  show ?thesis
  proof (cases be)
    case Local
    then show ?thesis
      using assms local_loop_ok [OF en] by (auto simp: apply_local_levels)
  next
    case (RedisClient exec1 exec2)
    then show ?thesis
      using assms applyRedis_ok [OF en] by (auto simp: Apply_def Let_def split: if_splits)
  qed
qed

end

text \<open>Eviction.\<close>

lemma evict_loop_bound:
  assumes "\<forall>k \<in> fst ` set m. k \<in> set order"
  shows "length (evict_loop half order m) \<le> half \<or> evict_loop half order m = []"
  using assms
proof (induction order arbitrary: m)
  case Nil
  then show ?case by simp
next
  case (Cons k ks)
  have "\<forall>k' \<in> fst ` set (AList.delete k m). k' \<in> set ks"
    using Cons.prems by (auto simp: AList.delete_eq)
  then show ?case using Cons.IH [of "AList.delete k m"] by (simp add: Let_def)
qed

lemma evict_bound:
  assumes "\<forall>k \<in> fst ` set m. k \<in> set order"
  shows "length (evict limit order m) \<le> limit"
  using evict_loop_bound [OF assms, of "limit div 2"] by (auto simp: evict_def)

section \<open>The abstract leaky bucket\<close>

text \<open>In exact arithmetic a stored number stands for a fill between 0 and the capacity; a charge is
  added and the result cut to that range. Time only lowers the fill.\<close>

abbreviation (input) exact_rd :: "rat \<Rightarrow> rat" where "exact_rd \<equiv> \<lambda>x. x"

definition fill_of :: "tier \<Rightarrow> go_time \<Rightarrow> float64 option \<Rightarrow> float64" where
  "fill_of t now stored =
     (case stored of None \<Rightarrow> 0 | Some s \<Rightarrow> clamp (s - bucket_base exact_rd t now) 0 (ti_max t))"

definition pour :: "tier \<Rightarrow> float64 option \<Rightarrow> float64 \<Rightarrow> float64" where
  "pour t delta v = (case delta of None \<Rightarrow> v | Some d \<Rightarrow> clamp (v + d) 0 (ti_max t))"

lemma fill_range: "0 \<le> ti_max t \<Longrightarrow> 0 \<le> fill_of t now st \<and> fill_of t now st \<le> ti_max t"
  by (simp add: fill_of_def clamp_range split: option.split)

lemma pour_range:
  "0 \<le> ti_max t \<Longrightarrow> 0 \<le> v \<Longrightarrow> v \<le> ti_max t \<Longrightarrow> 0 \<le> pour t d v \<and> pour t d v \<le> ti_max t"
  by (simp add: pour_def clamp_range split: option.split)

lemma seconds_exact: "seconds_of exact_rd d = of_int d / 1000000000"
proof -
  define q where "q = quot d Second"
  have "(of_int d :: rat) = of_int (q * Second + (d - q * Second))" by simp
  then have "(of_int d :: rat) = of_int q * 1000000000 + of_int (d - q * Second)"
    by (simp only: of_int_add of_int_mult of_int_numeral)
  then show ?thesis
    unfolding seconds_of_def q_def [symmetric] Let_def by (simp add: field_simps)
qed

lemma base_exact:
  "bucket_base exact_rd t now =
     ti_loss t / 100 * ti_max t * (of_int (now - epochStart) / 1000000000)"
  by (simp add: bucket_base_def ratePerSec_def epoch_def seconds_exact)

lemma base_mono:
  assumes "bucket_enabled t" "now \<le> now'"
  shows "bucket_base exact_rd t now \<le> bucket_base exact_rd t now'"
  unfolding base_exact using assms
  by (intro mult_left_mono divide_right_mono) (auto simp: bucket_enabled_def)

text \<open>One bucket in the ledger.\<close>

lemma local_step_refines:
  fixes key :: "bref \<Rightarrow> string" and m :: "(string, float64) gomap"
    and sm :: "(bref, float64) gomap" and now :: go_time
  assumes "0 \<le> ti_max (tier_of ts (fst ref))"
  defines "t \<equiv> tier_of ts (fst ref)"
  defines "v \<equiv> pour t (map_of sm ref) (fill_of t now (map_of m (key ref)))"
  defines "r \<equiv> local_step exact_rd key ts sm now m ref"
  shows "fst r = level_of exact_rd ref t v" "fill_of t now (map_of (snd r) (key ref)) = v"
    "k \<noteq> key ref \<Longrightarrow> map_of (snd r) k = map_of m k"
proof -
  have t: "0 \<le> ti_max t" using assms(1) by (simp add: t_def)
  let ?f = "fill_of t now (map_of m (key ref))"
  note fr = fill_range [OF t, of now "map_of m (key ref)"]
  have f: "(case map_of m (key ref) of None \<Rightarrow> 0
      | Some s \<Rightarrow> clamp (s - bucket_base exact_rd t now) 0 (ti_max t)) = ?f"
    by (simp add: fill_of_def split: option.split)
  show "fst r = level_of exact_rd ref t v"
    unfolding r_def local_step_def Let_def t_def [symmetric] v_def pour_def f
    by (simp split: option.split)
  show "fill_of t now (map_of (snd r) (key ref)) = v"
  proof (cases "map_of sm ref")
    case None
    have s: "snd r = (if map_of m (key ref) \<noteq> None \<and> ?f \<le> 0 then AList.delete (key ref) m else m)"
      unfolding r_def local_step_def Let_def t_def [symmetric] None f by (simp add: None)
    show ?thesis
    proof (cases "map_of m (key ref) \<noteq> None \<and> ?f \<le> 0")
      case True
      then have "?f = 0" using fr by linarith
      moreover have "map_of (snd r) (key ref) = None" using s True by (simp add: delete_conv')
      ultimately show ?thesis by (simp add: v_def pour_def None fill_of_def)
    next
      case False
      then have "snd r = m" using s by (simp only: if_False)
      then show ?thesis by (simp add: v_def pour_def None)
    qed
  next
    case (Some d)
    have v: "v = clamp (?f + d) 0 (ti_max t)" by (simp add: v_def pour_def Some)
    have "snd r = AList.update (key ref) (v + bucket_base exact_rd t now) m"
      unfolding r_def local_step_def Let_def t_def [symmetric] Some option.case f v by (simp add: Some)
    then show ?thesis using v clamp_range [OF t] by (simp add: fill_of_def update_conv' clamp_id)
  qed
  show "k \<noteq> key ref \<Longrightarrow> map_of (snd r) k = map_of m k"
    unfolding r_def local_step_def Let_def
    by (auto simp: update_conv' delete_conv' split: option.split)
qed

lemma local_loop_refines:
  assumes "\<forall>r \<in> set rs. 0 \<le> ti_max (tier_of ts (fst r))" "distinct rs" "inj_on key (set rs)"
  shows "fst (local_loop exact_rd key ts sm now rs m) =
     map (\<lambda>r. level_of exact_rd r (tier_of ts (fst r))
       (pour (tier_of ts (fst r)) (map_of sm r) (fill_of (tier_of ts (fst r)) now (map_of m (key r))))) rs"
  using assms
proof (induction rs arbitrary: m)
  case Nil
  then show ?case by simp
next
  case (Cons r rs)
  let ?m = "snd (local_step exact_rd key ts sm now m r)"
  have r: "0 \<le> ti_max (tier_of ts (fst r))" using Cons.prems(1) by simp
  have "map_of ?m (key r') = map_of m (key r')" if "r' \<in> set rs" for r'
    using Cons.prems(2,3) that by (intro local_step_refines(3) [OF r]) (auto simp: inj_on_def)
  with Cons show ?case by (simp add: local_step_refines(1) [OF r])
qed

text \<open>One bucket in Redis. The number stored never stands above the capacity, and the pipeline's
  reply to a charged bucket is the stored number (or the base, where there was none) plus the
  charge; what is stored afterwards is the correction, where one is sent.\<close>

definition redis_raw :: "tier \<Rightarrow> go_time \<Rightarrow> float64 option \<Rightarrow> float64 option \<Rightarrow> float64 option" where
  "redis_raw t now delta stored =
     (case delta of
        None \<Rightarrow> stored
      | Some d \<Rightarrow> Some ((case stored of None \<Rightarrow> bucket_base exact_rd t now | Some s \<Rightarrow> s) + d))"

definition redis_bounded :: "tier \<Rightarrow> go_time \<Rightarrow> float64 option \<Rightarrow> bool" where
  "redis_bounded t now stored \<longleftrightarrow>
     (case stored of None \<Rightarrow> True | Some s \<Rightarrow> s - bucket_base exact_rd t now \<le> ti_max t)"

lemma redis_bounded_later:
  "redis_bounded t now st \<Longrightarrow> bucket_enabled t \<Longrightarrow> now \<le> now' \<Longrightarrow> redis_bounded t now' st"
  using base_mono [of t now now'] by (auto simp: redis_bounded_def split: option.splits)

lemma redis_result_refines:
  fixes sm :: "(bref, float64) gomap" and now :: go_time and st :: "float64 option"
  assumes "bucket_enabled (tier_of ts (fst ref))"
    and "redis_bounded (tier_of ts (fst ref)) now st"
  defines "t \<equiv> tier_of ts (fst ref)"
  defines "raw \<equiv> redis_raw t now (map_of sm ref) st"
  defines "v \<equiv> pour t (map_of sm ref) (fill_of t now st)"
  defines "r \<equiv> redis_result exact_rd ts sm now ref raw"
  defines "st' \<equiv> (case snd r of None \<Rightarrow> raw | Some x \<Rightarrow> Some x)"
  shows "fst r = level_of exact_rd ref t v" "fill_of t now st' = v" "redis_bounded t now st'"
proof -
  have t: "0 < ti_max t" using assms(1) by (simp add: t_def bucket_enabled_def)
  note defs = r_def raw_def v_def st'_def redis_raw_def redis_result_def fill_of_def pour_def
    clamp_def redis_bounded_def level_of_def map_get_def
  show "fst r = level_of exact_rd ref t v"
    using t assms(2) unfolding defs t_def [symmetric] Let_def
    by (cases st; cases "map_of sm ref") auto
  show "fill_of t now st' = v"
    using t assms(2) unfolding defs t_def [symmetric] Let_def
    by (cases st; cases "map_of sm ref") auto
  show "redis_bounded t now st'"
    using t assms(2) unfolding defs t_def [symmetric] Let_def
    by (cases st; cases "map_of sm ref") auto
qed

text \<open>Time lowers a fill by the leak, and by nothing else.\<close>

lemma fill_leaks:
  assumes "bucket_enabled t" "now \<le> now'" "redis_bounded t now st"
  shows "fill_of t now' st =
     max 0 (case st of None \<Rightarrow> 0 | Some s \<Rightarrow> s - bucket_base exact_rd t now
              - ti_loss t / 100 * ti_max t * (of_int (now' - now) / 1000000000))"
proof (cases st)
  case None
  then show ?thesis by (simp add: fill_of_def)
next
  case (Some s)
  have b: "bucket_base exact_rd t now' - bucket_base exact_rd t now =
      ti_loss t / 100 * ti_max t * (of_int (now' - now) / 1000000000)"
    unfolding base_exact by (simp add: field_simps)
  have "s - bucket_base exact_rd t now' \<le> ti_max t"
    using redis_bounded_later [OF assms(3,1,2)] Some by (simp add: redis_bounded_def)
  then show ?thesis
    unfolding Some fill_of_def option.case b [symmetric] clamp_def by auto
qed

section \<open>Interchangeable backends\<close>

text \<open>What \<open>Apply\<close> needs of the store behind it, whichever it is: the levels it returns are the
  charged fills of the buckets the references name. \<open>stored s r\<close> is the number kept for \<open>r\<close>.\<close>

definition charged_levels ::
    "tiers \<Rightarrow> (bref, float64) gomap \<Rightarrow> go_time \<Rightarrow> (bref \<Rightarrow> float64 option) \<Rightarrow> bref list \<Rightarrow> level list" where
  "charged_levels ts sm now st refs =
     map (\<lambda>r. level_of exact_rd r (tier_of ts (fst r))
       (pour (tier_of ts (fst r)) (map_of sm r) (fill_of (tier_of ts (fst r)) now (st r)))) refs"

definition refs_ok :: "tiers \<Rightarrow> go_time \<Rightarrow> (bref \<Rightarrow> float64 option) \<Rightarrow> bref list \<Rightarrow> bool" where
  "refs_ok ts now st refs \<longleftrightarrow> distinct refs \<and>
     (\<forall>r \<in> set refs. CHR '':'' \<notin> set (fst r) \<and> bucket_enabled (tier_of ts (fst r)) \<and>
        redis_bounded (tier_of ts (fst r)) now (st r))"

locale bucket_backend =
  fixes levels :: "tiers \<Rightarrow> (bref, float64) gomap \<Rightarrow> go_time \<Rightarrow> 's \<Rightarrow> bref list \<Rightarrow> level list"
    and stored :: "'s \<Rightarrow> bref \<Rightarrow> float64 option"
  assumes levels_eq: "refs_ok ts now (stored s) refs \<Longrightarrow>
      levels ts sm now s refs = charged_levels ts sm now (stored s) refs"
begin

text \<open>An uncharged bucket is only read: its level is its fill.\<close>

lemma read_level:
  assumes "refs_ok ts now (stored s) [r]" "map_of sm r = None"
  shows "levels ts sm now s [r] =
     [level_of exact_rd r (tier_of ts (fst r)) (fill_of (tier_of ts (fst r)) now (stored s r))]"
  using assms by (simp add: levels_eq charged_levels_def pour_def)

text \<open>A charge never lowers a level when it is positive.\<close>

lemma charge_raises:
  assumes "refs_ok ts now (stored s) [r]" "map_of sm r = Some d" "0 \<le> d"
  shows "\<exists>l. levels ts sm now s [r] = [l] \<and>
     fill_of (tier_of ts (fst r)) now (stored s r) \<le> lv_score l"
proof -
  have t: "0 \<le> ti_max (tier_of ts (fst r))"
    using assms(1) by (auto simp: refs_ok_def bucket_enabled_def)
  show ?thesis
    using assms fill_range [OF t, of now "stored s r"]
    by (auto simp: levels_eq charged_levels_def pour_def level_of_def clamp_def)
qed

end

lemma bucket_key_inj:
  assumes "CHR '':'' \<notin> set (fst r)" "CHR '':'' \<notin> set (fst r')"
    and "bucket_key prefix profile r = bucket_key prefix profile r'"
  shows "r = r'"
proof -
  have "fst r @ CHR '':'' # snd r = fst r' @ CHR '':'' # snd r'"
    using assms(3) by (simp add: bucket_key_def)
  then have "cut (fst r @ CHR '':'' # snd r) (CHR '':'') = cut (fst r' @ CHR '':'' # snd r') (CHR '':'')"
    by simp
  then show ?thesis using assms(1,2) by (simp add: cut_append prod_eq_iff)
qed

definition ledger_levels ::
    "string \<Rightarrow> string \<Rightarrow> tiers \<Rightarrow> (bref, float64) gomap \<Rightarrow> go_time \<Rightarrow> (string, float64) gomap \<Rightarrow>
     bref list \<Rightarrow> level list" where
  "ledger_levels prefix profile ts sm now m refs =
     fst (local_loop exact_rd (bucket_key prefix profile) ts sm now refs m)"

definition redis_levels ::
    "tiers \<Rightarrow> (bref, float64) gomap \<Rightarrow> go_time \<Rightarrow> (bref \<Rightarrow> float64 option) \<Rightarrow> bref list \<Rightarrow> level list" where
  "redis_levels ts sm now st refs =
     map (\<lambda>r. fst (redis_result exact_rd ts sm now r
       (redis_raw (tier_of ts (fst r)) now (map_of sm r) (st r)))) refs"

interpretation ledger_be: bucket_backend "ledger_levels prefix profile"
    "\<lambda>m r. map_of m (bucket_key prefix profile r)" for prefix profile
proof unfold_locales
  fix ts now m refs sm
  assume ok: "refs_ok ts now (\<lambda>r. map_of m (bucket_key prefix profile r)) refs"
  have "inj_on (bucket_key prefix profile) (set refs)"
    using ok bucket_key_inj unfolding refs_ok_def inj_on_def by blast
  moreover have "\<forall>r \<in> set refs. 0 \<le> ti_max (tier_of ts (fst r))" "distinct refs"
    using ok by (auto simp: refs_ok_def bucket_enabled_def)
  ultimately show "ledger_levels prefix profile ts sm now m refs =
      charged_levels ts sm now (\<lambda>r. map_of m (bucket_key prefix profile r)) refs"
    by (simp add: ledger_levels_def charged_levels_def local_loop_refines)
qed

interpretation redis_be: bucket_backend redis_levels "\<lambda>st r. st r"
  by unfold_locales
    (auto simp: redis_levels_def charged_levels_def refs_ok_def redis_result_refines(1))

section \<open>Properties\<close>



text \<open>The buckets a call touches are exactly the enabled ones with a key among its charges and
  reads, each once and in the order of kind and key, and the local backend reports one level for
  each, in that order.\<close>

theorem levels_cover_refs:
  defines "refs \<equiv> \<lambda>ts charges reads. refUnion (live_charges ts charges) reads ts"
  shows "set (refs ts charges reads) =
       {r \<in> cg_ref ` {c \<in> set charges. cg_add c \<noteq> 0} \<union> set reads.
          bucket_enabled (tier_of ts (fst r)) \<and> snd r \<noteq> []} \<and>
     distinct (refs ts charges reads) \<and> sorted (refs ts charges reads) \<and>
     (\<exists>ls. fst (Apply f64 Local order prefix profile ts charges reads now lg) = Some ls \<and>
        map lv_ref ls = refs ts charges reads)"
  unfolding refs_def
  by (auto simp: refUnion_set refUnion_distinct refUnion_sorted live_charges_def apply_local_levels
      local_loop_refs)


definition sample_tiers :: tiers where
  "sample_tiers = [(''ip'', \<lparr>ti_max = 10, ti_loss = 5\<rparr>)]"

definition sample_ledger :: ledger where
  "sample_ledger = \<lparr>lg_max = 4, lg_m = [(''cap:bkt:p:ip:10.0.0.1/32'', 4)]\<rparr>"

lemma sample_facts:
  "tier_of sample_tiers ''ip'' = \<lparr>ti_max = 10, ti_loss = 5\<rparr>"
  "live_charges sample_tiers [\<lparr>cg_ref = (''ip'', ''10.0.0.1/32''), cg_add = 3\<rparr>] =
     [\<lparr>cg_ref = (''ip'', ''10.0.0.1/32''), cg_add = 3\<rparr>]"
  "refUnion [\<lparr>cg_ref = (''ip'', ''10.0.0.1/32''), cg_add = 3\<rparr>] [] sample_tiers =
     [(''ip'', ''10.0.0.1/32'')]"
  by (simp_all add: refUnion_def live_charges_def ref_add_def sample_tiers_def tier_of_def map_get_def
      bucket_enabled_def)


text \<open>Expiry is invisible. Once a bucket's lifetime has passed since its number was written,
  its fill is 0 in exact arithmetic, which is what a missing key reads as: Redis dropping the key
  (\<open>PEXPIRE\<close>) and the ledger deleting it change no level.\<close>

theorem expiry_invisible:
  assumes "bucket_enabled t" "redis_bounded t now st" "now + lifetime exact_rd t < now'"
  shows "fill_of t now' st = fill_of t now' None"
proof -
  have en: "0 < ti_max t" "0 < ti_loss t" using assms(1) by (simp_all add: bucket_enabled_def)
  have lt: "lifetime exact_rd t = \<lfloor>100 / ti_loss t * 1000000000\<rfloor>"
    using assms(1) en by (simp add: lifetime_def float_to_int_def)
  have "now \<le> now'"
    using assms(3) en lt by (smt (verit) divide_nonneg_pos mult_nonneg_nonneg zero_le_floor zero_le_numeral)
  have "\<lfloor>100 / ti_loss t * 1000000000\<rfloor> < now' - now" using assms(3) lt by linarith
  then have "\<lfloor>100 / ti_loss t * 1000000000\<rfloor> + 1 \<le> now' - now" by linarith
  then have "(of_int (\<lfloor>100 / ti_loss t * 1000000000\<rfloor> + 1) :: rat) \<le> of_int (now' - now)"
    by (simp only: of_int_le_iff)
  then have "100 / ti_loss t * 1000000000 \<le> (of_int (now' - now) :: rat)"
    by (smt (verit) of_int_add of_int_1 floor_correct order_trans less_imp_le)
  then have "100 / ti_loss t \<le> (of_int (now' - now) :: rat) / 1000000000"
    by (simp add: field_simps)
  then have "ti_loss t / 100 * ti_max t * (100 / ti_loss t) \<le>
      ti_loss t / 100 * ti_max t * (of_int (now' - now) / 1000000000)"
    using en by (intro mult_left_mono) auto
  then have leak: "ti_max t \<le> ti_loss t / 100 * ti_max t * (of_int (now' - now) / 1000000000)"
    using en by simp
  show ?thesis
  proof (cases st)
    case None
    then show ?thesis by simp
  next
    case (Some s)
    have "s - bucket_base exact_rd t now \<le> ti_max t"
      using assms(2) Some by (simp add: redis_bounded_def)
    then show ?thesis
      using fill_leaks [OF assms(1) \<open>now \<le> now'\<close> assms(2)] leak Some
      by (simp add: fill_of_def)
  qed
qed

theorem expiry_invisible_witness:
  "fill_of \<lparr>ti_max = 10, ti_loss = 50\<rparr> (epochStart + 3 * Second) (Some 7) = 0"
proof -
  have "fill_of \<lparr>ti_max = 10, ti_loss = 50\<rparr> (epochStart + 3 * Second) (Some 7) =
      fill_of \<lparr>ti_max = 10, ti_loss = 50\<rparr> (epochStart + 3 * Second) None"
    by (rule expiry_invisible [where now = epochStart])
      (simp_all add: bucket_enabled_def redis_bounded_def base_exact lifetime_def float_to_int_def)
  then show ?thesis by (simp add: fill_of_def)
qed

lemma local_loop_keys:
  "fst ` set (snd (local_loop rd key ts sm now rs m)) \<subseteq> key ` set rs \<union> fst ` set m"
proof (induction rs arbitrary: m)
  case Nil
  then show ?case by simp
next
  case (Cons r rs)
  have "fst ` set (snd (local_step rd key ts sm now m r)) \<subseteq> insert (key r) (fst ` set m)"
    unfolding local_step_def Let_def
    by (auto simp: AList.dom_update AList.delete_eq split: option.splits)
  with Cons [of "snd (local_step rd key ts sm now m r)"] show ?case by auto
qed

text \<open>The local ledger is bounded: whatever order Go's map iteration takes over its keys, after
  a call it holds at most its limit of entries, so keys an attacker varies cannot grow it without
  end.\<close>

theorem ledger_bounded:
  assumes "length (lg_m lg) \<le> lg_max lg"
    and "fst ` set (lg_m lg) \<union>
      bucket_key prefix profile ` set (refUnion (live_charges ts charges) reads ts) \<subseteq> set order"
  shows "length (lg_m (snd (Apply rd Local order prefix profile ts charges reads now lg))) \<le> lg_max lg"
proof -
  let ?refs = "refUnion (live_charges ts charges) reads ts"
  let ?m = "snd (local_loop rd (bucket_key prefix profile) ts
      (sum_charges rd (live_charges ts charges)) now ?refs (lg_m lg))"
  have "\<forall>k \<in> fst ` set ?m. k \<in> set order"
    using local_loop_keys [of rd "bucket_key prefix profile" ts _ now ?refs "lg_m lg"] assms(2)
    by blast
  then show ?thesis
    using evict_bound [of ?m order "lg_max lg"] assms(1) by (simp add: apply_local_ledger Let_def)
qed

theorem ledger_bounded_witness:
  "length (lg_m (snd (Apply f64 Local [''cap:bkt:p:ip:10.0.0.1/32''] ''cap:bkt:'' ''p'' sample_tiers
     [\<lparr>cg_ref = (''ip'', ''10.0.0.1/32''), cg_add = 3\<rparr>] [] 0 sample_ledger))) \<le> lg_max sample_ledger"
  by (rule ledger_bounded) (simp_all add: sample_facts sample_ledger_def bucket_key_def)

end
