(* ===== verification/Decide.thy ===== *)
theory Decide
  imports Validate Token Buckets
begin

text \<open>
  Package \<open>internal/decide\<close>: the verdict on one request. \<open>Check\<close> is the whole decision;
  \<open>PriorAsk\<close> reads what earlier inspectors asked for. Random bytes (the ticket's nonce and the
  AEAD's) are arguments. The engine map of a result has fixed keys and is a record here; a key
  that was never set is the empty string, the empty list, \<open>False\<close> or \<open>None\<close>.
\<close>

section \<open>Constants and data\<close>

abbreviation "CodeOK \<equiv> ''CAPTCHA_OK''"
abbreviation "CodeOff \<equiv> ''CAPTCHA_OFF''"
abbreviation "CodeSelf \<equiv> ''CAPTCHA_SELF''"
abbreviation "CodeObserve \<equiv> ''CAPTCHA_OBSERVE''"
abbreviation "CodeNotRequired \<equiv> ''CAPTCHA_NOT_REQUIRED''"
abbreviation "CodeRequired \<equiv> ''CAPTCHA_REQUIRED''"
abbreviation "CodeReverify \<equiv> ''CAPTCHA_REVERIFY''"
abbreviation "CodeClearanceBad \<equiv> ''CAPTCHA_CLEARANCE_BAD''"
abbreviation "CodeClearanceExpired \<equiv> ''CAPTCHA_CLEARANCE_EXPIRED''"
abbreviation "CodeClearanceBind \<equiv> ''CAPTCHA_CLEARANCE_BIND''"
abbreviation "CodeClearanceRevoked \<equiv> ''CAPTCHA_CLEARANCE_REVOKED''"
abbreviation "CodeListUnavailable \<equiv> ''CAPTCHA_LIST_UNAVAILABLE''"
abbreviation "CodeStoreUnavailable \<equiv> ''CAPTCHA_STORE_UNAVAILABLE''"
abbreviation "CodeBucketsUnavailable \<equiv> ''CAPTCHA_BUCKETS_UNAVAILABLE''"
abbreviation "CodeGeoUnavailable \<equiv> ''CAPTCHA_GEO_UNAVAILABLE''"
abbreviation "CodeUnknownProfile \<equiv> ''CAPTCHA_UNKNOWN_PROFILE''"
abbreviation "CodeWrongPhase \<equiv> ''CAPTCHA_PHASE_NOT_SUPPORTED''"

abbreviation "FindingClearanceBad \<equiv> ''captcha-clearance-bad''"
abbreviation "FindingClearanceRevoked \<equiv> ''captcha-clearance-revoked''"
abbreviation "FindingUnknownProfile \<equiv> ''captcha-unknown-profile''"
abbreviation "FindingStore \<equiv> ''captcha-store-unavailable''"
abbreviation "FindingListDown \<equiv> ''captcha-list-unavailable''"

abbreviation "TriggerAlways \<equiv> ''always''"
abbreviation "TriggerPrior \<equiv> ''prior''"
abbreviation "TriggerReverify \<equiv> ''reverify''"
abbreviation "TriggerHot \<equiv> ''hot''"

abbreviation "OutcomeApplied \<equiv> ''applied''"
abbreviation "OutcomeNoRule \<equiv> ''no_rule''"
abbreviation "OutcomeNoCounter \<equiv> ''no_counter''"
abbreviation "OutcomeCleared \<equiv> ''cleared''"

abbreviation "SeverityMedium \<equiv> ''medium''"
abbreviation "SeverityHigh \<equiv> ''high''"
abbreviation "SeverityCritical \<equiv> ''critical''"
abbreviation "TargetConn \<equiv> ''conn''"

record finding =
  f_code :: string
  f_severity :: string
  f_target :: string
  f_rule :: string

record ask_note =
  n_axis :: string
  n_percent :: int
  n_code :: string

record outcome =
  o_from :: string
  o_do :: string
  o_apply :: string
  o_code :: string
  o_value :: int
  o_delta :: int
  o_took :: float64
  o_outcome :: string

record asked =
  as_want :: bool
  as_skip :: bool
  as_notes :: "ask_note list"
  as_outcomes :: "outcome list"

record opened =
  op_clearance :: "clearance option"
  op_code :: string
  op_findings :: "finding list"

record input =
  i_profile :: "profile option"
  i_ask :: string
  i_method :: string
  i_uri :: string
  i_args :: string
  i_client_ip :: string
  i_clearance :: string
  i_ticket :: string
  i_user_agent :: string
  i_accept :: string
  i_sec_fetch_dest :: string
  i_upgrade_insecure :: bool
  i_asked :: asked
  i_levels :: "(string, float64) gomap"
  i_store_unavailable :: string
  i_opened :: "opened option"
  i_now :: go_time

record engine =
  e_profile :: string
  e_mode :: string
  e_passive :: bool
  e_store :: string
  e_self :: bool
  e_actions :: "outcome list"
  e_buckets :: "(string, float64) gomap"
  e_sess_full :: bool
  e_page :: string
  e_trigger :: string
  e_reason :: string
  e_would_verdict :: string
  e_would_code :: string
  e_attempt :: "int option"
  e_inline :: bool
  e_jti :: string
  e_provider :: string
  e_inline_fallback :: string

record result =
  r_verdict :: string
  r_code :: string
  r_response :: string
  r_redirect_url :: string
  r_redirect_status :: int
  r_inline :: bool
  r_cookies :: "cookie list"
  r_headers :: "(string, string) gomap"
  r_clearance :: "clearance option"
  r_trigger :: string
  r_findings :: "finding list"
  r_engine :: "engine option"
  r_event :: string
  r_next :: string

definition empty_asked :: asked where
  "empty_asked = \<lparr>as_want = False, as_skip = False, as_notes = [], as_outcomes = []\<rparr>"

definition empty_engine :: "string \<Rightarrow> string \<Rightarrow> engine" where
  "empty_engine name mode =
     \<lparr>e_profile = name, e_mode = mode, e_passive = False, e_store = [], e_self = False,
      e_actions = [], e_buckets = [], e_sess_full = False, e_page = [], e_trigger = [],
      e_reason = [], e_would_verdict = [], e_would_code = [], e_attempt = None,
      e_inline = False, e_jti = [], e_provider = [], e_inline_fallback = []\<rparr>"

definition empty_result :: "string \<Rightarrow> string \<Rightarrow> result" where
  "empty_result verdict code =
     \<lparr>r_verdict = verdict, r_code = code, r_response = [], r_redirect_url = [],
      r_redirect_status = 0, r_inline = False, r_cookies = [], r_headers = [],
      r_clearance = None, r_trigger = [], r_findings = [], r_engine = None, r_event = [],
      r_next = []\<rparr>"

text \<open>The two interfaces \<open>Check\<close> asks; a nil interface is \<open>None\<close>.\<close>

type_synonym revoked_fn = "string \<Rightarrow> bool"
type_synonym clearances_fn = "string \<Rightarrow> string \<Rightarrow> bool \<times> bool"

section \<open>What earlier inspectors asked\<close>

definition apply_outcome :: "float64 \<Rightarrow> outcome \<Rightarrow> outcome" where
  "apply_outcome took o' = o'\<lparr>o_outcome := OutcomeApplied, o_took := f64 (o_took o' + took)\<rparr>"

definition no_counter :: "outcome \<Rightarrow> outcome" where
  "no_counter o' = (if o_outcome o' = OutcomeNoRule then o'\<lparr>o_outcome := OutcomeNoCounter\<rparr> else o')"

definition note_kinds :: "profile \<Rightarrow> string \<Rightarrow> string list" where
  "note_kinds p scope =
     (if scope = ApplyIP then (if tier_enabled (pb_ip (p_buckets p)) then [KindIP] else [])
      else if scope = ApplySession
      then (if tier_enabled (pb_sess (p_buckets p)) then [KindSess] else [])
      else if scope = ApplyASN
      then (if tier_enabled (pb_asn_net (p_buckets p)) then [KindNet] else []) @
           (if tier_enabled (pb_asn_router (p_buckets p)) then [KindRouter] else [])
      else [])"

definition take_note :: "profile \<Rightarrow> action \<Rightarrow> asked \<times> outcome \<Rightarrow> asked \<times> outcome" where
  "take_note p act = (\<lambda>(a, out).
     if a_value act = 0 then (a, apply_outcome 0 out)
     else let kinds = note_kinds p (Scope act)
          in if kinds = [] then (a, no_counter out)
             else (a\<lparr>as_notes := as_notes a @
                      map (\<lambda>kind. \<lparr>n_axis = kind, n_percent = a_value act, n_code = a_code act\<rparr>) kinds\<rparr>,
                   apply_outcome (of_int (a_value act)) out))"

definition take_ask :: "profile \<Rightarrow> action \<Rightarrow> asked \<times> outcome \<Rightarrow> asked \<times> outcome" where
  "take_ask p act = (\<lambda>(a, out).
     if a_do act = DoChallenge then (a\<lparr>as_want := True\<rparr>, apply_outcome 0 out)
     else if a_do act = DoSkip then (a\<lparr>as_skip := True\<rparr>, apply_outcome 0 out)
     else if a_do act = DoThreshold then (a, no_counter out)
     else if a_do act = DoNote then take_note p act (a, out)
     else (a, out))"

definition rule_hears :: "string \<Rightarrow> action \<Rightarrow> prior_rule \<Rightarrow> bool" where
  "rule_hears from act r \<longleftrightarrow>
     (pri_from r = AnyInspector \<or> pri_from r = from) \<and> Accepts r (a_do act) \<and> WantsCode r (a_code act)"

definition deliver :: "profile \<Rightarrow> string \<Rightarrow> asked \<Rightarrow> action \<Rightarrow> asked" where
  "deliver p from a act =
     (let out = \<lparr>o_from = from, o_do = a_do act, o_apply = Scope act, o_code = a_code act,
                 o_value = a_value act, o_delta = a_delta act, o_took = 0,
                 o_outcome = OutcomeNoRule\<rparr>;
          (a', out') = foldl (\<lambda>s r. if rule_hears from act r then take_ask p act s else s) (a, out)
                         (tg_prior (p_trigger p))
      in a'\<lparr>as_outcomes := as_outcomes a' @ [out']\<rparr>)"

definition PriorAsk :: "prior_verdict list \<Rightarrow> profile option \<Rightarrow> asked" where
  "PriorAsk prior p' =
     (case p' of
        None \<Rightarrow> empty_asked
      | Some p \<Rightarrow>
          foldl (\<lambda>a v. if pv_phase v \<noteq> [] \<and> pv_phase v \<noteq> PhaseRequest then a
                       else foldl (deliver p (pv_inspector v)) a (pv_actions v))
            empty_asked prior)"

definition cleared_outcomes :: "outcome list \<Rightarrow> outcome list" where
  "cleared_outcomes = map (\<lambda>out. if o_do out = DoChallenge \<and> o_outcome out = OutcomeApplied
     then out\<lparr>o_outcome := OutcomeCleared\<rparr> else out)"

section \<open>Opening the clearance\<close>

definition bad :: "string \<Rightarrow> string \<Rightarrow> finding list" where
  "bad code rule =
     [\<lparr>f_code = code, f_severity = SeverityMedium, f_target = TargetConn, f_rule = rule\<rparr>]"

definition want_bind :: "profile \<Rightarrow> string \<Rightarrow> string \<Rightarrow> bind" where
  "want_bind p ip ua =
     (let net = (if BindsNet p then (case NetBits p of (v4, v6) \<Rightarrow> Subnet ip v4 v6) else []);
          ua' = (if BindsUA p then Fingerprint ua else [])
      in \<lparr>b_net = net, b_ua = ua'\<rparr>)"

definition open_clearance ::
    "input \<Rightarrow> profile \<Rightarrow> token_key \<Rightarrow> revoked_fn option \<Rightarrow> clearances_fn option \<Rightarrow>
     clearance option \<times> string \<times> finding list" where
  "open_clearance i p key revoked clearances =
     (if i_clearance i = []
      then if i_store_unavailable i \<noteq> []
           then (None, CodeRequired,
                 [\<lparr>f_code = FindingStore, f_severity = SeverityHigh, f_target = TargetConn,
                   f_rule = i_store_unavailable i\<rparr>])
           else (None, CodeRequired, [])
      else case OpenClearance key (i_clearance i) (i_now i)
                 (want_bind p (i_client_ip i) (i_user_agent i)) of
        (_, Some ErrExpired) \<Rightarrow> (None, CodeClearanceExpired, [])
      | (_, Some ErrBind) \<Rightarrow> (None, CodeClearanceBind, bad FindingClearanceBad ''bind'')
      | (_, Some _) \<Rightarrow> (None, CodeClearanceBad, bad FindingClearanceBad ''seal'')
      | (None, None) \<Rightarrow> (None, CodeClearanceBad, bad FindingClearanceBad ''seal'')
      | (Some clr, None) \<Rightarrow>
          if (case revoked of None \<Rightarrow> False | Some rv \<Rightarrow> c_fp clr \<noteq> [] \<and> rv (''fp:'' @ c_fp clr))
          then (None, CodeClearanceRevoked, bad FindingClearanceRevoked (''fp:'' @ c_fp clr))
          else if ListEnabled (p_clearance p) \<and>
                  i_now i - from_unix (c_issued clr) > cc_grace (p_clearance p)
          then (case clearances of
                  None \<Rightarrow> (None, CodeListUnavailable, bad FindingListDown (cc_list (p_clearance p)))
                | Some contains \<Rightarrow>
                    (case contains (cc_list (p_clearance p)) (c_jti clr) of (listed, ready) \<Rightarrow>
                       if \<not> ready
                       then (None, CodeListUnavailable, bad FindingListDown (cc_list (p_clearance p)))
                       else if \<not> listed
                       then (None, CodeClearanceRevoked, bad FindingClearanceRevoked (c_jti clr))
                       else (Some clr, CodeOK, [])))
          else (Some clr, CodeOK, []))"

definition Open_input ::
    "input \<Rightarrow> token_key \<Rightarrow> revoked_fn option \<Rightarrow> clearances_fn option \<Rightarrow> opened" where
  "Open_input i key revoked clearances =
     (case i_profile i of
        None \<Rightarrow> \<lparr>op_clearance = None, op_code = [], op_findings = []\<rparr>
      | Some p \<Rightarrow>
          (case open_clearance i p key revoked clearances of (clr, code, finding) \<Rightarrow>
             \<lparr>op_clearance = clr, op_code = code, op_findings = finding\<rparr>))"

section \<open>Whether a challenge is due\<close>

definition bucketFull :: "input \<Rightarrow> profile \<Rightarrow> string \<Rightarrow> bool" where
  "bucketFull i p kind =
     (let thr = bt_captcha_at (bucket_tier_of (p_buckets p) kind)
      in if thr \<le> 0 then False
         else case map_of (i_levels i) kind of
           None \<Rightarrow> False
         | Some level \<Rightarrow> level \<ge> of_int thr)"

definition hotBuckets :: "input \<Rightarrow> profile \<Rightarrow> string list" where
  "hotBuckets i p = filter (bucketFull i p) [KindIP, KindNet, KindRouter]"

definition required :: "input \<Rightarrow> profile \<Rightarrow> page_choice \<Rightarrow> bool \<Rightarrow> asked \<Rightarrow> string" where
  "required i p rule hadClearance ask =
     (if hadClearance then TriggerReverify
      else if as_skip ask then []
      else if ru_when rule = WhenNever then []
      else if ru_when rule = WhenAlways then TriggerAlways
      else if hotBuckets i p \<noteq> [] then TriggerHot
      else if as_want ask then TriggerPrior
      else [])"

section \<open>The answer\<close>

definition returnPath :: "string \<Rightarrow> string \<Rightarrow> string" where
  "returnPath uri args =
     (if uri = [] \<or> hd uri \<noteq> CHR ''/'' \<or> has_prefix uri ''//'' then []
      else let out = (if args \<noteq> [] then uri @ ''?'' @ args else uri)
           in if length out > 1024 then []
              else if list_ex (\<lambda>c. byte_of c < 0x21 \<or> byte_of c > 0x7e \<or> byte_of c = 0x5c) out then []
              else out)"

text \<open>\<open>url.QueryEscape\<close>.\<close>

definition query_safe :: "char \<Rightarrow> bool" where
  "query_safe c \<longleftrightarrow> ascii_letter c \<or> digit_char c \<or> c \<in> set ''-_.~''"

definition upper_hex :: "int \<Rightarrow> char" where
  "upper_hex n = (if n < 10 then char_of (48 + n) else char_of (55 + n))"

definition query_escape :: "string \<Rightarrow> string" where
  "query_escape s = concat (map (\<lambda>c.
     if query_safe c then [c]
     else if c = CHR '' '' then ''+''
     else [CHR ''%'', upper_hex (byte_of c div 16), upper_hex (byte_of c mod 16)]) s)"

definition allow_result :: "profile \<Rightarrow> clearance option \<Rightarrow> string \<Rightarrow> engine \<Rightarrow> result" where
  "allow_result p c code e =
     (let val = (case c of None \<Rightarrow> ''none'' | Some c \<Rightarrow> c_provider c);
          e = (case c of None \<Rightarrow> e | Some c \<Rightarrow> e\<lparr>e_jti := c_jti c, e_provider := c_provider c\<rparr>)
      in (empty_result VerdictAllow code)
           \<lparr>r_clearance := c, r_engine := Some e,
            r_headers := (if p_upstream_header p \<noteq> [] then [(p_upstream_header p, val)] else [])\<rparr>)"

definition attemptOf :: "input \<Rightarrow> profile \<Rightarrow> token_key \<Rightarrow> int" where
  "attemptOf i p key =
     (if i_ticket i = [] then 1
      else case OpenTicket key (i_ticket i) (i_now i) of
        (Some t, None) \<Rightarrow> if t_profile t \<noteq> p_name p then 1 else i64 (t_attempt t + 1)
      | _ \<Rightarrow> 1)"

record randomness =
  rnd_id :: string
  rnd_nonce :: string

definition ticket_of :: "input \<Rightarrow> profile \<Rightarrow> randomness \<Rightarrow> int \<Rightarrow> ticket" where
  "ticket_of i p rnd attempt =
     (let want = want_bind p (i_client_ip i) (i_user_agent i)
      in \<lparr>t_nonce = NewID (rnd_id rnd), t_return = returnPath (i_uri i) (i_args i),
          t_profile = p_name p, t_attempt = attempt, t_net = b_net want, t_ua = b_ua want,
          t_expiry = unix (i_now i + ch_ttl (p_challenge p))\<rparr>)"

definition issueTicket :: "input \<Rightarrow> profile \<Rightarrow> token_key \<Rightarrow> randomness \<Rightarrow> int \<Rightarrow> cookie list" where
  "issueTicket i p key rnd attempt =
     (case SealTicket key (rnd_nonce rnd) (ticket_of i p rnd attempt) of
        None \<Rightarrow> []
      | Some sealed \<Rightarrow>
          [\<lparr>ck_name = ch_cookie (p_challenge p), ck_value = sealed, ck_path = p_path p,
            ck_max_age = float_to_int (seconds_of f64 (ch_ttl (p_challenge p)))\<rparr>])"

definition redirect_result :: "input \<Rightarrow> profile \<Rightarrow> cookie list \<Rightarrow> string \<Rightarrow> result" where
  "redirect_result i p ticket code =
     (if ticket = []
      then (empty_result VerdictDeny code)\<lparr>r_response := g_deny_response (p_gate p)\<rparr>
      else let back = returnPath (i_uri i) (i_args i);
               target = (if back \<noteq> [] then p_path p @ ''?rd='' @ query_escape back else p_path p)
           in (empty_result VerdictRedirect code)
                \<lparr>r_redirect_url := target, r_redirect_status := g_redirect_status (p_gate p),
                 r_cookies := ticket\<rparr>)"

definition acceptsHTML :: "string \<Rightarrow> bool" where
  "acceptsHTML accept \<longleftrightarrow>
     str_contains accept ''text/html'' \<or> str_contains accept ''application/xhtml+xml''"

definition showsPage :: "input \<Rightarrow> bool" where
  "showsPage i =
     (if i_sec_fetch_dest i = [] then i_upgrade_insecure i \<or> acceptsHTML (i_accept i)
      else i_sec_fetch_dest i \<in> {''document'', ''iframe'', ''frame''})"

definition navigational :: "input \<Rightarrow> profile \<Rightarrow> bool" where
  "navigational i p =
     (if \<not> RedirectsMethod p (i_method i) then False
      else if g_html_only (p_gate p) \<and> \<not> showsPage i then False
      else True)"

definition wouldBe :: "input \<Rightarrow> profile \<Rightarrow> string" where
  "wouldBe i p = (if navigational i p then VerdictRedirect else VerdictDeny)"

definition eventOf :: "input \<Rightarrow> result \<Rightarrow> string" where
  "eventOf i res =
     (if r_code res = CodeOK then (if r_clearance res \<noteq> None then OnCleared else [])
      else if r_code res \<in> {CodeOff, CodeSelf, CodeUnknownProfile, CodeListUnavailable, []} then []
      else if i_clearance i = [] \<and> i_store_unavailable i \<noteq> [] then []
      else OnUncleared)"

definition nextOf :: "result \<Rightarrow> string" where
  "nextOf res =
     (if r_trigger res \<noteq> [] then NextChallenge
      else if r_verdict res = VerdictAllow \<and> r_code res \<noteq> CodeOff \<and> r_code res \<noteq> CodeSelf
      then NextAllow
      else [])"

section \<open>Check\<close>

text \<open>The end of \<open>Check\<close> in enforce mode: attempt, ticket, redirect or denial.\<close>

definition challenge_result ::
    "input \<Rightarrow> profile \<Rightarrow> token_key \<Rightarrow> randomness \<Rightarrow> string \<Rightarrow> string \<Rightarrow> finding list \<Rightarrow> engine \<Rightarrow> result" where
  "challenge_result i p key rnd trigger code finding e =
     (let attempt = attemptOf i p key;
          e = e\<lparr>e_attempt := Some attempt\<rparr>;
          ticket = issueTicket i p key rnd attempt
      in if navigational i p
         then let res = redirect_result i p ticket code;
                  inl = FormInline p \<and> ticket \<noteq> [];
                  res = (if inl then res\<lparr>r_verdict := VerdictDeny,
                                         r_response := g_deny_response (p_gate p),
                                         r_inline := True\<rparr> else res)
              in res\<lparr>r_trigger := trigger, r_findings := finding,
                     r_engine := Some (if inl then e\<lparr>e_inline := True\<rparr> else e)\<rparr>
         else (empty_result VerdictDeny code)
                \<lparr>r_response := g_deny_response (p_gate p), r_cookies := ticket,
                 r_trigger := trigger, r_findings := finding, r_engine := Some e\<rparr>)"

text \<open>\<open>Check\<close> once the clearance is opened. \<open>asked.cleared()\<close> writes through the slice the engine
  map already holds, so the engine's actions change with it.\<close>

definition decide_opened ::
    "input \<Rightarrow> profile \<Rightarrow> token_key \<Rightarrow> randomness \<Rightarrow> opened \<Rightarrow> engine \<Rightarrow> result" where
  "decide_opened i p key rnd op e =
     (if op_code op = CodeListUnavailable
      then (empty_result VerdictError (op_code op))\<lparr>r_findings := op_findings op, r_engine := Some e\<rparr>
      else if op_clearance op \<noteq> None \<and> \<not> bucketFull i p KindSess
      then allow_result p (op_clearance op) CodeOK (e\<lparr>e_actions := cleared_outcomes (e_actions e)\<rparr>)
      else let had = (op_clearance op \<noteq> None);
               code = (if had then CodeReverify else op_code op);
               e = (if had then e\<lparr>e_sess_full := True\<rparr> else e);
               rule = RuleFor p (i_method i) (i_uri i);
               e = (if ru_page rule \<noteq> [] then e\<lparr>e_page := ru_page rule\<rparr> else e);
               trigger = required i p rule had (i_asked i)
           in if trigger = []
              then (allow_result p None CodeNotRequired e)\<lparr>r_findings := op_findings op\<rparr>
              else let e = e\<lparr>e_trigger := trigger, e_reason := code\<rparr>
                   in if p_mode p = ModeObserve
                      then (allow_result p None CodeObserve
                              (e\<lparr>e_would_verdict := wouldBe i p, e_would_code := code\<rparr>))
                             \<lparr>r_findings := op_findings op, r_trigger := trigger\<rparr>
                      else challenge_result i p key rnd trigger code (op_findings op) e)"

definition check_body ::
    "input \<Rightarrow> token_key \<Rightarrow> revoked_fn option \<Rightarrow> clearances_fn option \<Rightarrow> randomness \<Rightarrow> result" where
  "check_body i key revoked clearances rnd =
     (case i_profile i of
        None \<Rightarrow>
          (empty_result VerdictError CodeUnknownProfile)
            \<lparr>r_findings := [\<lparr>f_code = FindingUnknownProfile, f_severity = SeverityCritical,
                             f_target = TargetConn, f_rule = i_ask i\<rparr>]\<rparr>
      | Some p \<Rightarrow>
          let e = (empty_engine (p_name p) (p_mode p))
                    \<lparr>e_passive := (p_mode p = ModeObserve), e_store := i_store_unavailable i\<rparr>
          in if p_mode p = ModeOff then allow_result p None CodeOff e
             else if OwnPath p (i_uri i) then allow_result p None CodeSelf (e\<lparr>e_self := True\<rparr>)
             else let e = e\<lparr>e_actions := as_outcomes (i_asked i), e_buckets := i_levels i\<rparr>;
                      op = (case i_opened i of
                              None \<Rightarrow> Open_input i key revoked clearances | Some op \<Rightarrow> op)
                  in decide_opened i p key rnd op e)"

definition Check ::
    "input \<Rightarrow> token_key \<Rightarrow> revoked_fn option \<Rightarrow> clearances_fn option \<Rightarrow> randomness \<Rightarrow> result" where
  "Check i key revoked clearances rnd =
     (let out = check_body i key revoked clearances rnd
      in out\<lparr>r_event := eventOf i out, r_next := nextOf out\<rparr>)"

section \<open>Verdicts\<close>

lemma result_fields [simp]:
  "r_verdict (empty_result v c) = v" "r_code (empty_result v c) = c" "r_trigger (empty_result v c) = []"
  "r_cookies (empty_result v c) = []" "r_clearance (empty_result v c) = None"
  "r_redirect_url (empty_result v c) = []" "r_inline (empty_result v c) = False"
  by (simp_all add: empty_result_def)

lemma allow_fields [simp]:
  "r_verdict (allow_result p c code e) = VerdictAllow" "r_code (allow_result p c code e) = code"
  "r_trigger (allow_result p c code e) = []" "r_cookies (allow_result p c code e) = []"
  "r_clearance (allow_result p c code e) = c" "r_redirect_url (allow_result p c code e) = []"
  "r_inline (allow_result p c code e) = False"
  by (simp_all add: allow_result_def Let_def)

lemma check_fields [simp]:
  "r_verdict (Check i key rv cl rnd) = r_verdict (check_body i key rv cl rnd)"
  "r_code (Check i key rv cl rnd) = r_code (check_body i key rv cl rnd)"
  "r_cookies (Check i key rv cl rnd) = r_cookies (check_body i key rv cl rnd)"
  "r_trigger (Check i key rv cl rnd) = r_trigger (check_body i key rv cl rnd)"
  "r_clearance (Check i key rv cl rnd) = r_clearance (check_body i key rv cl rnd)"
  "r_redirect_url (Check i key rv cl rnd) = r_redirect_url (check_body i key rv cl rnd)"
  "r_inline (Check i key rv cl rnd) = r_inline (check_body i key rv cl rnd)"
  "r_event (Check i key rv cl rnd) = eventOf i (check_body i key rv cl rnd)"
  "r_next (Check i key rv cl rnd) = nextOf (check_body i key rv cl rnd)"
  by (simp_all add: Check_def Let_def)

text \<open>What \<open>Check\<close> works from: the opened clearance the caller passed, or its own.\<close>

definition opened_of ::
    "input \<Rightarrow> token_key \<Rightarrow> revoked_fn option \<Rightarrow> clearances_fn option \<Rightarrow> opened" where
  "opened_of i key rv cl =
     (case i_opened i of None \<Rightarrow> Open_input i key rv cl | Some op \<Rightarrow> op)"

text \<open>The trigger: why a challenge is due, the empty string when none is.\<close>

definition trigger_of :: "input \<Rightarrow> profile \<Rightarrow> opened \<Rightarrow> string" where
  "trigger_of i p op =
     required i p (RuleFor p (i_method i) (i_uri i)) (op_clearance op \<noteq> None) (i_asked i)"

definition passes_clearance :: "input \<Rightarrow> profile \<Rightarrow> opened \<Rightarrow> bool" where
  "passes_clearance i p op \<longleftrightarrow> op_clearance op \<noteq> None \<and> \<not> bucketFull i p KindSess"

definition ticket_sealed :: "input \<Rightarrow> profile \<Rightarrow> token_key \<Rightarrow> randomness \<Rightarrow> bool" where
  "ticket_sealed i p key rnd \<longleftrightarrow> issueTicket i p key rnd (attemptOf i p key) \<noteq> []"

text \<open>The verdict as a table, apart from the way the code reaches it.\<close>

definition verdict_spec ::
    "input \<Rightarrow> profile \<Rightarrow> token_key \<Rightarrow> randomness \<Rightarrow> opened \<Rightarrow> string" where
  "verdict_spec i p key rnd op =
     (if p_mode p = ModeOff \<or> OwnPath p (i_uri i) then VerdictAllow
      else if op_code op = CodeListUnavailable then VerdictError
      else if passes_clearance i p op \<or> trigger_of i p op = [] \<or> p_mode p = ModeObserve
      then VerdictAllow
      else if navigational i p \<and> ticket_sealed i p key rnd \<and> \<not> FormInline p then VerdictRedirect
      else VerdictDeny)"

lemma challenge_verdict:
  "r_verdict (challenge_result i p key rnd trigger code finding e) =
     (if navigational i p \<and> ticket_sealed i p key rnd \<and> \<not> FormInline p then VerdictRedirect
      else VerdictDeny)"
  by (simp add: challenge_result_def redirect_result_def ticket_sealed_def Let_def)

lemma challenge_trigger [simp]:
  "r_trigger (challenge_result i p key rnd trigger code finding e) = trigger"
  "r_code (challenge_result i p key rnd trigger code finding e) = code"
  "r_clearance (challenge_result i p key rnd trigger code finding e) = None"
  by (simp_all add: challenge_result_def redirect_result_def Let_def)

lemma check_body_cases:
  assumes "i_profile i = Some p"
  shows "p_mode p = ModeOff \<and> (\<exists>e. check_body i key rv cl rnd = allow_result p None CodeOff e) \<or>
     p_mode p \<noteq> ModeOff \<and> OwnPath p (i_uri i) \<and>
       (\<exists>e. check_body i key rv cl rnd = allow_result p None CodeSelf e) \<or>
     p_mode p \<noteq> ModeOff \<and> \<not> OwnPath p (i_uri i) \<and>
       (\<exists>e. check_body i key rv cl rnd = decide_opened i p key rnd (opened_of i key rv cl) e)"
  using assms by (auto simp: check_body_def opened_of_def Let_def)

lemma decide_opened_cases:
  "op_code op = CodeListUnavailable \<and>
     decide_opened i p key rnd op e =
       (empty_result VerdictError CodeListUnavailable)\<lparr>r_findings := op_findings op, r_engine := Some e\<rparr> \<or>
   op_code op \<noteq> CodeListUnavailable \<and> passes_clearance i p op \<and>
     (\<exists>e'. decide_opened i p key rnd op e = allow_result p (op_clearance op) CodeOK e') \<or>
   op_code op \<noteq> CodeListUnavailable \<and> \<not> passes_clearance i p op \<and> trigger_of i p op = [] \<and>
     (\<exists>e'. decide_opened i p key rnd op e =
        (allow_result p None CodeNotRequired e')\<lparr>r_findings := op_findings op\<rparr>) \<or>
   op_code op \<noteq> CodeListUnavailable \<and> \<not> passes_clearance i p op \<and> trigger_of i p op \<noteq> [] \<and>
     p_mode p = ModeObserve \<and>
     (\<exists>e'. decide_opened i p key rnd op e =
        (allow_result p None CodeObserve e')
          \<lparr>r_findings := op_findings op, r_trigger := trigger_of i p op\<rparr>) \<or>
   op_code op \<noteq> CodeListUnavailable \<and> \<not> passes_clearance i p op \<and> trigger_of i p op \<noteq> [] \<and>
     p_mode p \<noteq> ModeObserve \<and>
     (\<exists>e' code. decide_opened i p key rnd op e =
        challenge_result i p key rnd (trigger_of i p op) code (op_findings op) e' \<and>
        code = (if op_clearance op \<noteq> None then CodeReverify else op_code op))"
proof -
  let ?had = "op_clearance op \<noteq> None"
  let ?e1 = "if ?had then e\<lparr>e_sess_full := True\<rparr> else e"
  let ?rule = "RuleFor p (i_method i) (i_uri i)"
  let ?e2 = "if ru_page ?rule \<noteq> [] then ?e1\<lparr>e_page := ru_page ?rule\<rparr> else ?e1"
  consider (lst) "op_code op = CodeListUnavailable"
    | (pass) "op_code op \<noteq> CodeListUnavailable" "passes_clearance i p op"
    | (rest) "op_code op \<noteq> CodeListUnavailable" "\<not> passes_clearance i p op"
    by blast
  then show ?thesis
  proof cases
    case lst
    then show ?thesis by (simp add: decide_opened_def)
  next
    case pass
    then have "decide_opened i p key rnd op e =
        allow_result p (op_clearance op) CodeOK (e\<lparr>e_actions := cleared_outcomes (e_actions e)\<rparr>)"
      by (simp add: decide_opened_def passes_clearance_def)
    with pass show ?thesis by blast
  next
    case rest
    then have "decide_opened i p key rnd op e =
       (if trigger_of i p op = []
        then (allow_result p None CodeNotRequired ?e2)\<lparr>r_findings := op_findings op\<rparr>
        else let code = (if ?had then CodeReverify else op_code op);
                 e = ?e2\<lparr>e_trigger := trigger_of i p op, e_reason := code\<rparr>
             in if p_mode p = ModeObserve
                then (allow_result p None CodeObserve
                        (e\<lparr>e_would_verdict := wouldBe i p, e_would_code := code\<rparr>))
                       \<lparr>r_findings := op_findings op, r_trigger := trigger_of i p op\<rparr>
                else challenge_result i p key rnd (trigger_of i p op) code (op_findings op) e)"
      unfolding decide_opened_def passes_clearance_def trigger_of_def Let_def by (simp only: if_False simp_thms)
    with rest show ?thesis by (simp only: Let_def) (auto split: if_splits)
  qed
qed

lemma decide_opened_verdict:
  "r_verdict (decide_opened i p key rnd op e) =
     (if op_code op = CodeListUnavailable then VerdictError
      else if passes_clearance i p op \<or> trigger_of i p op = [] \<or> p_mode p = ModeObserve
      then VerdictAllow
      else if navigational i p \<and> ticket_sealed i p key rnd \<and> \<not> FormInline p then VerdictRedirect
      else VerdictDeny)"
  using decide_opened_cases [of op i p key rnd e] by (auto simp: challenge_verdict)

lemma decision_table:
  assumes "i_profile i = Some p"
  shows "r_verdict (Check i key rv cl rnd) = verdict_spec i p key rnd (opened_of i key rv cl)"
  using check_body_cases [OF assms, of key rv cl rnd]
  by (auto simp: verdict_spec_def decide_opened_verdict)

section \<open>The clearance behind a pass\<close>

text \<open>Everything a clearance has to satisfy to count.\<close>

definition clearance_good ::
    "input \<Rightarrow> profile \<Rightarrow> token_key \<Rightarrow> revoked_fn option \<Rightarrow> clearances_fn option \<Rightarrow> clearance \<Rightarrow> bool" where
  "clearance_good i p key rv cl c \<longleftrightarrow>
     OpenClearance key (i_clearance i) (i_now i) (want_bind p (i_client_ip i) (i_user_agent i)) =
       (Some c, None) \<and>
     (case rv of None \<Rightarrow> True | Some f \<Rightarrow> c_fp c = [] \<or> \<not> f (''fp:'' @ c_fp c)) \<and>
     (ListEnabled (p_clearance p) \<and> i_now i - from_unix (c_issued c) > cc_grace (p_clearance p) \<longrightarrow>
        (\<exists>f. cl = Some f \<and> f (cc_list (p_clearance p)) (c_jti c) = (True, True)))"

lemma open_clearance_good:
  "fst (open_clearance i p key rv cl) = Some c \<longleftrightarrow> i_clearance i \<noteq> [] \<and> clearance_good i p key rv cl c"
proof (cases "i_clearance i = []")
  case True
  then show ?thesis by (simp add: open_clearance_def)
next
  case False
  obtain c' e where o: "OpenClearance key (i_clearance i) (i_now i)
      (want_bind p (i_client_ip i) (i_user_agent i)) = (c', e)" by fastforce
  show ?thesis
    using False
    by (cases e; cases c')
      (auto simp: open_clearance_def clearance_good_def o
        split: token_error.splits option.splits prod.splits if_splits)
qed

lemma open_clearance_code:
  "snd (snd (open_clearance i p key rv cl)) = f \<Longrightarrow>
   (fst (open_clearance i p key rv cl) \<noteq> None \<longleftrightarrow> fst (snd (open_clearance i p key rv cl)) = CodeOK)"
  by (auto simp: open_clearance_def split: token_error.splits option.splits prod.splits if_splits)

lemma open_input_clearance:
  assumes "i_profile i = Some p"
  shows "op_clearance (Open_input i key rv cl) = fst (open_clearance i p key rv cl)"
    "op_code (Open_input i key rv cl) = fst (snd (open_clearance i p key rv cl))"
  using assms by (simp_all add: Open_input_def split: prod.split)

lemma open_clearance_list:
  assumes "fst (snd (open_clearance i p key rv cl)) = CodeListUnavailable"
  shows "ListEnabled (p_clearance p) \<and>
     (cl = None \<or> (\<exists>f jti listed. cl = Some f \<and> f (cc_list (p_clearance p)) jti = (listed, False)))"
  using assms
  by (auto simp: open_clearance_def split: token_error.splits option.splits prod.splits if_splits)

section \<open>Return paths\<close>

definition local_path_ok :: "string \<Rightarrow> bool" where
  "local_path_ok s \<longleftrightarrow> s \<noteq> [] \<and> hd s = CHR ''/'' \<and> \<not> has_prefix s ''//'' \<and> length s \<le> 1024 \<and>
     list_all graphic s \<and> CHR 0x5C \<notin> set s"

lemma byte_of_eq: "byte_of c = byte_of d \<longleftrightarrow> c = d"
  by (simp add: byte_of_def)

lemma return_bytes_ok:
  "\<not> list_ex (\<lambda>c. byte_of c < 0x21 \<or> byte_of c > 0x7e \<or> byte_of c = 0x5c) out \<Longrightarrow>
     list_all graphic out \<and> CHR 0x5C \<notin> set out"
proof -
  have bs: "byte_of (CHR 0x5C) = 0x5c" by (simp add: byte_of_def)
  assume a: "\<not> list_ex (\<lambda>c. byte_of c < 0x21 \<or> byte_of c > 0x7e \<or> byte_of c = 0x5c) out"
  then have "CHR 0x5C \<notin> set out" unfolding list_ex_iff using bs by blast
  moreover have "list_all graphic out"
    using a unfolding list_ex_iff list_all_iff graphic_def by fastforce
  ultimately show ?thesis by simp
qed

lemma return_path_ok: "returnPath uri args = [] \<or> local_path_ok (returnPath uri args)"
proof (cases "returnPath uri args = []")
  case False
  define out where "out = (if args \<noteq> [] then uri @ ''?'' @ args else uri)"
  have r: "returnPath uri args = out"
    and u: "uri \<noteq> []" "hd uri = CHR ''/''" "\<not> has_prefix uri ''//''" "length out \<le> 1024"
    and b: "list_all graphic out \<and> CHR 0x5C \<notin> set out"
    using False return_bytes_ok [of out]
    by (auto simp: returnPath_def out_def [symmetric] Let_def split: if_splits)
  have "hd out = CHR ''/''" "out \<noteq> []" using u by (auto simp: out_def)
  moreover have "\<not> has_prefix out ''//''"
    using u(1,3) unfolding out_def
    by (cases uri; cases "tl uri") (auto simp: has_prefix_def split: if_splits)
  ultimately show ?thesis using u(4) b by (simp add: r local_path_ok_def)
qed simp

lemma byte_div_mod:
  "0 \<le> byte_of c div 16" "byte_of c div 16 < 16" "0 \<le> byte_of c mod 16" "byte_of c mod 16 < 16"
proof -
  have "0 \<le> n div 16 \<and> n div 16 < 16 \<and> 0 \<le> n mod 16 \<and> n mod 16 < 16"
    if "0 \<le> n" "n < 256" for n :: int
    using that by auto
  from this [OF byte_of_range] show "0 \<le> byte_of c div 16" "byte_of c div 16 < 16"
    "0 \<le> byte_of c mod 16" "byte_of c mod 16 < 16"
    by auto
qed

lemma query_escape_chars:
  "list_all (\<lambda>c. query_safe c \<or> c = CHR ''+'' \<or> c = CHR ''%'') (query_escape s)"
proof -
  have hex: "query_safe (upper_hex n)" if "0 \<le> n" "n < 16" for n
    using that by (simp add: upper_hex_def query_safe_def ascii_letter_def upper_letter_def
        digit_char_def byte_of_char_of)
  show ?thesis
    unfolding query_escape_def list_all_iff by (auto intro!: hex byte_div_mod split: if_splits)
qed

section \<open>Asks\<close>

lemma take_ask_skip:
  "as_skip (fst (take_ask p act s)) \<longleftrightarrow> as_skip (fst s) \<or> a_do act = DoSkip"
  by (auto simp: take_ask_def take_note_def Let_def split: prod.split)

lemma take_ask_notes:
  "set (as_notes (fst (take_ask p act s))) \<subseteq> set (as_notes (fst s)) \<union>
     (if a_do act = DoNote then
        {n. n_axis n \<in> set (note_kinds p (Scope act)) \<and> n_percent n = a_value act \<and> n_code n = a_code act}
      else {})"
  by (auto simp: take_ask_def take_note_def Let_def split: prod.split)

lemma deliver_loop:
  "P (foldl (\<lambda>s r. if g r then f s else s) s rs) \<Longrightarrow>
     P s \<or> (\<exists>r \<in> set rs. \<exists>s. g r \<and> \<not> P s \<and> P (f s))"
proof (induction rs arbitrary: s)
  case (Cons r rs)
  from Cons.IH [of "if g r then f s else s"] Cons.prems show ?case
    by (auto split: if_splits)
qed simp

lemma deliver_skip:
  assumes "as_skip (deliver p src a act)" "\<not> as_skip a"
  shows "a_do act = DoSkip \<and> (\<exists>r \<in> set (tg_prior (p_trigger p)). rule_hears src act r)"
proof -
  let ?out = "\<lparr>o_from = src, o_do = a_do act, o_apply = Scope act, o_code = a_code act,
      o_value = a_value act, o_delta = a_delta act, o_took = 0, o_outcome = OutcomeNoRule\<rparr>"
  have "as_skip (fst (foldl (\<lambda>s r. if rule_hears src act r then take_ask p act s else s) (a, ?out)
      (tg_prior (p_trigger p))))"
    using assms(1) by (simp add: deliver_def Let_def split: prod.splits)
  from deliver_loop [where P = "\<lambda>s. as_skip (fst s)" and f = "take_ask p act", OF this]
  show ?thesis using assms(2) by (auto simp: take_ask_skip)
qed

lemma deliver_note:
  assumes "n \<in> set (as_notes (deliver p src a act))" "n \<notin> set (as_notes a)"
  shows "a_do act = DoNote \<and> n_axis n \<in> set (note_kinds p (Scope act)) \<and> n_percent n = a_value act \<and>
     (\<exists>r \<in> set (tg_prior (p_trigger p)). rule_hears src act r)"
proof -
  let ?out = "\<lparr>o_from = src, o_do = a_do act, o_apply = Scope act, o_code = a_code act,
      o_value = a_value act, o_delta = a_delta act, o_took = 0, o_outcome = OutcomeNoRule\<rparr>"
  have "n \<in> set (as_notes (fst (foldl (\<lambda>s r. if rule_hears src act r then take_ask p act s else s)
      (a, ?out) (tg_prior (p_trigger p)))))"
    using assms(1) by (simp add: deliver_def Let_def split: prod.splits)
  from deliver_loop [where P = "\<lambda>s. n \<in> set (as_notes (fst s))" and f = "take_ask p act", OF this]
  show ?thesis
    using assms(2) take_ask_notes [of p act] by (fastforce split: if_splits)
qed

lemma prior_ask_loop:
  assumes step: "\<And>src a act. P (deliver p src a act) \<Longrightarrow> \<not> P a \<Longrightarrow> R src act"
    and fin: "P (PriorAsk prior (Some p))" and start: "\<not> P empty_asked"
  shows "\<exists>v \<in> set prior. \<exists>act \<in> set (pv_actions v). R (pv_inspector v) act"
proof -
  let ?step = "\<lambda>a v. if pv_phase v \<noteq> [] \<and> pv_phase v \<noteq> PhaseRequest then a
      else foldl (deliver p (pv_inspector v)) a (pv_actions v)"
  have inner: "P (foldl (deliver p src) a acts) \<Longrightarrow> P a \<or> (\<exists>act \<in> set acts. R src act)" for a acts src
  proof (induction acts arbitrary: a)
    case (Cons act acts)
    then show ?case using step [of src a act] by force
  qed simp
  have "P (foldl ?step a prior) \<Longrightarrow>
      P a \<or> (\<exists>v \<in> set prior. \<exists>act \<in> set (pv_actions v). R (pv_inspector v) act)" for a
  proof (induction prior arbitrary: a)
    case (Cons v prior)
    then have "P (?step a v) \<or> (\<exists>v \<in> set prior. \<exists>act \<in> set (pv_actions v). R (pv_inspector v) act)"
      by simp
    then show ?case
      using inner [of "pv_inspector v" a "pv_actions v"] by (auto split: if_splits)
  qed simp
  then show ?thesis
    using fin start unfolding PriorAsk_def option.case by blast
qed

section \<open>Properties\<close>


definition sample_input :: input where
  "sample_input = \<lparr>i_profile = Some (sample_profile\<lparr>p_mode := ModeObserve\<rparr>), i_ask = ''sample'',
     i_method = ''GET'', i_uri = ''/login'', i_args = [], i_client_ip = ''10.0.0.1'',
     i_clearance = [], i_ticket = [], i_user_agent = [], i_accept = ''text/html'',
     i_sec_fetch_dest = [], i_upgrade_insecure = False, i_asked = empty_asked, i_levels = [],
     i_store_unavailable = [], i_opened = None, i_now = 0\<rparr>"

definition sample_rnd :: randomness where
  "sample_rnd = \<lparr>rnd_id = ''x'', rnd_nonce = ''0''\<rparr>"

lemma sample_opened:
  "opened_of (sample_input\<lparr>i_profile := Some p\<rparr>) key rv cl =
     \<lparr>op_clearance = None, op_code = CodeRequired, op_findings = []\<rparr>"
  by (simp add: opened_of_def sample_input_def Open_input_def open_clearance_def)


lemma gate_core:
  assumes prof: "i_profile i = Some p" "p_mode p = ModeEnforce" "\<not> OwnPath p (i_uri i)"
    and asks: "ru_when (RuleFor p (i_method i) (i_uri i)) = WhenAlways" "\<not> as_skip (i_asked i)"
    and op: "i_opened i = None \<or> i_opened i = Some (Open_input i key rv cl)"
    and ok: "r_verdict (Check i key rv cl rnd) = VerdictAllow"
  shows "\<exists>c. clearance_good i p key rv cl c \<and> unix (i_now i) < c_expiry c \<and>
     (BindsNet p \<longrightarrow> c_net c = [] \<or> b_net (want_bind p (i_client_ip i) (i_user_agent i)) \<in> {[], c_net c}) \<and>
     (BindsUA p \<longrightarrow> c_ua c = [] \<or> Fingerprint (i_user_agent i) \<in> {[], c_ua c}) \<and>
     \<not> bucketFull i p KindSess"
proof -
  have o: "opened_of i key rv cl = Open_input i key rv cl"
    using op by (auto simp: opened_of_def)
  have v: "verdict_spec i p key rnd (Open_input i key rv cl) = VerdictAllow"
    using decision_table [OF prof(1), of key rv cl rnd] ok o by simp
  have "trigger_of i p (Open_input i key rv cl) \<noteq> []"
    using asks by (simp add: trigger_of_def required_def)
  then have ps: "passes_clearance i p (Open_input i key rv cl)"
    using v prof(2,3) by (auto simp: verdict_spec_def split: if_splits)
  then obtain c where c: "op_clearance (Open_input i key rv cl) = Some c"
    by (auto simp: passes_clearance_def)
  then have good: "clearance_good i p key rv cl c"
    using open_clearance_good [of i p key rv cl c] open_input_clearance(1) [OF prof(1), of key rv cl]
    by simp
  have oc: "OpenClearance key (i_clearance i) (i_now i)
      (want_bind p (i_client_ip i) (i_user_agent i)) = (Some c, None)"
    using good by (simp add: clearance_good_def)
  have ua: "BindsUA p \<Longrightarrow> b_ua (want_bind p (i_client_ip i) (i_user_agent i)) = Fingerprint (i_user_agent i)"
    by (simp add: want_bind_def Let_def)
  show ?thesis
    using open_clearance_ok [OF oc] good ps ua by (auto simp: passes_clearance_def)
qed

text \<open>C3: The gate. In enforce mode, on a page that always asks and with no accepted skip, a request
  outside the captcha's own path is allowed only on a clearance that opens under the process's key
  for this visitor (unexpired, its network and user agent agreeing where both are known), whose
  fingerprint is not revoked, which the clearance list names as present wherever the list applies,
  and whose session bucket is not full.\<close>

theorem gate_needs_clearance:
  assumes prof: "i_profile i = Some p" "p_mode p = ModeEnforce" "\<not> OwnPath p (i_uri i)"
    and asks: "ru_when (RuleFor p (i_method i) (i_uri i)) = WhenAlways" "\<not> as_skip (i_asked i)"
    and op: "i_opened i = None \<or> i_opened i = Some (Open_input i key rv cl)"
    and ok: "r_verdict (Check i key rv cl rnd) = VerdictAllow"
  shows "\<exists>c. clearance_good i p key rv cl c \<and> unix (i_now i) < c_expiry c \<and>
     (BindsNet p \<longrightarrow> c_net c = [] \<or> b_net (want_bind p (i_client_ip i) (i_user_agent i)) \<in> {[], c_net c}) \<and>
     (BindsUA p \<longrightarrow> c_ua c = [] \<or> Fingerprint (i_user_agent i) \<in> {[], c_ua c}) \<and>
     \<not> bucketFull i p KindSess"
  by (rule gate_core [OF prof asks op ok])

definition cleared_profile :: profile where
  "cleared_profile = sample_profile
     \<lparr>p_clearance := (p_clearance sample_profile)\<lparr>cc_bind := [], cc_list := []\<rparr>,
      p_trigger := \<lparr>tg_when = WhenAlways, tg_prior = []\<rparr>\<rparr>"

definition toy_raw :: string where
  "toy_raw = clearancePrefix @ ''.'' @ b64_encode (''0'' @ ad_seal toy_aead ''0'' ''j'' clearancePrefix)"

lemma toy_sealed: "SealClearance toy_key ''0'' toy_clearance = Some toy_raw"
  by (simp add: SealClearance_def seal_token_def toy_key_def toy_raw_def toy_clearance_def
      del: b64_encode_def)

lemma toy_opens:
  "OpenClearance toy_key toy_raw (from_unix 150) \<lparr>b_net = [], b_ua = []\<rparr> = (Some toy_clearance, None)"
proof -
  have a: "aead_correct (k_gcm toy_key)" by (simp add: toy_key_def toy_aead_correct)
  have n: "length ''0'' = ad_nonce_size (k_gcm toy_key)" "''0'' \<noteq> []"
    by (simp_all add: toy_key_def toy_aead_def)
  have st: "seal_token toy_key ''0'' clearancePrefix (Some ''j'') = Some toy_raw"
    using toy_sealed by (simp add: SealClearance_def toy_key_def toy_clearance_def)
  have "open_token toy_key clearancePrefix toy_raw (dec_clearance (k_json toy_key)) = Inr toy_clearance"
    using open_sealed [OF _ n(1) a n(2) st, of "dec_clearance (k_json toy_key)"]
    by (simp add: toy_key_def)
  then show ?thesis by (simp add: OpenClearance_def toy_clearance_def)
qed

definition cleared_input :: input where
  "cleared_input = sample_input\<lparr>i_profile := Some cleared_profile, i_clearance := toy_raw,
     i_now := from_unix 150\<rparr>"

lemma cleared_profile_facts:
  "p_mode cleared_profile = ModeEnforce" "\<not> OwnPath cleared_profile ''/login''"
  "ru_when (RuleFor cleared_profile meth uri) = WhenAlways"
  "\<not> BindsNet cleared_profile" "\<not> BindsUA cleared_profile" "\<not> ListEnabled (p_clearance cleared_profile)"
  "bt_captcha_at (bucket_tier_of (p_buckets cleared_profile) kind) = 0"
  by (simp_all add: cleared_profile_def sample_profile_def defaults_def OwnPath_def RuleFor_def Let_def
      BindsNet_def BindsUA_def hasBind_def ListEnabled_def bucket_tier_of_def zero_tier_def
      trim_right_def has_prefix_def)

lemma cleared_want: "want_bind cleared_profile ip ua = \<lparr>b_net = [], b_ua = []\<rparr>"
  by (simp add: want_bind_def cleared_profile_facts Let_def)

lemma toy_raw_nonempty: "toy_raw \<noteq> []"
  by (simp add: toy_raw_def)

lemma cleared_allow: "r_verdict (Check cleared_input toy_key None None sample_rnd) = VerdictAllow"
proof -
  have p: "i_profile cleared_input = Some cleared_profile" by (simp add: cleared_input_def)
  have "clearance_good cleared_input cleared_profile toy_key None None toy_clearance"
    by (simp add: clearance_good_def cleared_input_def cleared_want toy_opens cleared_profile_facts)
  then have "op_clearance (opened_of cleared_input toy_key None None) = Some toy_clearance"
    using open_clearance_good [of cleared_input cleared_profile toy_key None None toy_clearance]
      open_input_clearance(1) [OF p, of toy_key None None] toy_raw_nonempty
    by (simp add: opened_of_def cleared_input_def sample_input_def)
  moreover have "op_code (opened_of cleared_input toy_key None None) \<noteq> CodeListUnavailable"
    using open_clearance_list [of cleared_input cleared_profile toy_key None None]
      open_input_clearance(2) [OF p, of toy_key None None] cleared_profile_facts(6)
    by (auto simp: opened_of_def cleared_input_def sample_input_def)
  ultimately show ?thesis
    unfolding decision_table [OF p]
    by (simp add: verdict_spec_def passes_clearance_def bucketFull_def cleared_profile_facts Let_def)
qed

theorem gate_needs_clearance_witness:
  "\<exists>c. clearance_good cleared_input cleared_profile toy_key None None c \<and> 150 < c_expiry c"
proof -
  have "\<exists>c. clearance_good cleared_input cleared_profile toy_key None None c \<and>
      unix (i_now cleared_input) < c_expiry c \<and>
      (BindsNet cleared_profile \<longrightarrow> c_net c = [] \<or> b_net (want_bind cleared_profile
         (i_client_ip cleared_input) (i_user_agent cleared_input)) \<in> {[], c_net c}) \<and>
      (BindsUA cleared_profile \<longrightarrow> c_ua c = [] \<or>
         Fingerprint (i_user_agent cleared_input) \<in> {[], c_ua c}) \<and>
      \<not> bucketFull cleared_input cleared_profile KindSess"
    by (rule gate_needs_clearance [OF _ _ _ _ _ _ cleared_allow])
      (simp_all add: cleared_input_def sample_input_def cleared_profile_facts empty_asked_def)
  then show ?thesis by (auto simp: cleared_input_def)
qed

lemma observe_core:
  assumes "i_profile i = Some p" "p_mode p = ModeObserve"
  shows "(r_verdict (Check i key rv cl rnd) = VerdictAllow \<or>
      r_verdict (Check i key rv cl rnd) = VerdictError \<and> \<not> OwnPath p (i_uri i) \<and>
        op_code (opened_of i key rv cl) = CodeListUnavailable) \<and>
    (op_code (opened_of i key rv cl) = CodeListUnavailable \<and> \<not> OwnPath p (i_uri i) \<longrightarrow>
      r_verdict (Check i key rv cl rnd) = VerdictError) \<and>
    r_cookies (Check i key rv cl rnd) = [] \<and> r_redirect_url (Check i key rv cl rnd) = [] \<and>
    \<not> r_inline (Check i key rv cl rnd)"
proof -
  have "r_cookies (decide_opened i p key rnd op e) = [] \<and>
      r_redirect_url (decide_opened i p key rnd op e) = [] \<and>
      \<not> r_inline (decide_opened i p key rnd op e)" for op e
    using decide_opened_cases [of op i p key rnd e] assms(2) by auto
  then have "r_cookies (check_body i key rv cl rnd) = [] \<and>
      r_redirect_url (check_body i key rv cl rnd) = [] \<and> \<not> r_inline (check_body i key rv cl rnd)"
    using check_body_cases [OF assms(1), of key rv cl rnd] by auto
  then show ?thesis
    using decision_table [OF assms(1), of key rv cl rnd] assms(2) by (simp add: verdict_spec_def)
qed

text \<open>Observe mode never blocks. Whatever the request, the clearance and the asks, the verdict is
  allow, no cookie is set and no redirect is named, with one exception: when the clearance list is
  unavailable the verdict is an error, in observe mode as in any other.\<close>

theorem observe_never_blocks:
  assumes "i_profile i = Some p" "p_mode p = ModeObserve"
  shows "(r_verdict (Check i key rv cl rnd) = VerdictAllow \<or>
      r_verdict (Check i key rv cl rnd) = VerdictError \<and> \<not> OwnPath p (i_uri i) \<and>
        op_code (opened_of i key rv cl) = CodeListUnavailable) \<and>
    (op_code (opened_of i key rv cl) = CodeListUnavailable \<and> \<not> OwnPath p (i_uri i) \<longrightarrow>
      r_verdict (Check i key rv cl rnd) = VerdictError) \<and>
    r_cookies (Check i key rv cl rnd) = [] \<and> r_redirect_url (Check i key rv cl rnd) = [] \<and>
    \<not> r_inline (Check i key rv cl rnd)"
  using assms by (rule observe_core)

theorem observe_never_blocks_witness:
  "r_cookies (Check sample_input toy_key None None sample_rnd) = []"
  using observe_never_blocks [of sample_input "sample_profile\<lparr>p_mode := ModeObserve\<rparr>" toy_key None None
      sample_rnd]
  by (simp add: sample_input_def)


definition enforce_input :: input where
  "enforce_input = sample_input
     \<lparr>i_profile := Some (cleared_profile\<lparr>p_gate := (p_gate cleared_profile)\<lparr>g_inline := False\<rparr>\<rparr>)\<rparr>"

lemma toy_ticket_sealed: "issueTicket i p toy_key rnd n \<noteq> []"
  by (simp add: issueTicket_def SealTicket_def seal_token_def toy_key_def)

lemma enforce_redirects:
  "r_verdict (Check enforce_input toy_key None None sample_rnd) = VerdictRedirect"
proof -
  let ?p = "cleared_profile\<lparr>p_gate := (p_gate cleared_profile)\<lparr>g_inline := False\<rparr>\<rparr>"
  have p: "i_profile enforce_input = Some ?p" by (simp add: enforce_input_def)
  have o: "opened_of enforce_input toy_key None None =
      \<lparr>op_clearance = None, op_code = CodeRequired, op_findings = []\<rparr>"
    unfolding enforce_input_def by (rule sample_opened)
  have "ru_when (RuleFor ?p meth uri) = WhenAlways" for meth uri
    using cleared_profile_facts(3) [of meth uri] by (simp add: RuleFor_def)
  then have t: "trigger_of enforce_input ?p \<lparr>op_clearance = None, op_code = CodeRequired, op_findings = []\<rparr>
      = TriggerAlways"
    by (simp add: trigger_of_def required_def enforce_input_def sample_input_def empty_asked_def)
  have n: "navigational enforce_input ?p" "\<not> FormInline ?p"
    by (simp_all add: navigational_def RedirectsMethod_def FormInline_def cleared_profile_def
        sample_profile_def defaults_def enforce_input_def sample_input_def showsPage_def
        acceptsHTML_def has_prefix_def Let_def)
  have m: "p_mode ?p = ModeEnforce" "\<not> OwnPath ?p (i_uri enforce_input)"
    using cleared_profile_facts(1,2)
    by (simp_all add: OwnPath_def enforce_input_def sample_input_def split: if_splits)
  show ?thesis
    unfolding decision_table [OF p] o
    by (simp add: verdict_spec_def t n m passes_clearance_def ticket_sealed_def toy_ticket_sealed)
qed


text \<open>A rule of a validated profile that hears a skip or a note names the inspector.\<close>

lemma hearing_rule_named:
  assumes "ValidateProfile p0 = (None, q)" "rule_hears src act r" "r \<in> set (tg_prior (p_trigger q))"
    "a_do act \<in> {DoSkip, DoNote}"
  shows "pri_from r = src \<and> pri_from r \<noteq> AnyInspector"
proof -
  have "validatePrior r = None"
    using validated_self [OF assms(1)] assms(3) by (auto simp: validate_success intro: validate_head_prior)
  then have any: "pri_from r = AnyInspector \<Longrightarrow> set (pri_accept r) = {DoChallenge}"
    by (rule validate_prior_any)
  have src: "pri_from r = AnyInspector \<or> pri_from r = src"
    and acc: "a_do act \<in> set (pri_accept r) \<or> AnyVerb \<in> set (pri_accept r)"
    using assms(2) unfolding rule_hears_def accepts_iff by blast+
  have "pri_from r \<noteq> AnyInspector"
  proof
    assume "pri_from r = AnyInspector"
    from acc have "a_do act = DoChallenge \<or> AnyVerb = DoChallenge"
      unfolding any [OF \<open>pri_from r = AnyInspector\<close>] by blast
    with assms(4) show False by (elim disjE insertE emptyE) simp_all
  qed
  with src show ?thesis by blast
qed

lemma note_kinds_enabled:
  "kind \<in> set (note_kinds q s) \<Longrightarrow> tier_enabled (bucket_tier_of (p_buckets q) kind)"
  by (auto simp: note_kinds_def bucket_tier_of_def split: if_splits)

text \<open>Where a skip and a note come from.\<close>

lemma skip_heard:
  assumes "as_skip (PriorAsk prior (Some q))"
  shows "\<exists>v \<in> set prior. \<exists>act \<in> set (pv_actions v). a_do act = DoSkip \<and>
      (\<exists>r \<in> set (tg_prior (p_trigger q)). rule_hears (pv_inspector v) act r)"
  using assms deliver_skip
  by (intro prior_ask_loop [where P = as_skip and p = q and R = "\<lambda>src act. a_do act = DoSkip \<and>
    (\<exists>r \<in> set (tg_prior (p_trigger q)). rule_hears src act r)"]) (auto simp: empty_asked_def)

lemma note_heard:
  assumes "n \<in> set (as_notes (PriorAsk prior (Some q)))"
  shows "\<exists>v \<in> set prior. \<exists>act \<in> set (pv_actions v). a_do act = DoNote \<and>
      n_axis n \<in> set (note_kinds q (Scope act)) \<and> n_percent n = a_value act \<and>
      (\<exists>r \<in> set (tg_prior (p_trigger q)). rule_hears (pv_inspector v) act r)"
  using assms deliver_note
  by (intro prior_ask_loop [where P = "\<lambda>a. n \<in> set (as_notes a)" and p = q and
    R = "\<lambda>src act. a_do act = DoNote \<and> n_axis n \<in> set (note_kinds q (Scope act)) \<and>
      n_percent n = a_value act \<and> (\<exists>r \<in> set (tg_prior (p_trigger q)). rule_hears src act r)"])
    (auto simp: empty_asked_def)

text \<open>C10: Only a named inspector can weaken the gate. Under a validated profile a skip, or a note that
  charges a bucket, is taken only from an inspector that a rule of the profile names itself (never
  through a rule for any inspector) and that sent that verb; and a note charges only buckets that
  are switched on.\<close>

theorem weakening_is_named:
  assumes "ValidateProfile p0 = (None, q)"
  shows "(as_skip (PriorAsk prior (Some q)) \<longrightarrow>
      (\<exists>v \<in> set prior. \<exists>act \<in> set (pv_actions v). \<exists>r \<in> set (tg_prior (p_trigger q)).
         a_do act = DoSkip \<and> pri_from r = pv_inspector v \<and> pri_from r \<noteq> AnyInspector)) \<and>
    (\<forall>n \<in> set (as_notes (PriorAsk prior (Some q))).
       tier_enabled (bucket_tier_of (p_buckets q) (n_axis n)) \<and>
       (\<exists>v \<in> set prior. \<exists>act \<in> set (pv_actions v). \<exists>r \<in> set (tg_prior (p_trigger q)).
          a_do act = DoNote \<and> n_percent n = a_value act \<and> pri_from r = pv_inspector v \<and>
          pri_from r \<noteq> AnyInspector))"
proof (intro conjI impI ballI)
  note named = hearing_rule_named [OF assms]
  assume "as_skip (PriorAsk prior (Some q))"
  from skip_heard [OF this] show "\<exists>v \<in> set prior. \<exists>act \<in> set (pv_actions v).
      \<exists>r \<in> set (tg_prior (p_trigger q)).
        a_do act = DoSkip \<and> pri_from r = pv_inspector v \<and> pri_from r \<noteq> AnyInspector"
    using named by blast
next
  note named = hearing_rule_named [OF assms]
  fix n assume n: "n \<in> set (as_notes (PriorAsk prior (Some q)))"
  from note_heard [OF n] show "tier_enabled (bucket_tier_of (p_buckets q) (n_axis n))"
    using note_kinds_enabled by blast
  from note_heard [OF n] show "\<exists>v \<in> set prior. \<exists>act \<in> set (pv_actions v).
      \<exists>r \<in> set (tg_prior (p_trigger q)). a_do act = DoNote \<and> n_percent n = a_value act \<and>
        pri_from r = pv_inspector v \<and> pri_from r \<noteq> AnyInspector"
    using named by blast
qed

definition plain_action :: "string \<Rightarrow> action" where
  "plain_action verb = \<lparr>a_to = [], a_do = verb, a_apply = [], a_phase = [], a_code = [], a_delta = 0,
     a_value = 0, a_counter = [], a_marker = [], a_group = [], a_set = [], a_ttl = None, a_when = [],
     a_headers = None, a_args = None, a_body = None\<rparr>"

definition sample_prior :: "string \<Rightarrow> string \<Rightarrow> prior_verdict" where
  "sample_prior src verb = \<lparr>pv_phase = [], pv_wave = 0, pv_inspector = src, pv_verdict = [],
     pv_score = 0, pv_reason = None, pv_actions = [plain_action verb]\<rparr>"

lemma sample_rules:
  "tg_prior (p_trigger (fill_grace sample_profile)) =
     [\<lparr>pri_from = AnyInspector, pri_accept = [DoChallenge], pri_codes = []\<rparr>,
      \<lparr>pri_from = ''geo'', pri_accept = [DoSkip, DoNote], pri_codes = []\<rparr>]"
  by (simp add: fill_grace_def sample_profile_def)

lemma sample_skips: "as_skip (PriorAsk [sample_prior ''geo'' DoSkip] (Some (fill_grace sample_profile)))"
  by (simp add: PriorAsk_def sample_prior_def plain_action_def deliver_def sample_rules rule_hears_def
      Accepts_def WantsCode_def take_ask_def empty_asked_def Let_def)

theorem weakening_is_named_witness:
  "\<exists>r \<in> set (tg_prior (p_trigger (fill_grace sample_profile))). pri_from r = ''geo''"
proof -
  have "\<exists>v \<in> set [sample_prior ''geo'' DoSkip]. \<exists>act \<in> set (pv_actions v).
      \<exists>r \<in> set (tg_prior (p_trigger (fill_grace sample_profile))).
        a_do act = DoSkip \<and> pri_from r = pv_inspector v \<and> pri_from r \<noteq> AnyInspector"
    using conjunct1 [OF weakening_is_named [OF sample_valid, of "[sample_prior ''geo'' DoSkip]"]]
      sample_skips by blast
  then show ?thesis by (auto simp: sample_prior_def)
qed

text \<open>Attempts are counted through the sealed ticket. The ticket a challenge sets, presented with a
  later request of the same profile before it expires, raises the attempt by one; under any other
  profile, or once expired, counting starts again at 1.\<close>

theorem attempts_count:
  assumes aead: "aead_correct (k_gcm key)"
    and nonce: "length (rnd_nonce rnd) = ad_nonce_size (k_gcm key)" "rnd_nonce rnd \<noteq> []" "rnd_id rnd \<noteq> []"
    and json: "\<And>body. enc_ticket (k_json key) (ticket_of i p rnd n) = Some body \<Longrightarrow>
        dec_ticket (k_json key) body = Some (ticket_of i p rnd n)"
    and issued: "issueTicket i p key rnd n = [ck]" and shown: "i_ticket j = ck_value ck"
    and live: "t_expiry (ticket_of i p rnd n) \<noteq> 0"
  shows "attemptOf j p' key =
     (if unix (i_now j) < unix (i_now i + ch_ttl (p_challenge p)) \<and> p_name p' = p_name p
      then i64 (n + 1) else 1)"
proof -
  let ?t = "ticket_of i p rnd n"
  obtain raw where raw: "SealTicket key (rnd_nonce rnd) ?t = Some raw" and ck: "ck_value ck = raw"
    using issued by (auto simp: issueTicket_def split: option.splits)
  obtain body where body: "enc_ticket (k_json key) ?t = Some body"
    using raw by (auto simp: SealTicket_def seal_token_def split: option.splits)
  have st: "seal_token key (rnd_nonce rnd) ticketPrefix (Some body) = Some raw"
    using raw body by (simp add: SealTicket_def)
  have o: "open_token key ticketPrefix raw (dec_ticket (k_json key)) = Inr ?t"
    using open_sealed [OF _ nonce(1) aead nonce(2) st, of "dec_ticket (k_json key)"] json [OF body]
    by simp
  have ne: "raw \<noteq> []" using st by (auto simp: seal_token_def)
  have id: "t_nonce ?t \<noteq> []"
    using nonce(3) by (cases "rnd_id rnd") (simp_all add: ticket_of_def NewID_def hex_encode_def Let_def)
  have f: "t_profile ?t = p_name p" "t_attempt ?t = n" "t_expiry ?t = unix (i_now i + ch_ttl (p_challenge p))"
    by (simp_all add: ticket_of_def Let_def)
  show ?thesis
    using id live ne f by (auto simp: attemptOf_def shown ck OpenTicket_def o)
qed

definition ticket_key :: "input \<Rightarrow> profile \<Rightarrow> token_key" where
  "ticket_key i p = toy_key\<lparr>k_json := (k_json toy_key)
     \<lparr>enc_ticket := (\<lambda>t. Some ''t''), dec_ticket := (\<lambda>b. Some (ticket_of i p sample_rnd 1))\<rparr>\<rparr>"

theorem attempts_count_witness:
  "\<exists>ck :: cookie. attemptOf (cleared_input\<lparr>i_ticket := ck_value ck\<rparr>) cleared_profile
     (ticket_key cleared_input cleared_profile) = 2"
proof -
  let ?key = "ticket_key cleared_input cleared_profile"
  let ?sealed = "ticketPrefix @ ''.'' @ b64_encode (''0'' @ ad_seal toy_aead ''0'' ''t'' ticketPrefix)"
  let ?ck = "\<lparr>ck_name = ch_cookie (p_challenge cleared_profile), ck_value = ?sealed,
      ck_path = p_path cleared_profile,
      ck_max_age = float_to_int (seconds_of f64 (ch_ttl (p_challenge cleared_profile)))\<rparr>"
  have iss: "issueTicket cleared_input cleared_profile ?key sample_rnd 1 = [?ck]"
    by (simp add: issueTicket_def SealTicket_def seal_token_def ticket_key_def toy_key_def sample_rnd_def)
  have now: "i_now cleared_input = from_unix 150" by (simp add: cleared_input_def)
  have ttl: "ch_ttl (p_challenge cleared_profile) = 5 * Minute"
    by (simp add: cleared_profile_def sample_profile_def defaults_def Let_def)
  have e: "unix (i_now cleared_input + ch_ttl (p_challenge cleared_profile)) = 450"
    by (simp add: now ttl unix_def from_unix_def)
  have "attemptOf (cleared_input\<lparr>i_ticket := ck_value ?ck\<rparr>) cleared_profile ?key =
      (if unix (i_now (cleared_input\<lparr>i_ticket := ck_value ?ck\<rparr>)) <
          unix (i_now cleared_input + ch_ttl (p_challenge cleared_profile)) \<and>
          p_name cleared_profile = p_name cleared_profile then i64 (1 + 1) else 1)"
  proof (rule attempts_count [OF _ _ _ _ _ iss])
    show "aead_correct (k_gcm ?key)" by (simp add: ticket_key_def toy_key_def toy_aead_correct)
    show "length (rnd_nonce sample_rnd) = ad_nonce_size (k_gcm ?key)" "rnd_nonce sample_rnd \<noteq> []"
      "rnd_id sample_rnd \<noteq> []"
      by (simp_all add: sample_rnd_def ticket_key_def toy_key_def toy_aead_def)
    show "i_ticket (cleared_input\<lparr>i_ticket := ck_value ?ck\<rparr>) = ck_value ?ck" by simp
    show "t_expiry (ticket_of cleared_input cleared_profile sample_rnd 1) \<noteq> 0"
      using e by (simp add: ticket_of_def Let_def)
    show "dec_ticket (k_json ?key) body = Some (ticket_of cleared_input cleared_profile sample_rnd 1)"
      for body by (simp add: ticket_key_def)
  qed
  also have "\<dots> = 2" using e by (simp add: now i64_def)
  finally show ?thesis by blast
qed

text \<open>The events and the next step \<open>Check\<close> reports. \<open>cleared\<close> is reported exactly when a clearance
  let the request through, and then the next step is allow; \<open>uncleared\<close> never comes with a
  clearance; the next step is challenge exactly when there was a trigger, and a redirect or a
  denial always has one; an error has no next step.\<close>

theorem event_table:
  "(r_event (Check i key rv cl rnd) = OnCleared \<longleftrightarrow> r_clearance (Check i key rv cl rnd) \<noteq> None) \<and>
   r_event (Check i key rv cl rnd) \<in> {[], OnCleared, OnUncleared} \<and>
   (r_next (Check i key rv cl rnd) = NextChallenge \<longleftrightarrow> r_trigger (Check i key rv cl rnd) \<noteq> []) \<and>
   (r_clearance (Check i key rv cl rnd) \<noteq> None \<longrightarrow> r_next (Check i key rv cl rnd) = NextAllow) \<and>
   (r_verdict (Check i key rv cl rnd) \<in> {VerdictRedirect, VerdictDeny} \<longrightarrow>
      r_trigger (Check i key rv cl rnd) \<noteq> []) \<and>
   (r_verdict (Check i key rv cl rnd) = VerdictError \<longrightarrow> r_next (Check i key rv cl rnd) = [])"
proof (cases "i_profile i")
  case None
  then show ?thesis by (simp add: check_body_def eventOf_def nextOf_def)
next
  case (Some p)
  let ?r = "check_body i key rv cl rnd"
  have d: "(r_clearance (decide_opened i p key rnd op e) \<noteq> None \<longrightarrow>
        r_code (decide_opened i p key rnd op e) = CodeOK \<and>
        r_trigger (decide_opened i p key rnd op e) = [] \<and>
        r_verdict (decide_opened i p key rnd op e) = VerdictAllow) \<and>
      (r_verdict (decide_opened i p key rnd op e) \<in> {VerdictRedirect, VerdictDeny} \<longrightarrow>
        r_trigger (decide_opened i p key rnd op e) \<noteq> []) \<and>
      (r_verdict (decide_opened i p key rnd op e) = VerdictError \<longrightarrow>
        r_trigger (decide_opened i p key rnd op e) = [])" for op e
    using decide_opened_cases [of op i p key rnd e]
    by (auto simp: challenge_verdict split: if_splits)
  have "(r_clearance ?r \<noteq> None \<longrightarrow> r_code ?r = CodeOK \<and> r_trigger ?r = [] \<and> r_verdict ?r = VerdictAllow) \<and>
      (r_verdict ?r \<in> {VerdictRedirect, VerdictDeny} \<longrightarrow> r_trigger ?r \<noteq> []) \<and>
      (r_verdict ?r = VerdictError \<longrightarrow> r_trigger ?r = [])"
    using check_body_cases [OF Some, of key rv cl rnd] d by auto
  then show ?thesis by (auto simp: eventOf_def nextOf_def)
qed

theorem event_table_witness:
  "r_next (Check cleared_input toy_key None None sample_rnd) \<in> {NextAllow, NextChallenge, []}"
  using event_table [of cleared_input toy_key None None sample_rnd] cleared_allow
  by (auto simp: nextOf_def)

text \<open>The verdict observe mode says enforce mode would give (\<open>would_verdict\<close>) is the one enforce mode
  gives exactly when a navigational request gets its ticket and the form is not served inline; with
  \<open>gate.inline\<close> the log says redirect where enforce mode answers a denial carrying the form.\<close>

theorem would_verdict_exact:
  "wouldBe i p = r_verdict (challenge_result i p key rnd trigger code finding e) \<longleftrightarrow>
     (if navigational i p then ticket_sealed i p key rnd \<and> \<not> FormInline p else True)"
  by (auto simp: wouldBe_def challenge_verdict)

end
