(* ===== verification/Queue.thy ===== *)
theory Queue
  imports Protocol "HOL-Library.Multiset" "HOL-Library.Sublist"
begin

text \<open>
  Package \<open>internal/queue\<close>: the bounded pool between the message callback and the workers. The
  critical sections under \<open>Pool.mu\<close> are functions on the pool's state; the goroutines (submitters,
  workers, the sweeper, the timers of \<open>submitWaitLocked\<close>) are the step relation \<open>pool_step\<close>,
  with one step per critical section and every interleaving of them. A timer may also fire after its
  submitter is done: that is the step \<open>stray\<close>.

  A goroutine blocked in \<open>cond.Wait\<close> is counted (workers) or listed with its task (submitters).
  \<open>Broadcast\<close> wakes all; \<open>Signal\<close> wakes one, whichever the runtime picks. The replies to a batch of
  expired tasks touch nothing but the counters and belong to the step that collected the batch.
\<close>

section \<open>Data\<close>

abbreviation "ReasonQueueLimit \<equiv> ''CAPTCHA_QUEUE_LIMIT''"
abbreviation "ReasonDeadlineExceeded \<equiv> ''CAPTCHA_DEADLINE_EXCEEDED''"
abbreviation "FullDrop \<equiv> ''drop''"
abbreviation "FullWait \<equiv> ''wait''"

record task =
  tk_req :: request
  tk_reply :: string
  tk_fill :: int
  tk_enqueued :: go_time

record pool_cfg =
  pl_workers :: nat
  pl_depth :: nat
  pl_full :: string
  pl_reserve :: duration
  pl_min_budget :: duration

text \<open>A call of the handler: the task, its budget and the reason it was shed for, if any.\<close>

type_synonym handled = "task \<times> duration \<times> string"

record pool =
  pl_q :: "task list"
  pl_closed :: bool
  pl_awake :: nat
  pl_wait :: nat
  pl_busy :: "task list"
  pl_exited :: nat
  pl_new :: "task list"
  pl_ready :: "task list"
  pl_s_awake :: "(task \<times> bool) list"
  pl_s_wait :: "task list"
  pl_out :: "handled list"
  pl_accepted :: nat
  pl_shed :: nat
  pl_expired :: nat
  pl_submitted :: "task list"
  pl_enq :: "task list"
  pl_popped :: "task list"

definition new_cfg :: "nat \<Rightarrow> int \<Rightarrow> int \<Rightarrow> int \<Rightarrow> string \<Rightarrow> pool_cfg" where
  "new_cfg workers depth reserveMS minBudgetMS full =
     \<lparr>pl_workers = workers, pl_depth = nat (if depth < 1 then 1 else depth),
      pl_full = (if full = [] then FullDrop else full),
      pl_reserve = i64 (reserveMS * Millisecond), pl_min_budget = i64 (minBudgetMS * Millisecond)\<rparr>"

definition new_pool :: "pool_cfg \<Rightarrow> pool" where
  "new_pool cfg =
     \<lparr>pl_q = [], pl_closed = False, pl_awake = pl_workers cfg, pl_wait = 0, pl_busy = [],
      pl_exited = 0, pl_new = [], pl_ready = [], pl_s_awake = [], pl_s_wait = [], pl_out = [],
      pl_accepted = 0, pl_shed = 0, pl_expired = 0, pl_submitted = [], pl_enq = [],
      pl_popped = []\<rparr>"

section \<open>Critical sections\<close>

definition leftAt :: "pool_cfg \<Rightarrow> task \<Rightarrow> go_time \<Rightarrow> duration" where
  "leftAt cfg t now =
     (let deadline = i64 (q_deadline_ms (tk_req t) * Millisecond)
      in i64 (i64 (deadline - (now - tk_enqueued t)) - pl_reserve cfg))"

definition expired_at :: "pool_cfg \<Rightarrow> go_time \<Rightarrow> task \<Rightarrow> bool" where
  "expired_at cfg now t \<longleftrightarrow> leftAt cfg t now < pl_min_budget cfg"

definition fillLocked :: "pool_cfg \<Rightarrow> pool \<Rightarrow> int" where
  "fillLocked cfg s =
     (if length (pl_q s) \<ge> pl_depth cfg then 100
      else int (length (pl_q s)) * 100 div int (pl_depth cfg))"

definition broadcast :: "pool \<Rightarrow> pool" where
  "broadcast s = s\<lparr>pl_awake := pl_awake s + pl_wait s, pl_wait := 0,
     pl_s_awake := pl_s_awake s @ map (\<lambda>t. (t, False)) (pl_s_wait s), pl_s_wait := []\<rparr>"

text \<open>\<open>Signal\<close>: \<open>None\<close> wakes a worker, \<open>Some t\<close> the submitter of \<open>t\<close>.\<close>

definition signal :: "task option \<Rightarrow> pool \<Rightarrow> pool" where
  "signal choice s =
     (case choice of
        None \<Rightarrow> if pl_wait s = 0 then s
                else s\<lparr>pl_awake := pl_awake s + 1, pl_wait := pl_wait s - 1\<rparr>
      | Some t \<Rightarrow> s\<lparr>pl_s_awake := pl_s_awake s @ [(t, False)], pl_s_wait := remove1 t (pl_s_wait s)\<rparr>)"

definition signal_ok :: "task option \<Rightarrow> pool \<Rightarrow> bool" where
  "signal_ok choice s =
     (case choice of
        None \<Rightarrow> pl_wait s > 0 \<or> pl_s_wait s = []
      | Some t \<Rightarrow> t \<in> set (pl_s_wait s))"

definition expire :: "task \<Rightarrow> duration \<Rightarrow> pool \<Rightarrow> pool" where
  "expire t left s = s\<lparr>pl_expired := pl_expired s + 1,
     pl_out := pl_out s @ [(t, left, ReasonDeadlineExceeded)]\<rparr>"

definition shedLimit :: "task \<Rightarrow> pool \<Rightarrow> pool" where
  "shedLimit t s = s\<lparr>pl_shed := pl_shed s + 1, pl_out := pl_out s @ [(t, 0, ReasonQueueLimit)]\<rparr>"

definition replyDead :: "task list \<Rightarrow> pool \<Rightarrow> pool" where
  "replyDead dead s = foldl (\<lambda>s t. expire t 0 s) s dead"

definition takeExpiredLocked :: "pool_cfg \<Rightarrow> go_time \<Rightarrow> pool \<Rightarrow> task list \<times> pool" where
  "takeExpiredLocked cfg now s =
     (let dead = filter (expired_at cfg now) (pl_q s);
          s = s\<lparr>pl_q := filter (\<lambda>t. \<not> expired_at cfg now t) (pl_q s)\<rparr>
      in (dead, if dead \<noteq> [] then broadcast s else s))"

definition collectExpired :: "pool_cfg \<Rightarrow> go_time \<Rightarrow> pool \<Rightarrow> pool" where
  "collectExpired cfg now s = (let (dead, s) = takeExpiredLocked cfg now s in replyDead dead s)"

definition enqueueLocked :: "task option \<Rightarrow> task \<Rightarrow> pool \<Rightarrow> pool" where
  "enqueueLocked choice t s =
     signal choice (s\<lparr>pl_q := pl_q s @ [t], pl_accepted := pl_accepted s + 1,
       pl_enq := pl_enq s @ [t]\<rparr>)"

text \<open>One pass through the loop of \<open>submitWaitLocked\<close>, up to the next \<open>cond.Wait\<close> or the end.\<close>

definition wait_pass :: "pool_cfg \<Rightarrow> task option \<Rightarrow> go_time \<Rightarrow> task \<Rightarrow> bool \<Rightarrow> pool \<Rightarrow> pool" where
  "wait_pass cfg choice now t timedOut s =
     (if length (pl_q s) \<ge> pl_depth cfg \<and> \<not> timedOut \<and> \<not> pl_closed s
      then (case takeExpiredLocked cfg now s of (dead, s') \<Rightarrow>
              if dead \<noteq> []
              then (let s'' = replyDead dead s' in s''\<lparr>pl_s_awake := pl_s_awake s'' @ [(t, timedOut)]\<rparr>)
              else s'\<lparr>pl_s_wait := pl_s_wait s' @ [t]\<rparr>)
      else if pl_closed s then expire t 0 s
      else if length (pl_q s) < pl_depth cfg then enqueueLocked choice t s
      else expire t 0 s)"

text \<open>The part of \<open>Submit\<close> under the lock.\<close>

definition submit_locked :: "pool_cfg \<Rightarrow> task option \<Rightarrow> go_time \<Rightarrow> task \<Rightarrow> pool \<Rightarrow> pool" where
  "submit_locked cfg choice now t s =
     (if pl_closed s then expire t 0 s
      else let t = t\<lparr>tk_fill := fillLocked cfg s\<rparr>
           in if length (pl_q s) < pl_depth cfg then enqueueLocked choice t s
              else if pl_full cfg = FullWait
              then if leftAt cfg t now < pl_min_budget cfg then expire t (leftAt cfg t now) s
                   else wait_pass cfg choice now t False s
              else shedLimit t s)"

text \<open>\<open>pop\<close> as far as its next \<open>cond.Wait\<close> or its return; then \<open>replyDead(dead)\<close> of \<open>work\<close>. The
  caller is one of the awake workers.\<close>

definition pop_section :: "pool_cfg \<Rightarrow> go_time \<Rightarrow> pool \<Rightarrow> pool" where
  "pop_section cfg now s =
     (case takeExpiredLocked cfg now (s\<lparr>pl_awake := pl_awake s - 1\<rparr>) of (dead, s) \<Rightarrow>
        (case pl_q s of
           t # q \<Rightarrow>
             replyDead dead (let s = broadcast (s\<lparr>pl_q := q\<rparr>)
               in s\<lparr>pl_busy := pl_busy s @ [t], pl_popped := pl_popped s @ [t]\<rparr>)
         | [] \<Rightarrow>
             if pl_closed s then replyDead dead (s\<lparr>pl_exited := pl_exited s + 1\<rparr>)
             else if dead \<noteq> [] then replyDead dead (s\<lparr>pl_awake := pl_awake s + 1\<rparr>)
             else s\<lparr>pl_wait := pl_wait s + 1\<rparr>))"

definition budget :: "pool_cfg \<Rightarrow> go_time \<Rightarrow> task \<Rightarrow> duration \<times> string" where
  "budget cfg now t =
     (let left = leftAt cfg t now
      in if left < pl_min_budget cfg then (left, ReasonDeadlineExceeded) else (left, []))"

definition finish :: "pool_cfg \<Rightarrow> go_time \<Rightarrow> task \<Rightarrow> pool \<Rightarrow> pool" where
  "finish cfg now t s =
     (case budget cfg now t of (left, shed) \<Rightarrow>
        s\<lparr>pl_busy := remove1 t (pl_busy s), pl_awake := pl_awake s + 1,
          pl_expired := pl_expired s + (if shed \<noteq> [] then 1 else 0),
          pl_out := pl_out s @ [(t, left, shed)]\<rparr>)"

section \<open>Steps\<close>

inductive pool_step :: "pool_cfg \<Rightarrow> pool \<Rightarrow> pool \<Rightarrow> bool" for cfg where
  start_dead:
    "t = t0\<lparr>tk_enqueued := now\<rparr> \<Longrightarrow> leftAt cfg t now1 < pl_min_budget cfg \<Longrightarrow>
     pool_step cfg s (expire t (leftAt cfg t now2) (s\<lparr>pl_submitted := pl_submitted s @ [t]\<rparr>))"
| start_live:
    "t = t0\<lparr>tk_enqueued := now\<rparr> \<Longrightarrow> leftAt cfg t now1 \<ge> pl_min_budget cfg \<Longrightarrow>
     pool_step cfg s (s\<lparr>pl_submitted := pl_submitted s @ [t], pl_new := pl_new s @ [t]\<rparr>)"
| collect:
    "t \<in> set (pl_new s) \<Longrightarrow>
     pool_step cfg s
       (collectExpired cfg now (s\<lparr>pl_new := remove1 t (pl_new s), pl_ready := pl_ready s @ [t]\<rparr>))"
| lock:
    "t \<in> set (pl_ready s) \<Longrightarrow> signal_ok choice s \<Longrightarrow>
     pool_step cfg s (submit_locked cfg choice now t (s\<lparr>pl_ready := remove1 t (pl_ready s)\<rparr>))"
| timer:
    "(t, False) \<in> set (pl_s_awake (broadcast s)) \<Longrightarrow>
     s' = broadcast s \<Longrightarrow>
     pool_step cfg s (s'\<lparr>pl_s_awake := remove1 (t, False) (pl_s_awake s') @ [(t, True)]\<rparr>)"
| resume:
    "(t, timedOut) \<in> set (pl_s_awake s) \<Longrightarrow> signal_ok choice s \<Longrightarrow>
     pool_step cfg s
       (wait_pass cfg choice now t timedOut (s\<lparr>pl_s_awake := remove1 (t, timedOut) (pl_s_awake s)\<rparr>))"
| stray: "pool_step cfg s (broadcast s)"
| sweep: "pool_step cfg s (collectExpired cfg now s)"
| pop: "pl_awake s > 0 \<Longrightarrow> pool_step cfg s (pop_section cfg now s)"
| serve: "t \<in> set (pl_busy s) \<Longrightarrow> pool_step cfg s (finish cfg now t s)"
| close: "pool_step cfg s (broadcast (s\<lparr>pl_closed := True\<rparr>))"

inductive reachable :: "pool_cfg \<Rightarrow> pool \<Rightarrow> bool" for cfg where
  init: "reachable cfg (new_pool cfg)"
| step: "reachable cfg s \<Longrightarrow> pool_step cfg s s' \<Longrightarrow> reachable cfg s'"

inductive_cases pool_stepE: "pool_step cfg s s'"

section \<open>What the critical sections do to the tasks\<close>

definition tkey :: "task \<Rightarrow> request \<times> string" where
  "tkey t = (tk_req t, tk_reply t)"

lemma tkey_fill [simp]: "tkey (t\<lparr>tk_fill := f\<rparr>) = tkey t"
  by (simp add: tkey_def)

text \<open>The tasks in the pool's hands or already answered, as a multiset.\<close>

definition pool_tasks :: "pool \<Rightarrow> (request \<times> string) multiset" where
  "pool_tasks s = image_mset tkey (mset (pl_new s) + mset (pl_ready s) + mset (map fst (pl_s_awake s)) +
     mset (pl_s_wait s) + mset (pl_q s) + mset (pl_busy s) + mset (map fst (pl_out s)))"

lemma tasks_broadcast [simp]: "pool_tasks (broadcast s) = pool_tasks s"
  by (simp add: pool_tasks_def broadcast_def o_def)

lemma tasks_signal: "signal_ok choice s \<Longrightarrow> pool_tasks (signal choice s) = pool_tasks s"
  by (auto simp: pool_tasks_def signal_def signal_ok_def image_mset_Diff mset_subset_eq_single
      split: option.splits)

lemma tasks_expire [simp]: "pool_tasks (expire t left s) = add_mset (tkey t) (pool_tasks s)"
  by (simp add: pool_tasks_def expire_def)

lemma tasks_shed [simp]: "pool_tasks (shedLimit t s) = add_mset (tkey t) (pool_tasks s)"
  by (simp add: pool_tasks_def shedLimit_def)

lemma replyDead_simps [simp]:
  "replyDead [] s = s" "replyDead (t # ts) s = replyDead ts (expire t 0 s)"
  by (simp_all add: replyDead_def)

lemma tasks_replyDead [simp]:
  "pool_tasks (replyDead dead s) = pool_tasks s + image_mset tkey (mset dead)"
  by (induction dead arbitrary: s) simp_all

lemma take_expired_cases:
  assumes "takeExpiredLocked cfg now s = (dead, s')"
  shows "dead = [] \<and> s' = s \<or>
    dead \<noteq> [] \<and> (\<exists>kept. s' = broadcast (s\<lparr>pl_q := kept\<rparr>) \<and> length kept < length (pl_q s) \<and>
      subseq kept (pl_q s) \<and> mset (pl_q s) = mset kept + mset dead)"
proof (cases "filter (expired_at cfg now) (pl_q s) = []")
  case True
  then have "filter (\<lambda>t. \<not> expired_at cfg now t) (pl_q s) = pl_q s"
    by (simp add: filter_empty_conv filter_id_conv)
  with True assms show ?thesis by (simp add: takeExpiredLocked_def)
next
  case False
  have "length (filter (\<lambda>t. \<not> expired_at cfg now t) (pl_q s)) < length (pl_q s)"
    using False by (auto simp: filter_empty_conv intro!: length_filter_less)
  moreover have "mset (pl_q s) = mset (filter (\<lambda>t. \<not> expired_at cfg now t) (pl_q s)) +
      mset (filter (expired_at cfg now) (pl_q s))"
    by (metis add.commute mset_filter multiset_partition)
  ultimately show ?thesis
    using False assms by (auto simp: takeExpiredLocked_def subseq_filter_left)
qed

lemma tasks_take_expired:
  assumes "takeExpiredLocked cfg now s = (dead, s')"
  shows "pool_tasks s = pool_tasks s' + image_mset tkey (mset dead)"
proof -
  have split: "pool_tasks s = pool_tasks (s\<lparr>pl_q := kept\<rparr>) + image_mset tkey (mset dead)"
    if "mset (pl_q s) = mset kept + mset dead" for kept
    unfolding pool_tasks_def that by simp
  from take_expired_cases [OF assms] show ?thesis
  proof (elim disjE conjE exE)
    assume "dead = []" "s' = s"
    then show ?thesis by simp
  next
    fix kept assume "s' = broadcast (s\<lparr>pl_q := kept\<rparr>)" "mset (pl_q s) = mset kept + mset dead"
    then show ?thesis by (simp only: split tasks_broadcast)
  qed
qed

lemma tasks_collect [simp]: "pool_tasks (collectExpired cfg now s) = pool_tasks s"
  by (cases "takeExpiredLocked cfg now s")
    (simp add: collectExpired_def tasks_take_expired)

lemma tasks_enqueue:
  "signal_ok choice s \<Longrightarrow> pool_tasks (enqueueLocked choice t s) = add_mset (tkey t) (pool_tasks s)"
  unfolding enqueueLocked_def
  by (subst tasks_signal) (auto simp: signal_ok_def pool_tasks_def split: option.splits)

lemma tasks_wait_pass:
  assumes "signal_ok choice s"
  shows "pool_tasks (wait_pass cfg choice now t timedOut s) = add_mset (tkey t) (pool_tasks s)"
proof -
  obtain dead s' where te: "takeExpiredLocked cfg now s = (dead, s')" by fastforce
  have tasks: "pool_tasks s = pool_tasks s' + image_mset tkey (mset dead)"
    by (rule tasks_take_expired [OF te])
  have awake: "pool_tasks (x\<lparr>pl_s_awake := pl_s_awake x @ [(t, b)]\<rparr>) = add_mset (tkey t) (pool_tasks x)"
    and waits: "pool_tasks (x\<lparr>pl_s_wait := pl_s_wait x @ [t]\<rparr>) = add_mset (tkey t) (pool_tasks x)" for x b
    by (simp_all add: pool_tasks_def)
  show ?thesis
    using tasks take_expired_cases [OF te]
    by (auto simp: wait_pass_def te Let_def awake waits tasks_enqueue [OF assms])
qed

lemma tasks_submit_locked:
  assumes "signal_ok choice s"
  shows "pool_tasks (submit_locked cfg choice now t s) = add_mset (tkey t) (pool_tasks s)"
  by (simp add: submit_locked_def Let_def tasks_enqueue [OF assms] tasks_wait_pass [OF assms])

lemma tasks_pop: "pool_tasks (pop_section cfg now s) = pool_tasks s"
proof -
  let ?s = "s\<lparr>pl_awake := pl_awake s - 1\<rparr>"
  obtain dead s' where te: "takeExpiredLocked cfg now ?s = (dead, s')" by fastforce
  have "pool_tasks s = pool_tasks ?s" by (simp add: pool_tasks_def)
  also have "\<dots> = pool_tasks s' + image_mset tkey (mset dead)" by (rule tasks_take_expired [OF te])
  finally have tasks: "pool_tasks s = pool_tasks s' + image_mset tkey (mset dead)" .
  have popped: "pool_tasks (x\<lparr>pl_busy := pl_busy x @ [t], pl_popped := ps\<rparr>) = add_mset (tkey t) (pool_tasks x)"
    and head: "pl_q x = t # q \<Longrightarrow> pool_tasks x = add_mset (tkey t) (pool_tasks (x\<lparr>pl_q := q\<rparr>))"
    and counts: "pool_tasks (x\<lparr>pl_exited := n\<rparr>) = pool_tasks x" "pool_tasks (x\<lparr>pl_awake := n\<rparr>) = pool_tasks x"
      "pool_tasks (x\<lparr>pl_wait := n\<rparr>) = pool_tasks x" for x t q ps n
    by (simp_all add: pool_tasks_def)
  show ?thesis
  proof (cases "pl_q s'")
    case Nil
    then show ?thesis using tasks by (simp add: pop_section_def te [simplified] counts)
  next
    case (Cons t q)
    then show ?thesis
      using tasks by (simp add: pop_section_def te [simplified] Let_def popped head)
  qed
qed

lemma tasks_finish: "t \<in> set (pl_busy s) \<Longrightarrow> pool_tasks (finish cfg now t s) = pool_tasks s"
  by (auto simp: finish_def pool_tasks_def image_mset_Diff split: prod.split)

text \<open>Every task submitted is in one place, and stays until it is answered.\<close>

definition conserved :: "pool \<Rightarrow> bool" where
  "conserved s \<longleftrightarrow> image_mset tkey (mset (pl_submitted s)) = pool_tasks s"

section \<open>The invariant\<close>

text \<open>A submitter waits only while the queue is full; a worker waits only while every queued task
  has an awake worker coming for it; nobody waits once the pool is closed.\<close>

definition quiet :: "pool_cfg \<Rightarrow> pool \<Rightarrow> bool" where
  "quiet cfg s \<longleftrightarrow> length (pl_q s) \<le> pl_depth cfg \<and>
     (pl_s_wait s \<noteq> [] \<longrightarrow> length (pl_q s) = pl_depth cfg \<and> \<not> pl_closed s) \<and>
     (pl_closed s \<longrightarrow> pl_wait s = 0) \<and>
     (pl_wait s > 0 \<longrightarrow> length (pl_q s) \<le> pl_awake s) \<and>
     (pl_exited s > 0 \<longrightarrow> pl_closed s \<and> pl_q s = [])"

definition fifo :: "pool \<Rightarrow> bool" where
  "fifo s \<longleftrightarrow> subseq (pl_popped s @ pl_q s) (pl_enq s)"

definition staffed :: "pool_cfg \<Rightarrow> pool \<Rightarrow> bool" where
  "staffed cfg s \<longleftrightarrow> pl_awake s + pl_wait s + length (pl_busy s) + pl_exited s = pl_workers cfg"

definition counts :: "string \<Rightarrow> handled list \<Rightarrow> nat" where
  "counts why out = length (filter (\<lambda>h. snd (snd h) = why) out)"

definition counted :: "pool \<Rightarrow> bool" where
  "counted s \<longleftrightarrow> pl_accepted s = length (pl_enq s) \<and>
     pl_shed s = counts ReasonQueueLimit (pl_out s) \<and>
     pl_expired s = counts ReasonDeadlineExceeded (pl_out s)"

text \<open>A task is worked on only with its full minimum budget left; any other call says why not.\<close>

definition timely :: "pool_cfg \<Rightarrow> pool \<Rightarrow> bool" where
  "timely cfg s \<longleftrightarrow> list_all (\<lambda>(t, left, why).
     if why = [] then pl_min_budget cfg \<le> left
     else why \<in> {ReasonQueueLimit, ReasonDeadlineExceeded}) (pl_out s)"

definition pool_inv :: "pool_cfg \<Rightarrow> pool \<Rightarrow> bool" where
  "pool_inv cfg s \<longleftrightarrow> quiet cfg s \<and> fifo s \<and> staffed cfg s \<and> counted s \<and> timely cfg s"

lemmas pool_inv_defs = pool_inv_def quiet_def fifo_def staffed_def counted_def counts_def timely_def

lemma inv_broadcast: "pool_inv cfg s \<Longrightarrow> pool_inv cfg (broadcast s)"
  by (simp add: pool_inv_defs broadcast_def)

lemma inv_shrink:
  assumes "pool_inv cfg s" "length kept < length (pl_q s)" "subseq kept (pl_q s)"
  shows "pool_inv cfg (broadcast (s\<lparr>pl_q := kept\<rparr>))"
proof -
  have "subseq (pl_popped s @ kept) (pl_popped s @ pl_q s)"
    by (rule list_emb_append_mono [OF subseq_order.refl assms(3)])
  then have "subseq (pl_popped s @ kept) (pl_enq s)"
    using assms(1) subseq_order.order_trans unfolding pool_inv_def fifo_def by blast
  then show ?thesis
    using assms(1,2) by (auto simp: pool_inv_defs broadcast_def)
qed

lemma inv_expire: "pool_inv cfg s \<Longrightarrow> pool_inv cfg (expire t left s)"
  by (simp add: pool_inv_defs expire_def)

lemma inv_shed: "pool_inv cfg s \<Longrightarrow> pool_inv cfg (shedLimit t s)"
  by (simp add: pool_inv_defs shedLimit_def)

lemma inv_replyDead: "pool_inv cfg s \<Longrightarrow> pool_inv cfg (replyDead dead s)"
  by (induction dead arbitrary: s) (simp_all add: inv_expire)

lemma inv_take_expired:
  assumes "takeExpiredLocked cfg now s = (dead, s')" "pool_inv cfg s"
  shows "pool_inv cfg s'"
  using take_expired_cases [OF assms(1)] assms(2) inv_shrink by blast

lemma inv_collect: "pool_inv cfg s \<Longrightarrow> pool_inv cfg (collectExpired cfg now s)"
  by (cases "takeExpiredLocked cfg now s")
    (auto simp: collectExpired_def intro: inv_replyDead inv_take_expired)

lemma inv_enqueue:
  assumes "pool_inv cfg s" "signal_ok choice s" "length (pl_q s) < pl_depth cfg" "\<not> pl_closed s"
  shows "pool_inv cfg (enqueueLocked choice t s)"
proof -
  have nowait: "pl_s_wait s = []" using assms(1,3) by (auto simp: pool_inv_defs)
  then have "choice = None" using assms(2) by (auto simp: signal_ok_def split: option.splits)
  moreover have "subseq (pl_popped s @ pl_q s @ [t]) (pl_enq s @ [t])"
    using list_emb_append_mono [of "(=)" "pl_popped s @ pl_q s" "pl_enq s" "[t]" "[t]"] assms(1)
    by (simp add: pool_inv_defs)
  ultimately show ?thesis
    using assms nowait by (auto simp: enqueueLocked_def signal_def pool_inv_defs)
qed

lemma inv_wait_pass:
  assumes "pool_inv cfg s" "signal_ok choice s"
  shows "pool_inv cfg (wait_pass cfg choice now t timedOut s)"
proof -
  obtain dead s' where te: "takeExpiredLocked cfg now s = (dead, s')" by fastforce
  have awake: "pool_inv cfg x \<Longrightarrow> pool_inv cfg (x\<lparr>pl_s_awake := ys\<rparr>)" for x ys
    by (simp add: pool_inv_defs)
  have waits: "pool_inv cfg (s\<lparr>pl_s_wait := pl_s_wait s @ [t]\<rparr>)"
    if "length (pl_q s) \<ge> pl_depth cfg" "\<not> pl_closed s"
    using assms(1) that by (auto simp: pool_inv_defs)
  show ?thesis
    using take_expired_cases [OF te] inv_take_expired [OF te assms(1)]
    by (auto simp: wait_pass_def te Let_def
        intro!: awake inv_replyDead inv_expire waits inv_enqueue assms)
qed

lemma inv_submit_locked:
  assumes "pool_inv cfg s" "signal_ok choice s"
  shows "pool_inv cfg (submit_locked cfg choice now t s)"
  by (auto simp: submit_locked_def Let_def
      intro!: inv_expire inv_shed inv_enqueue inv_wait_pass assms)

lemma inv_pop:
  assumes "pool_inv cfg s" "pl_awake s > 0"
  shows "pool_inv cfg (pop_section cfg now s)"
proof -
  let ?s = "s\<lparr>pl_awake := pl_awake s - 1\<rparr>"
  obtain dead s' where te: "takeExpiredLocked cfg now ?s = (dead, s')" by fastforce
  have s': "dead = [] \<and> s' = ?s \<or> dead \<noteq> [] \<and> pl_wait s' = 0 \<and>
      (\<exists>kept. s' = broadcast (?s\<lparr>pl_q := kept\<rparr>) \<and> length kept < length (pl_q s) \<and> subseq kept (pl_q s))"
    using take_expired_cases [OF te] by (auto simp: broadcast_def)
  have full: "pool_inv cfg (s'\<lparr>pl_awake := pl_awake s' + 1\<rparr>)"
    using s'
  proof (elim disjE conjE exE)
    assume "s' = ?s"
    then show ?thesis using assms by simp
  next
    fix kept assume k: "s' = broadcast (?s\<lparr>pl_q := kept\<rparr>)" "length kept < length (pl_q s)"
      "subseq kept (pl_q s)"
    have "s'\<lparr>pl_awake := pl_awake s' + 1\<rparr> = broadcast (s\<lparr>pl_q := kept\<rparr>)"
      using assms(2) by (simp add: k(1) broadcast_def)
    then show ?thesis using inv_shrink [OF assms(1) k(2,3)] by simp
  qed
  show ?thesis
  proof (cases "pl_q s'")
    case (Cons t q)
    have "subseq (pl_popped s' @ pl_q s') (pl_enq s')" using full by (simp add: pool_inv_defs)
    then have "pool_inv cfg ((broadcast (s'\<lparr>pl_q := q\<rparr>))
        \<lparr>pl_busy := pl_busy s' @ [t], pl_popped := pl_popped s' @ [t]\<rparr>)"
      using full Cons by (auto simp: pool_inv_defs broadcast_def)
    then show ?thesis
      using Cons by (simp add: pop_section_def te [simplified] Let_def inv_replyDead broadcast_def)
  next
    case Nil
    have "pl_closed s' \<Longrightarrow> pool_inv cfg (s'\<lparr>pl_exited := pl_exited s' + 1\<rparr>)"
      "\<not> pl_closed s' \<Longrightarrow> pool_inv cfg (s'\<lparr>pl_wait := pl_wait s' + 1\<rparr>)"
      using full Nil by (auto simp: pool_inv_defs)
    then show ?thesis
      using Nil full by (simp add: pop_section_def te [simplified] inv_replyDead)
  qed
qed

lemma inv_finish:
  assumes "pool_inv cfg s" "t \<in> set (pl_busy s)"
  shows "pool_inv cfg (finish cfg now t s)"
proof -
  have "length (pl_busy s) > 0" using assms(2) by auto
  then have l: "length (pl_busy s) = Suc (length (remove1 t (pl_busy s)))"
    using assms(2) by (simp add: length_remove1)
  show ?thesis
    using assms(1) l by (auto simp: finish_def budget_def Let_def pool_inv_defs)
qed

lemma inv_init: "pool_inv cfg (new_pool cfg)"
  by (simp add: pool_inv_defs new_pool_def)

lemma inv_fields [simp]:
  "pool_inv cfg (s\<lparr>pl_submitted := x\<rparr>) = pool_inv cfg s"
  "pool_inv cfg (s\<lparr>pl_new := x\<rparr>) = pool_inv cfg s"
  "pool_inv cfg (s\<lparr>pl_ready := x\<rparr>) = pool_inv cfg s"
  "pool_inv cfg (s\<lparr>pl_s_awake := y\<rparr>) = pool_inv cfg s"
  by (simp_all add: pool_inv_defs)

lemma signal_ok_fields [simp]:
  "signal_ok choice (s\<lparr>pl_ready := x\<rparr>) = signal_ok choice s"
  "signal_ok choice (s\<lparr>pl_s_awake := y\<rparr>) = signal_ok choice s"
  by (simp_all add: signal_ok_def split: option.split)

lemma inv_step: "pool_step cfg s s' \<Longrightarrow> pool_inv cfg s \<Longrightarrow> pool_inv cfg s'"
proof (induction rule: pool_step.induct)
  case (start_dead t t0 now now1 s now2)
  then show ?case by (intro inv_expire) simp
next
  case (start_live t t0 now now1 s)
  then show ?case by simp
next
  case (collect t s now)
  then show ?case by (intro inv_collect) simp
next
  case (lock t s choice now)
  then show ?case by (intro inv_submit_locked) simp_all
next
  case (timer t s s')
  then show ?case by (simp add: inv_broadcast)
next
  case (resume t timedOut s choice now)
  then show ?case by (intro inv_wait_pass) simp_all
next
  case (stray s)
  then show ?case by (rule inv_broadcast)
next
  case (sweep s now)
  then show ?case by (rule inv_collect)
next
  case (pop s now)
  then show ?case by (intro inv_pop)
next
  case (serve t s now)
  then show ?case by (intro inv_finish)
next
  case (close s)
  then show ?case by (auto simp: pool_inv_defs broadcast_def)
qed

lemma reachable_inv: "reachable cfg s \<Longrightarrow> pool_inv cfg s"
  by (induction rule: reachable.induct) (auto intro: inv_init inv_step)

section \<open>Conservation\<close>

lemma tasks_fields:
  "t \<in> set (pl_new s) \<Longrightarrow>
     pool_tasks (s\<lparr>pl_new := remove1 t (pl_new s), pl_ready := pl_ready s @ [t]\<rparr>) = pool_tasks s"
  "t \<in> set (pl_ready s) \<Longrightarrow>
     add_mset (tkey t) (pool_tasks (s\<lparr>pl_ready := remove1 t (pl_ready s)\<rparr>)) = pool_tasks s"
  "(t, b) \<in> set (pl_s_awake s) \<Longrightarrow>
     add_mset (tkey t) (pool_tasks (s\<lparr>pl_s_awake := remove1 (t, b) (pl_s_awake s)\<rparr>)) = pool_tasks s"
  "(t, b) \<in> set (pl_s_awake s) \<Longrightarrow>
     pool_tasks (s\<lparr>pl_s_awake := remove1 (t, b) (pl_s_awake s) @ [(t, b')]\<rparr>) = pool_tasks s"
  "pool_tasks (s\<lparr>pl_submitted := x\<rparr>) = pool_tasks s"
  "pool_tasks (s\<lparr>pl_closed := c\<rparr>) = pool_tasks s"
  "pool_tasks (s\<lparr>pl_submitted := x, pl_new := pl_new s @ [t]\<rparr>) = add_mset (tkey t) (pool_tasks s)"
proof -
  have rm: "x \<in> set xs \<Longrightarrow> add_mset (g x) (image_mset g (mset (remove1 x xs))) = image_mset g (mset xs)"
    for g :: "'a \<Rightarrow> request \<times> string" and x xs
    by (simp add: insert_DiffM flip: image_mset_add_mset)
  show "pool_tasks (s\<lparr>pl_new := remove1 t (pl_new s), pl_ready := pl_ready s @ [t]\<rparr>) = pool_tasks s"
    if "t \<in> set (pl_new s)"
    using rm [OF that, of tkey] by (simp add: pool_tasks_def)
  show "add_mset (tkey t) (pool_tasks (s\<lparr>pl_ready := remove1 t (pl_ready s)\<rparr>)) = pool_tasks s"
    if "t \<in> set (pl_ready s)"
    using rm [OF that, of tkey] by (simp add: pool_tasks_def)
  show "add_mset (tkey t) (pool_tasks (s\<lparr>pl_s_awake := remove1 (t, b) (pl_s_awake s)\<rparr>)) = pool_tasks s"
    if "(t, b) \<in> set (pl_s_awake s)"
    using rm [OF that, of "tkey \<circ> fst"] by (simp add: pool_tasks_def image_mset.compositionality)
  show "pool_tasks (s\<lparr>pl_s_awake := remove1 (t, b) (pl_s_awake s) @ [(t, b')]\<rparr>) = pool_tasks s"
    if "(t, b) \<in> set (pl_s_awake s)"
    using rm [OF that, of "tkey \<circ> fst"] by (simp add: pool_tasks_def image_mset.compositionality)
qed (simp_all add: pool_tasks_def)

lemma submitted_fields [simp]:
  "pl_submitted (broadcast s) = pl_submitted s"
  "pl_submitted (expire t left s) = pl_submitted s"
  "pl_submitted (shedLimit t s) = pl_submitted s"
  "pl_submitted (replyDead dead s) = pl_submitted s"
  "pl_submitted (signal choice s) = pl_submitted s"
  "pl_submitted (enqueueLocked choice t s) = pl_submitted s"
  "pl_submitted (finish cfg now t s) = pl_submitted s"
proof -
  show sig: "pl_submitted (signal choice s) = pl_submitted s" for s
    by (simp add: signal_def split: option.split)
  show "pl_submitted (replyDead dead s) = pl_submitted s"
    by (induction dead arbitrary: s) (simp_all add: expire_def)
  show "pl_submitted (enqueueLocked choice t s) = pl_submitted s"
    by (simp add: enqueueLocked_def sig)
qed (simp_all add: broadcast_def expire_def shedLimit_def finish_def split: prod.split)

lemma submitted_take:
  "takeExpiredLocked cfg now s = (dead, s') \<Longrightarrow> pl_submitted s' = pl_submitted s"
  by (auto dest: take_expired_cases)

lemma submitted_ops [simp]:
  "pl_submitted (collectExpired cfg now s) = pl_submitted s"
  "pl_submitted (wait_pass cfg choice now t b s) = pl_submitted s"
  "pl_submitted (submit_locked cfg choice now t s) = pl_submitted s"
  "pl_submitted (pop_section cfg now s) = pl_submitted s"
proof -
  show "pl_submitted (collectExpired cfg now s) = pl_submitted s"
    by (cases "takeExpiredLocked cfg now s") (simp add: collectExpired_def submitted_take)
  show wp: "pl_submitted (wait_pass cfg choice now t b s) = pl_submitted s" for t b
    by (cases "takeExpiredLocked cfg now s") (simp add: wait_pass_def Let_def submitted_take)
  show "pl_submitted (submit_locked cfg choice now t s) = pl_submitted s"
    by (simp add: submit_locked_def Let_def wp)
  obtain dead s' where te: "takeExpiredLocked cfg now (s\<lparr>pl_awake := pl_awake s - 1\<rparr>) = (dead, s')"
    by fastforce
  have "pl_submitted s' = pl_submitted s" using submitted_take [OF te] by simp
  then show "pl_submitted (pop_section cfg now s) = pl_submitted s"
    by (simp add: pop_section_def te [simplified] Let_def split: list.split)
qed

lemma conserved_step: "pool_step cfg s s' \<Longrightarrow> conserved s \<Longrightarrow> conserved s'"
proof (induction rule: pool_step.induct)
  case (start_dead t t0 now now1 s now2)
  then show ?case by (simp add: conserved_def tasks_fields)
next
  case (start_live t t0 now now1 s)
  then show ?case by (simp add: conserved_def tasks_fields)
next
  case (collect t s now)
  then show ?case by (simp add: conserved_def tasks_fields)
next
  case (lock t s choice now)
  then show ?case
    using tasks_fields(2) [OF lock.hyps(1)] by (simp add: conserved_def tasks_submit_locked)
next
  case (timer t s s')
  then show ?case
    using tasks_fields(4) [of t False s' True] by (simp add: conserved_def)
next
  case (resume t timedOut s choice now)
  then show ?case
    using tasks_fields(3) [OF resume.hyps(1)] by (simp add: conserved_def tasks_wait_pass)
next
  case (serve t s now)
  then show ?case by (simp add: conserved_def tasks_finish)
next
  case (close s)
  then show ?case by (simp add: conserved_def tasks_fields)
qed (simp_all add: conserved_def tasks_pop)

lemma reachable_conserved: "reachable cfg s \<Longrightarrow> conserved s"
proof (induction rule: reachable.induct)
  case init
  then show ?case by (simp add: conserved_def pool_tasks_def new_pool_def)
qed (rule conserved_step)

section \<open>Properties\<close>

definition sample_cfg :: pool_cfg where
  "sample_cfg = new_cfg 2 1 0 0 FullWait"

definition sample_task :: task where
  "sample_task = \<lparr>tk_req = sample_request, tk_reply = ''_INBOX'', tk_fill = 0, tk_enqueued = 0\<rparr>"

lemma sample_started:
  "reachable sample_cfg ((new_pool sample_cfg)\<lparr>pl_submitted := [sample_task], pl_new := [sample_task]\<rparr>)"
proof -
  have "pool_step sample_cfg (new_pool sample_cfg) ((new_pool sample_cfg)
      \<lparr>pl_submitted := pl_submitted (new_pool sample_cfg) @ [sample_task],
       pl_new := pl_new (new_pool sample_cfg) @ [sample_task]\<rparr>)"
    by (rule pool_step.start_live [where t = sample_task and ?t0.0 = sample_task and now = 0 and ?now1.0 = 0])
      (simp_all add: sample_task_def leftAt_def sample_cfg_def new_cfg_def sample_request_def i64_def)
  then show ?thesis
    using reachable.step [OF reachable.init] by (simp add: new_pool_def)
qed

text \<open>C26: Every task is answered exactly once. In every state any interleaving of submitters, workers,
  timers, the sweeper and \<open>Close\<close> can reach, the tasks submitted are exactly those still in the
  pool's hands and those answered, with multiplicity: none is lost, none is answered twice, and
  when nothing is in hand all have been answered.\<close>

theorem answered_exactly_once:
  assumes "reachable cfg s"
  shows "image_mset tkey (mset (map fst (pl_out s))) \<subseteq># image_mset tkey (mset (pl_submitted s)) \<and>
     size (mset (pl_submitted s)) =
       length (pl_new s) + length (pl_ready s) + length (pl_s_awake s) + length (pl_s_wait s) +
       length (pl_q s) + length (pl_busy s) + length (pl_out s) \<and>
     (pl_new s = [] \<and> pl_ready s = [] \<and> pl_s_awake s = [] \<and> pl_s_wait s = [] \<and> pl_q s = [] \<and>
      pl_busy s = [] \<longrightarrow>
        image_mset tkey (mset (map fst (pl_out s))) = image_mset tkey (mset (pl_submitted s)))"
proof -
  have c: "image_mset tkey (mset (pl_submitted s)) = pool_tasks s"
    using reachable_conserved [OF assms] by (simp add: conserved_def)
  have "length (pl_submitted s) = size (image_mset tkey (mset (pl_submitted s)))" by simp
  also have "\<dots> = length (pl_new s) + length (pl_ready s) + length (pl_s_awake s) +
      length (pl_s_wait s) + length (pl_q s) + length (pl_busy s) + length (pl_out s)"
    unfolding c pool_tasks_def by (simp only: size_image_mset size_union size_mset length_map)
  finally show ?thesis using c by (simp add: pool_tasks_def)
qed

theorem answered_exactly_once_witness:
  "\<exists>s. reachable sample_cfg s \<and> pl_new s = [sample_task] \<and>
     size (mset (pl_submitted s)) = length (pl_new s) + length (pl_out s)"
  using sample_started answered_exactly_once [OF sample_started]
  by (intro exI [of _ "(new_pool sample_cfg)\<lparr>pl_submitted := [sample_task], pl_new := [sample_task]\<rparr>"])
    (simp add: new_pool_def)

text \<open>C27: No wake-up is lost, although workers and submitters wait on one condition variable and
  \<open>enqueueLocked\<close> signals only one waiter. With at least one worker, whenever a task is queued some
  worker is awake or serving; a submitter waits only while the queue is full, so it too will be
  woken; and a sleeping worker means every queued task already has an awake worker coming for it.\<close>

theorem no_lost_wakeup:
  assumes "reachable cfg s" "0 < pl_workers cfg" "0 < pl_depth cfg"
  shows "(pl_q s \<noteq> [] \<longrightarrow> 0 < pl_awake s \<or> pl_busy s \<noteq> []) \<and>
     (pl_s_wait s \<noteq> [] \<longrightarrow> length (pl_q s) = pl_depth cfg \<and> (0 < pl_awake s \<or> pl_busy s \<noteq> [])) \<and>
     (0 < pl_wait s \<longrightarrow> length (pl_q s) \<le> pl_awake s)"
proof -
  have inv: "quiet cfg s" "staffed cfg s"
    using reachable_inv [OF assms(1)] by (simp_all add: pool_inv_def)
  have live: "0 < pl_awake s \<or> pl_busy s \<noteq> []" if "pl_q s \<noteq> []"
  proof (rule ccontr)
    assume "\<not> (0 < pl_awake s \<or> pl_busy s \<noteq> [])"
    then have "pl_wait s + pl_exited s = pl_workers cfg" "pl_awake s = 0"
      using inv(2) by (simp_all add: staffed_def)
    then show False using inv(1) that assms(2) by (auto simp: quiet_def)
  qed
  have "pl_s_wait s \<noteq> [] \<Longrightarrow> pl_q s \<noteq> []" using inv(1) assms(3) by (auto simp: quiet_def)
  with live inv(1) show ?thesis by (auto simp: quiet_def)
qed

theorem no_lost_wakeup_witness:
  "\<exists>s. reachable sample_cfg s \<and> 0 < pl_workers sample_cfg \<and> 0 < pl_depth sample_cfg \<and>
     (0 < pl_wait s \<longrightarrow> length (pl_q s) \<le> pl_awake s)"
  using sample_started no_lost_wakeup [OF sample_started]
  by (intro exI [of _ "(new_pool sample_cfg)\<lparr>pl_submitted := [sample_task], pl_new := [sample_task]\<rparr>"])
    (simp add: sample_cfg_def new_cfg_def)

text \<open>C33: The pool is bounded, fair and accounted for. The queue never exceeds its depth; tasks leave
  it for a worker in the order they entered; a task is worked on only when its minimum budget was
  left, every other call of the handler naming the reason; and the counters equal what happened.\<close>

theorem pool_bounded_fifo:
  assumes "reachable cfg s"
  shows "length (pl_q s) \<le> pl_depth cfg \<and> subseq (pl_popped s @ pl_q s) (pl_enq s) \<and>
     (\<forall>(t, left, why) \<in> set (pl_out s). if why = [] then pl_min_budget cfg \<le> left
        else why \<in> {ReasonQueueLimit, ReasonDeadlineExceeded}) \<and>
     pl_accepted s = length (pl_enq s) \<and> pl_shed s = counts ReasonQueueLimit (pl_out s) \<and>
     pl_expired s = counts ReasonDeadlineExceeded (pl_out s)"
  using reachable_inv [OF assms]
  by (auto simp: pool_inv_def quiet_def fifo_def counted_def timely_def list_all_iff)

theorem pool_bounded_fifo_witness:
  "\<exists>s. reachable sample_cfg s \<and> length (pl_q s) \<le> 1 \<and> pl_submitted s = [sample_task]"
  using sample_started pool_bounded_fifo [OF sample_started]
  by (intro exI [of _ "(new_pool sample_cfg)\<lparr>pl_submitted := [sample_task], pl_new := [sample_task]\<rparr>"])
    (simp add: sample_cfg_def new_cfg_def)

lemma left_exact:
  assumes "0 \<le> q_deadline_ms (tk_req t)" "q_deadline_ms (tk_req t) \<le> 2 ^ 43"
    and "0 \<le> now - tk_enqueued t" "now - tk_enqueued t \<le> 2 ^ 61"
    and "0 \<le> pl_reserve cfg" "pl_reserve cfg \<le> 2 ^ 61"
  shows "leftAt cfg t now =
     q_deadline_ms (tk_req t) * Millisecond - (now - tk_enqueued t) - pl_reserve cfg"
proof -
  define d where "d = q_deadline_ms (tk_req t) * Millisecond"
  have d: "0 \<le> d" "d < 2 ^ 63" using assms(1,2) by (simp_all add: d_def)
  have 1: "i64 d = d" using d by (intro i64_id) auto
  have 2: "i64 (d - (now - tk_enqueued t)) = d - (now - tk_enqueued t)"
    using d assms(3,4) by (intro i64_id) auto
  have 3: "i64 (d - (now - tk_enqueued t) - pl_reserve cfg) = d - (now - tk_enqueued t) - pl_reserve cfg"
    using d assms(3-6) by (intro i64_id) auto
  show ?thesis by (simp add: leftAt_def Let_def 1 2 3 flip: d_def)
qed

text \<open>A deadline a client controls can wrap: \<open>time.Duration(DeadlineMS) * time.Millisecond\<close> overflows
  from 9223372036855 milliseconds on, and the request with the longest deadline is dropped at once
  as expired, where a deadline one millisecond shorter has 292 years left.\<close>

theorem huge_deadline_wraps:
  "leftAt (new_cfg w 1 0 0 f)
      (sample_task\<lparr>tk_req := sample_request\<lparr>q_deadline_ms := 9223372036855\<rparr>, tk_enqueued := now\<rparr>) now < 0 \<and>
   leftAt (new_cfg w 1 0 0 f)
      (sample_task\<lparr>tk_req := sample_request\<lparr>q_deadline_ms := 9223372036854\<rparr>, tk_enqueued := now\<rparr>) now =
     9223372036854 * Millisecond"
  by (simp add: leftAt_def new_cfg_def i64_def)

end
