(* ===== verification/Siphash.thy ===== *)
theory Siphash
  imports Prelude
begin

unbundle bit_operations_syntax

text \<open>Package \<open>internal/livelist\<close>, file \<open>siphash.go\<close>: SipHash-2-4 on 64-bit words, the hash the
  keeper and its mirrors xor over the elements of a set.\<close>

type_synonym w64 = "64 word"
type_synonym sip_state = "w64 \<times> w64 \<times> w64 \<times> w64"

definition rotl :: "w64 \<Rightarrow> nat \<Rightarrow> w64" where
  "rotl x b = push_bit b x OR drop_bit (64 - b) x"

fun sipRound :: "sip_state \<Rightarrow> sip_state" where
  "sipRound (v0, v1, v2, v3) =
     (let v0 = v0 + v1;
          v1 = rotl v1 13;
          v1 = v1 XOR v0;
          v0 = rotl v0 32;
          v2 = v2 + v3;
          v3 = rotl v3 16;
          v3 = v3 XOR v2;
          v0 = v0 + v3;
          v3 = rotl v3 21;
          v3 = v3 XOR v0;
          v2 = v2 + v1;
          v1 = rotl v1 17;
          v1 = v1 XOR v2;
          v2 = rotl v2 32
      in (v0, v1, v2, v3))"

text \<open>\<open>binary.LittleEndian.Uint64\<close>, and of shorter strings the word their bytes start.\<close>

definition le_word :: "string \<Rightarrow> w64" where
  "le_word s = foldr (\<lambda>c w. push_bit 8 w OR word_of_int (byte_of c)) s 0"

definition sip_absorb :: "w64 \<Rightarrow> sip_state \<Rightarrow> sip_state" where
  "sip_absorb m = (\<lambda>(v0, v1, v2, v3).
     case sipRound (sipRound (v0, v1, v2, v3 XOR m)) of
       (v0, v1, v2, v3) \<Rightarrow> (v0 XOR m, v1, v2, v3))"

text \<open>The loop over whole blocks of eight bytes; the rest is shorter.\<close>

function sip_blocks :: "string \<Rightarrow> sip_state \<Rightarrow> sip_state \<times> string" where
  "sip_blocks b v =
     (if length b < 8 then (v, b) else sip_blocks (drop 8 b) (sip_absorb (le_word (take 8 b)) v))"
  by pat_completeness auto
termination
  by (relation "measure (\<lambda>(b, v). length b)") auto

declare sip_blocks.simps [simp del]

definition SipHashBytes :: "string \<Rightarrow> string \<Rightarrow> w64" where
  "SipHashBytes k b =
     (let k0 = le_word (take 8 k);
          k1 = le_word (take 8 (drop 8 k));
          v = (k0 XOR 8317987319222330741, k1 XOR 7237128888997146477,
               k0 XOR 7816392313619706465, k1 XOR 8387220255154660723);
          (v, rest) = sip_blocks b v;
          last = push_bit 56 (word_of_int (int (length b))) OR le_word rest;
          (v0, v1, v2, v3) = sip_absorb last v;
          (v0, v1, v2, v3) = (sipRound ^^ 4) (v0, v1, v2 XOR 0xff, v3)
      in v0 XOR v1 XOR v2 XOR v3)"

definition SipHash :: "string \<Rightarrow> string \<Rightarrow> w64" where
  "SipHash k s = SipHashBytes k s"

end
