(* ===== verification/Wafs.thy ===== *)
theory Wafs
  imports Siphash Netip
begin

text \<open>Package \<open>internal/livelist\<close>, file \<open>wafs.go\<close>: the binary form of a snapshot or a package of a
  live list. A position in the data is the list of the bytes that follow it.\<close>

abbreviation (input) packVersion :: int where "packVersion \<equiv> 1"
abbreviation (input) kindSnapshot :: int where "kindSnapshot \<equiv> 1"
abbreviation (input) kindPackage :: int where "kindPackage \<equiv> 2"
abbreviation (input) typeCIDR :: int where "typeCIDR \<equiv> 1"
abbreviation (input) typeString :: int where "typeString \<equiv> 2"
abbreviation (input) recAdd :: int where "recAdd \<equiv> 1"
abbreviation (input) recRemove :: int where "recRemove \<equiv> 2"
abbreviation (input) packHeader :: nat where "packHeader \<equiv> 52"

datatype pack_error = PackMagic | PackVersion | PackShort | AddressFamily int | SetType int

record pack_head =
  hd_kind :: int
  hd_typ :: int
  hd_flags :: int
  hd_epoch :: w64
  hd_seq :: w64
  hd_hash :: w64
  hd_key :: string
  hd_count :: nat

text \<open>The zero \<open>netip.Prefix\<close> of a string record is \<^const>\<open>None\<close>.\<close>

record pack_record =
  pr_op :: int
  pr_prefix :: "ip_prefix option"
  pr_value :: string
  pr_exp :: int
  pr_reason :: string

definition prefixMaterial :: "ip_prefix \<Rightarrow> string" where
  "prefixMaterial p =
     (let bits = (char_of (snd p mod 256) :: char)
      in case fst p of
           A4 w \<Rightarrow> char_of (4 :: int) # bits # map char_of (bytes4 w)
         | A6 w _ \<Rightarrow> char_of (6 :: int) # bits # map char_of (bytes16 w))"

definition byte_at :: "string \<Rightarrow> nat \<Rightarrow> int" where
  "byte_at s i = byte_of (s ! i)"

definition le16 :: "string \<Rightarrow> nat" where
  "le16 s = unat (le_word (take 2 s))"

definition le64 :: "string \<Rightarrow> w64" where
  "le64 s = le_word (take 8 s)"

text \<open>The value of a record: a prefix of either family, or a string.\<close>

definition read_prefix :: "string \<Rightarrow> pack_error + (ip_prefix \<times> string)" where
  "read_prefix s =
     (if length s < 2 then Inl PackShort
      else let fam = byte_at s 0; bits = byte_at s 1; s = drop 2 s
           in if fam = 4
              then if length s < 4 + 8 then Inl PackShort
                   else Inr (PrefixFrom (addr_from4 (map byte_of (take 4 s))) bits, drop 4 s)
              else if fam = 6
              then if length s < 16 + 8 then Inl PackShort
                   else Inr (PrefixFrom (addr_from16 (map byte_of (take 16 s))) bits, drop 16 s)
              else Inl (AddressFamily fam))"

definition read_string :: "nat \<Rightarrow> string \<Rightarrow> pack_error + (string \<times> string)" where
  "read_string extra s =
     (if length s < 2 then Inl PackShort
      else let n = le16 s; s = drop 2 s
           in if length s < n + extra then Inl PackShort else Inr (take n s, drop n s))"

text \<open>The expiry, and the reason where the flags announce one.\<close>

definition read_tail :: "int \<Rightarrow> int \<Rightarrow> string \<Rightarrow> pack_error + (int \<times> string \<times> string)" where
  "read_tail ty flags s =
     (let exp = sint (le64 s); s = drop 8 s
      in if ty = typeString \<and> flags mod 2 \<noteq> 0
         then (case read_string 0 s of
                 Inl e \<Rightarrow> Inl e
               | Inr (reason, s) \<Rightarrow> Inr (exp, reason, s))
         else Inr (exp, [], s))"

definition read_record :: "int \<Rightarrow> int \<Rightarrow> string \<Rightarrow> pack_error + (pack_record \<times> string)" where
  "read_record ty flags s =
     (if length s < 1 then Inl PackShort
      else let op = byte_at s 0; s = drop 1 s
           in if ty = typeCIDR
              then (case read_prefix s of
                      Inl e \<Rightarrow> Inl e
                    | Inr (p, s) \<Rightarrow>
                        (case read_tail ty flags s of
                           Inl e \<Rightarrow> Inl e
                         | Inr (exp, reason, s) \<Rightarrow>
                             Inr (\<lparr>pr_op = op, pr_prefix = Some p, pr_value = [], pr_exp = exp,
                                   pr_reason = reason\<rparr>, s)))
              else if ty = typeString
              then (case read_string 8 s of
                      Inl e \<Rightarrow> Inl e
                    | Inr (v, s) \<Rightarrow>
                        (case read_tail ty flags s of
                           Inl e \<Rightarrow> Inl e
                         | Inr (exp, reason, s) \<Rightarrow>
                             Inr (\<lparr>pr_op = op, pr_prefix = None, pr_value = v, pr_exp = exp,
                                   pr_reason = reason\<rparr>, s)))
              else Inl (SetType ty))"

fun read_records :: "nat \<Rightarrow> int \<Rightarrow> int \<Rightarrow> string \<Rightarrow> pack_error + pack_record list" where
  "read_records 0 ty flags s = Inr []"
| "read_records (Suc n) ty flags s =
     (case read_record ty flags s of
        Inl e \<Rightarrow> Inl e
      | Inr (r, s') \<Rightarrow>
          (case read_records n ty flags s' of Inl e \<Rightarrow> Inl e | Inr rs \<Rightarrow> Inr (r # rs)))"

definition read_head :: "string \<Rightarrow> pack_head" where
  "read_head data =
     \<lparr>hd_kind = byte_at data 5, hd_typ = byte_at data 6, hd_flags = byte_at data 7,
      hd_epoch = le64 (drop 8 data), hd_seq = le64 (drop 16 data), hd_hash = le64 (drop 24 data),
      hd_key = take 16 (drop 32 data), hd_count = unat (le_word (take 4 (drop 48 data)))\<rparr>"

definition unpack :: "string \<Rightarrow> pack_error + (pack_head \<times> pack_record list)" where
  "unpack data =
     (if length data < packHeader then Inl PackShort
      else if take 4 data \<noteq> ''WAFS'' then Inl PackMagic
      else if byte_at data 4 \<noteq> packVersion then Inl PackVersion
      else let head = read_head data
           in case read_records (hd_count head) (hd_typ head) (hd_flags head) (drop packHeader data) of
                Inl e \<Rightarrow> Inl e
              | Inr rs \<Rightarrow> Inr (head, rs))"

section \<open>Lemmas\<close>

lemma read_record_shrinks:
  assumes "read_record ty flags s = Inr (r, s')"
  shows "length s' + 11 \<le> length s \<and> (ty = typeCIDR \<or> ty = typeString) \<and>
     (pr_prefix r \<noteq> None \<longleftrightarrow> ty = typeCIDR)"
  using assms
  by (auto simp: read_record_def read_prefix_def read_string_def read_tail_def Let_def
      split: if_splits sum.splits)

lemma read_records_length:
  "read_records n ty flags s = Inr rs \<Longrightarrow> length rs = n \<and> 11 * n \<le> length s"
proof (induction n arbitrary: s rs)
  case 0
  then show ?case by simp
next
  case (Suc n)
  then obtain r s' rs' where "read_record ty flags s = Inr (r, s')"
    "read_records n ty flags s' = Inr rs'" "rs = r # rs'"
    by (auto split: sum.splits)
  with Suc.IH [of s' rs'] read_record_shrinks [of ty flags s r s'] show ?case by auto
qed

lemma read_records_prefix:
  "read_records n ty flags s = Inr rs \<Longrightarrow> r \<in> set rs \<Longrightarrow> pr_prefix r \<noteq> None \<longleftrightarrow> ty = typeCIDR"
proof (induction n arbitrary: s rs)
  case 0
  then show ?case by simp
next
  case (Suc n)
  then obtain r1 s' rs' where 1: "read_record ty flags s = Inr (r1, s')"
    "read_records n ty flags s' = Inr rs'" "rs = r1 # rs'"
    by (auto split: sum.splits)
  with Suc.IH [of s' rs'] Suc.prems(2) read_record_shrinks [OF 1(1)] show ?case by auto
qed

section \<open>Properties\<close>

text \<open>What an accepted object looks like. It starts with the magic and the version, names one of
  the two set types unless it is empty, holds exactly the announced number of records, each at
  least eleven bytes, every record carrying a prefix exactly in a set of prefixes. So an object of
  n bytes yields at most n / 11 records, whatever count its header announces.\<close>

theorem unpack_bounded:
  assumes "unpack data = Inr (head, rs)"
  shows "length rs = hd_count head \<and> packHeader + 11 * length rs \<le> length data \<and>
     take 4 data = ''WAFS'' \<and> head = read_head data \<and>
     (\<forall>r \<in> set rs. pr_prefix r \<noteq> None \<longleftrightarrow> hd_typ head = typeCIDR)"
proof -
  have d: "packHeader \<le> length data" "take 4 data = ''WAFS''" and h: "head = read_head data"
    and rs: "read_records (hd_count head) (hd_typ head) (hd_flags head) (drop packHeader data) = Inr rs"
    using assms by (auto simp: unpack_def Let_def split: if_splits sum.splits)
  show ?thesis
    using d h read_records_length [OF rs] read_records_prefix [OF rs] by auto
qed

definition sample_object :: "int list \<Rightarrow> string" where
  "sample_object body = ''WAFS'' @ map char_of ([1, 1, 1, 0] @ replicate 40 0 @ [1, 0, 0, 0] @ body)"

text \<open>One prefix record, adding 10.0.0.0 with 33 as its length.\<close>

definition wide_prefix :: string where
  "wide_prefix = sample_object ([1, 4, 33, 10, 0, 0, 0] @ replicate 8 0)"

lemma wide_unpacks:
  "case unpack wide_prefix of
     Inr (head, [r]) \<Rightarrow> hd_typ head = typeCIDR \<and> pr_op r = recAdd \<and> map_option snd (pr_prefix r) = Some (- 1)
   | _ \<Rightarrow> False"
  by code_simp

theorem unpack_bounded_witness:
  "\<exists>head rs. unpack wide_prefix = Inr (head, rs) \<and> packHeader + 11 * length rs \<le> length wide_prefix"
proof -
  obtain head rs where u: "unpack wide_prefix = Inr (head, rs)"
    using wide_unpacks by (auto split: sum.splits)
  then show ?thesis using unpack_bounded [OF u] by blast
qed

end
