(* ===== verification/Livelist.thy ===== *)
theory Livelist
  imports Wafs Base64
begin

text \<open>
  Package \<open>internal/livelist\<close>, file \<open>livelist.go\<close>: a mirror of a set the keeper maintains. The
  composition (elements, length index, hash) and the state machine of one set: frames, packages,
  snapshots, divergence.

  One goroutine per set runs the operations, so they are functions on the set's state. What comes
  from outside is an argument: \<open>fetch\<close> is the snapshot object of this moment (\<open>None\<close> when the
  request, the reply or the object failed), \<open>objects\<close> the reply to a read of packages by key.
  \<open>st.syncing\<close> is false whenever an operation starts, and \<open>st.refused\<close> only chooses a log line.
\<close>

section \<open>The composition\<close>

record comp_record =
  cr_exp :: int
  cr_reason :: string

record composition =
  co_entries :: "(string, comp_record) gomap"
  co_nets :: "(ip_prefix, int) gomap"
  co_lens :: "nat \<times> int \<Rightarrow> int"
  co_hash :: w64

definition newComposition :: composition where
  "newComposition = \<lparr>co_entries = [], co_nets = [], co_lens = (\<lambda>_. 0), co_hash = 0\<rparr>"

definition family :: "ip_prefix \<Rightarrow> nat" where
  "family p = (if is4 (fst p) then 0 else 1)"

text \<open>\<open>apply\<close>; \<^const>\<open>None\<close> is the panic of an index outside \<open>lens\<close>.\<close>

definition comp_apply :: "string \<Rightarrow> int \<Rightarrow> pack_record \<Rightarrow> composition \<Rightarrow> composition option" where
  "comp_apply key ty r c =
     (if ty = typeCIDR
      then case pr_prefix r of
             None \<Rightarrow> Some c
           | Some p \<Rightarrow>
               let had = (map_of (co_nets c) p \<noteq> None); i = (family p, snd p);
                   h = co_hash c XOR SipHashBytes key (prefixMaterial p)
               in if pr_op r = recAdd
                  then if had then Some (c\<lparr>co_nets := AList.update p (pr_exp r) (co_nets c)\<rparr>)
                       else if snd p < 0 then None
                       else Some (c\<lparr>co_hash := h, co_lens := (co_lens c)(i := co_lens c i + 1),
                                    co_nets := AList.update p (pr_exp r) (co_nets c)\<rparr>)
                  else if had
                  then if snd p < 0 then None
                       else Some (c\<lparr>co_hash := h, co_lens := (co_lens c)(i := co_lens c i - 1),
                                    co_nets := AList.delete p (co_nets c)\<rparr>)
                  else Some c
      else let v = pr_value r; had = (map_of (co_entries c) v \<noteq> None);
               h = co_hash c XOR SipHash key v
           in if pr_op r = recAdd
              then Some (c\<lparr>co_hash := (if had then co_hash c else h),
                           co_entries := AList.update v \<lparr>cr_exp = pr_exp r, cr_reason = pr_reason r\<rparr>
                                           (co_entries c)\<rparr>)
              else if had
              then Some (c\<lparr>co_hash := h, co_entries := AList.delete v (co_entries c)\<rparr>)
              else Some c)"

fun apply_all :: "string \<Rightarrow> int \<Rightarrow> pack_record list \<Rightarrow> composition \<Rightarrow> composition option" where
  "apply_all key ty [] c = Some c"
| "apply_all key ty (r # rs) c =
     (case comp_apply key ty r c of None \<Rightarrow> None | Some c' \<Rightarrow> apply_all key ty rs c')"

definition list_alive :: "int \<Rightarrow> int \<Rightarrow> bool" where
  "list_alive exp now \<longleftrightarrow> exp = 0 \<or> exp > now"

text \<open>The loop from the longest prefix down; \<open>n\<close> is one more than the length tried first.\<close>

fun contains_loop :: "composition \<Rightarrow> addr \<Rightarrow> int \<Rightarrow> nat \<Rightarrow> bool" where
  "contains_loop c ip now 0 = False"
| "contains_loop c ip now (Suc bits) =
     (if co_lens c (if is4 ip then 0 else 1, int bits) = 0 then contains_loop c ip now bits
      else case masked (PrefixFrom ip (int bits)) of
             None \<Rightarrow> contains_loop c ip now bits
           | Some p \<Rightarrow>
               (case map_of (co_nets c) p of
                  Some exp \<Rightarrow> if list_alive exp now then True else contains_loop c ip now bits
                | None \<Rightarrow> contains_loop c ip now bits))"

definition containsAddr :: "composition \<Rightarrow> addr \<Rightarrow> int \<Rightarrow> bool" where
  "containsAddr c ip now = (let ip = unmap ip in contains_loop c ip now (nat (bit_len ip) + 1))"

definition comp_size :: "composition \<Rightarrow> nat" where
  "comp_size c = length (co_entries c) + length (co_nets c)"

section \<open>One set\<close>

text \<open>A frame without \<open>Set\<close>, \<open>Key\<close>, \<open>Package\<close> and \<open>Count\<close>, which the mirror never reads; \<open>Object\<close> is
  read from the reply to a snapshot request only.\<close>

record frame =
  fr_v :: int
  fr_epoch :: string
  fr_seq :: w64
  fr_op :: string
  fr_hash :: string
  fr_inline :: string

abbreviation (input) FrameVersion :: int where "FrameVersion \<equiv> 3"
abbreviation "opResync \<equiv> ''resync''"
abbreviation "opDiff \<equiv> ''diff''"
abbreviation "opTick \<equiv> ''tick''"
abbreviation (input) packagesPerRead :: nat where "packagesPerRead \<equiv> 256"
abbreviation (input) silenceAfter :: duration where "silenceAfter \<equiv> 6 * Second"

record live_set =
  ls_name :: string
  ls_ready :: bool
  ls_epoch :: w64
  ls_seq :: w64
  ls_key :: string
  ls_typ :: int
  ls_comp :: composition
  ls_last_seen :: go_time
  ls_silent :: bool
  ls_snap_bad :: bool

definition new_set :: "string \<Rightarrow> go_time \<Rightarrow> live_set" where
  "new_set name now = \<lparr>ls_name = name, ls_ready = False, ls_epoch = 0, ls_seq = 0, ls_key = [],
     ls_typ = 0, ls_comp = newComposition, ls_last_seen = now, ls_silent = False,
     ls_snap_bad = False\<rparr>"

text \<open>\<open>fmt.Sprintf("%016x", v)\<close>, and \<open>strconv.ParseUint(s, 16, 64)\<close>.\<close>

definition hexOf :: "w64 \<Rightarrow> string" where
  "hexOf v = map (\<lambda>k. hex_digit (uint (take_bit 4 (drop_bit (4 * k) v)))) (rev [0..<16])"

definition parse_hex :: "string \<Rightarrow> w64 option" where
  "parse_hex s =
     (if s = [] \<or> \<not> list_all is_hex s then None
      else let v = foldl (\<lambda>acc c. acc * 16 + hex_val c) 0 s
           in if v < 2 ^ 64 then Some (word_of_int v) else None)"

subsection \<open>Reading objects\<close>

text \<open>What Redis answers to a \<open>GET\<close>, and per key to an \<open>MGET\<close>: a string, nothing, or something else.\<close>

datatype redis_value = RStr string | RNil | ROther

definition blob_object :: "redis_value option \<Rightarrow> string option option" where
  "blob_object got =
     (case got of
        Some (RStr s) \<Rightarrow> Some (Some s)
      | Some RNil \<Rightarrow> Some None
      | _ \<Rightarrow> None)"

definition blob_objects :: "redis_value list option \<Rightarrow> string option list option" where
  "blob_objects got =
     (case got of
        None \<Rightarrow> None
      | Some vals \<Rightarrow> Some (map (\<lambda>v. case v of RStr s \<Rightarrow> Some s | _ \<Rightarrow> None) vals))"

text \<open>The way from the reply to the snapshot request to the object it names: \<open>reply\<close> is \<^const>\<open>None\<close> when
  the request failed, \<open>Some None\<close> when the reply is not JSON, and otherwise its operation and object.\<close>

definition fetch_snapshot ::
    "(string \<times> string) option option \<Rightarrow> (string \<Rightarrow> redis_value option) option \<Rightarrow> string option" where
  "fetch_snapshot reply get =
     (case reply of
        Some (Some (op, object_key)) \<Rightarrow>
          if op \<noteq> ''snapshot'' \<or> object_key = [] then None
          else (case get of
                  None \<Rightarrow> None
                | Some g \<Rightarrow> (case blob_object (g object_key) of
                               None \<Rightarrow> None
                             | Some data \<Rightarrow> data))
      | _ \<Rightarrow> None)"

text \<open>A set's channel of frames: what arrives when it is full is dropped.\<close>

abbreviation (input) queueDepth :: nat where "queueDepth \<equiv> 1024"

definition offer_frame :: "frame option \<Rightarrow> frame list \<Rightarrow> frame list" where
  "offer_frame msg ch =
     (case msg of None \<Rightarrow> ch | Some f \<Rightarrow> if length ch < queueDepth then ch @ [f] else ch)"

subsection \<open>Operations\<close>

text \<open>The result of an operation; \<^const>\<open>None\<close> is a panic of \<open>comp_apply\<close>. \<open>fetch\<close> is the outcome of
  \<open>fetch_snapshot\<close> should the operation ask for one.\<close>

definition snapshot :: "string option \<Rightarrow> live_set \<Rightarrow> live_set option" where
  "snapshot fetch st =
     (if ls_snap_bad st then Some st
      else case fetch of
        None \<Rightarrow> Some st
      | Some data \<Rightarrow>
          (case unpack data of
             Inl e \<Rightarrow> Some st
           | Inr (head, recs) \<Rightarrow>
               if hd_kind head \<noteq> kindSnapshot then Some st
               else (case apply_all (hd_key head) (hd_typ head) recs newComposition of
                       None \<Rightarrow> None
                     | Some cp \<Rightarrow>
                         Some (st\<lparr>ls_epoch := hd_epoch head, ls_key := hd_key head,
                                  ls_seq := hd_seq head, ls_typ := hd_typ head, ls_comp := cp,
                                  ls_ready := True,
                                  ls_snap_bad := (co_hash cp \<noteq> hd_hash head)\<rparr>))))"

definition verify_set :: "string option \<Rightarrow> string \<Rightarrow> live_set \<Rightarrow> (live_set \<times> bool) option" where
  "verify_set fetch want st =
     (if want = [] \<or> hexOf (co_hash (ls_comp st)) = want then Some (st, True)
      else if ls_snap_bad st then Some (st, False)
      else map_option (\<lambda>st. (st, False)) (snapshot fetch st))"

definition applyPackage :: "string option \<Rightarrow> string \<Rightarrow> w64 \<Rightarrow> live_set \<Rightarrow> (live_set \<times> bool) option" where
  "applyPackage fetch data want st =
     (case unpack data of
        Inl e \<Rightarrow> map_option (\<lambda>st. (st, False)) (snapshot fetch st)
      | Inr (head, recs) \<Rightarrow>
          if hd_kind head \<noteq> kindPackage \<or> hd_epoch head \<noteq> ls_epoch st \<or> hd_seq head \<noteq> want \<or>
             hd_typ head \<noteq> ls_typ st
          then map_option (\<lambda>st. (st, False)) (snapshot fetch st)
          else (case apply_all (ls_key st) (hd_typ head) recs (ls_comp st) of
                  None \<Rightarrow> None
                | Some cp \<Rightarrow>
                    verify_set fetch (hexOf (hd_hash head)) (st\<lparr>ls_comp := cp, ls_seq := hd_seq head\<rparr>)))"

definition diffKey :: "string \<Rightarrow> w64 \<Rightarrow> string" where
  "diffKey name seq = ''waf:diff:'' @ name @ '':'' @ format_int (uint seq)"

text \<open>The packages of one read: the flag says whether \<open>catchUp\<close> goes on.\<close>

fun apply_objects ::
    "string option \<Rightarrow> string option list \<Rightarrow> w64 \<Rightarrow> live_set \<Rightarrow> (live_set \<times> bool) option" where
  "apply_objects fetch [] n st = Some (st, True)"
| "apply_objects fetch (ob # obs) n st =
     (case ob of
        None \<Rightarrow> map_option (\<lambda>st. (st, False)) (snapshot fetch st)
      | Some data \<Rightarrow>
          (case applyPackage fetch data n st of
             None \<Rightarrow> None
           | Some (st', ok) \<Rightarrow> if ok then apply_objects fetch obs (n + 1) st' else Some (st', False)))"

text \<open>\<open>catchUp\<close>; the fuel bounds the number of reads, each of at most 256 packages. A read that makes
  no progress would repeat for ever in the code, and ends the fuel here.\<close>

fun catchUp ::
    "nat \<Rightarrow> string option \<Rightarrow> (string list \<Rightarrow> string option list option) option \<Rightarrow> w64 \<Rightarrow> string \<Rightarrow>
     live_set \<Rightarrow> live_set option" where
  "catchUp 0 fetch objects upto_seq hash st = None"
| "catchUp (Suc fuel) fetch objects upto_seq hash st =
     (case objects of
        None \<Rightarrow> Some st
      | Some read_keys \<Rightarrow>
          if ls_seq st \<ge> upto_seq then map_option fst (verify_set fetch hash st)
          else let n = min (unat (upto_seq - ls_seq st)) packagesPerRead;
                   keys = map (\<lambda>i. diffKey (ls_name st) (ls_seq st + 1 + of_nat i)) [0..<n]
               in case read_keys keys of
                    None \<Rightarrow> Some st
                  | Some obs \<Rightarrow>
                      (case apply_objects fetch obs (ls_seq st + 1) st of
                         None \<Rightarrow> None
                       | Some (st', go_on) \<Rightarrow>
                           if go_on then catchUp fuel fetch objects upto_seq hash st' else Some st'))"

text \<open>\<open>base64.StdEncoding\<close> is the parameter \<open>b64std\<close>.\<close>

definition handle_frame ::
    "nat \<Rightarrow> (string \<Rightarrow> string option) \<Rightarrow> string option \<Rightarrow>
     (string list \<Rightarrow> string option list option) option \<Rightarrow> frame \<Rightarrow> live_set \<Rightarrow> live_set option" where
  "handle_frame fuel b64std fetch objects f st =
     (if \<not> ls_ready st then snapshot fetch st
      else if fr_op f = opResync then Some st
      else case parse_hex (fr_epoch f) of
        None \<Rightarrow> Some st
      | Some epoch \<Rightarrow>
          if epoch \<noteq> ls_epoch st then snapshot fetch (st\<lparr>ls_snap_bad := False\<rparr>)
          else if fr_seq f < ls_seq st then Some st
          else if fr_seq f = ls_seq st
          then if fr_op f = opTick \<or> fr_op f = opDiff
               then map_option fst (verify_set fetch (fr_hash f) st) else Some st
          else if fr_op f = opDiff \<and> fr_inline f \<noteq> [] \<and> fr_seq f = ls_seq st + 1
          then (case b64std (fr_inline f) of
                  Some data \<Rightarrow> map_option fst (applyPackage fetch data (fr_seq f) st)
                | None \<Rightarrow> catchUp fuel fetch objects (fr_seq f) (fr_hash f) st)
          else catchUp fuel fetch objects (fr_seq f) (fr_hash f) st)"

definition onFrame ::
    "nat \<Rightarrow> (string \<Rightarrow> string option) \<Rightarrow> string option \<Rightarrow>
     (string list \<Rightarrow> string option list option) option \<Rightarrow> go_time \<Rightarrow> frame \<Rightarrow> live_set \<Rightarrow>
     live_set option" where
  "onFrame fuel b64std fetch objects now f st =
     (if fr_v f \<noteq> FrameVersion then Some st
      else handle_frame fuel b64std fetch objects f
             (if fr_op f \<noteq> opResync then st\<lparr>ls_last_seen := now, ls_silent := False\<rparr> else st))"

text \<open>One tick of \<open>resync\<close> for one set: the frame it puts into the set's channel, if any.\<close>

definition resync_tick :: "go_time \<Rightarrow> live_set \<Rightarrow> live_set \<times> frame option" where
  "resync_tick now st =
     (let quiet = (\<not> ls_silent st \<and> now - ls_last_seen st > silenceAfter)
      in (if ls_ready st \<and> quiet then st\<lparr>ls_silent := True\<rparr> else st,
          if ls_ready st then None
          else Some \<lparr>fr_v = FrameVersion, fr_epoch = [], fr_seq = 0, fr_op = opResync, fr_hash = [],
                     fr_inline = []\<rparr>))"

section \<open>Reading\<close>

definition set_contains :: "int \<Rightarrow> string \<Rightarrow> live_set \<Rightarrow> bool \<times> bool" where
  "set_contains now v st =
     (if \<not> ls_ready st then (False, False)
      else if ls_typ st = typeCIDR
      then case ParseAddr v of
             Some a \<Rightarrow> (containsAddr (ls_comp st) a now, True)
           | None \<Rightarrow>
               (case ParsePrefix v of
                  None \<Rightarrow> (False, True)
                | Some p \<Rightarrow>
                    (case masked (PrefixFrom (unmap (fst p)) (snd p)) of
                       None \<Rightarrow> (False, True)
                     | Some q \<Rightarrow>
                         (case map_of (co_nets (ls_comp st)) q of
                            None \<Rightarrow> (False, True)
                          | Some exp \<Rightarrow> (list_alive exp now, True))))
      else case map_of (co_entries (ls_comp st)) v of
             None \<Rightarrow> (False, True)
           | Some re \<Rightarrow> (list_alive (cr_exp re) now, True))"

definition mirror_contains ::
    "(string, live_set) gomap \<Rightarrow> int \<Rightarrow> string \<Rightarrow> string \<Rightarrow> bool \<times> bool" where
  "mirror_contains sets now name v =
     (case map_of sets name of
        None \<Rightarrow> (False, False)
      | Some st \<Rightarrow> if v = [] then (False, False) else set_contains now v st)"

definition ContainsAddr :: "(string, live_set) gomap \<Rightarrow> int \<Rightarrow> string \<Rightarrow> addr option \<Rightarrow> bool \<times> bool" where
  "ContainsAddr sets now name ip =
     (case (map_of sets name, ip) of
        (Some st, Some a) \<Rightarrow>
          if \<not> ls_ready st then (False, False) else (containsAddr (ls_comp st) a now, True)
      | _ \<Rightarrow> (False, False))"

definition Lookup ::
    "(string, live_set) gomap \<Rightarrow> int \<Rightarrow> string \<Rightarrow> string \<Rightarrow> comp_record option \<times> bool" where
  "Lookup sets now name v =
     (case map_of sets name of
        None \<Rightarrow> (None, False)
      | Some st \<Rightarrow>
          if v = [] \<or> \<not> ls_ready st then (None, False)
          else case map_of (co_entries (ls_comp st)) v of
                 None \<Rightarrow> (None, True)
               | Some re \<Rightarrow> if list_alive (cr_exp re) now then (Some re, True) else (None, True))"

record list_stats =
  lst_name :: string
  lst_ready :: bool
  lst_epoch :: string
  lst_seq :: w64
  lst_hash :: string
  lst_entries :: nat

definition set_stats :: "live_set \<Rightarrow> list_stats" where
  "set_stats st = \<lparr>lst_name = ls_name st, lst_ready = ls_ready st, lst_epoch = hexOf (ls_epoch st),
     lst_seq = ls_seq st, lst_hash = hexOf (co_hash (ls_comp st)), lst_entries = comp_size (ls_comp st)\<rparr>"

definition mirror_stats :: "(string, live_set) gomap \<Rightarrow> list_stats list" where
  "mirror_stats sets = map (\<lambda>(_, st). set_stats st) sets"

text \<open>\<open>Ensure\<close>: whether the set was added and whether its goroutine runs. \<open>subscribed\<close> is the outcome
  of the NATS subscription.\<close>

definition Ensure ::
    "bool \<Rightarrow> string \<Rightarrow> go_time \<Rightarrow> (string, live_set) gomap \<Rightarrow> (string, live_set) gomap \<times> bool" where
  "Ensure subscribed name now sets =
     (if name = [] then (sets, False)
      else if map_of sets name \<noteq> None then (sets, False)
      else (AList.update name (new_set name now) sets, subscribed))"

section \<open>The invariant of a composition\<close>

definition xor_all :: "('a \<Rightarrow> w64) \<Rightarrow> 'a list \<Rightarrow> w64" where
  "xor_all f xs = foldr (\<lambda>x h. f x XOR h) xs 0"

lemma xor_all_simps [simp]:
  "xor_all f [] = 0" "xor_all f (x # xs) = f x XOR xor_all f xs"
  by (simp_all add: xor_all_def)

lemma xor_all_snoc: "xor_all f (xs @ [x]) = xor_all f xs XOR f x"
  by (induction xs) (simp_all add: ac_simps)

lemma xor_all_remove:
  "distinct xs \<Longrightarrow> x \<in> set xs \<Longrightarrow> xor_all f (removeAll x xs) = xor_all f xs XOR f x"
proof (induction xs)
  case Nil
  then show ?case by simp
next
  case (Cons y ys)
  have cancel: "f x XOR (f x XOR w) = w" for w by (simp flip: xor.assoc)
  show ?case
  proof (cases "x = y")
    case True
    then show ?thesis using Cons.prems by (simp add: ac_simps cancel)
  next
    case False
    then show ?thesis using Cons by (simp add: ac_simps)
  qed
qed

lemma xor_all_set:
  "distinct xs \<Longrightarrow> distinct ys \<Longrightarrow> set xs = set ys \<Longrightarrow> xor_all f xs = xor_all f ys"
proof (induction xs arbitrary: ys)
  case Nil
  then show ?case by simp
next
  case (Cons x xs)
  have cancel: "f x XOR (f x XOR w) = w" for w by (simp flip: xor.assoc)
  have "set xs = set (removeAll x ys)" using Cons.prems by auto
  then have "xor_all f xs = xor_all f (removeAll x ys)"
    using Cons.IH [of "removeAll x ys"] Cons.prems by (simp add: distinct_removeAll)
  also have "\<dots> = xor_all f ys XOR f x"
    using Cons.prems by (intro xor_all_remove) auto
  finally show ?case by (simp add: ac_simps cancel)
qed

text \<open>What ties the hash and the index of lengths to the keys the two maps hold.\<close>

definition keys_inv ::
    "string \<Rightarrow> string list \<Rightarrow> ip_prefix list \<Rightarrow> (nat \<times> int \<Rightarrow> int) \<Rightarrow> w64 \<Rightarrow> bool" where
  "keys_inv key es ns ln h \<longleftrightarrow>
     distinct es \<and> distinct ns \<and> (\<forall>p \<in> set ns. 0 \<le> snd p) \<and>
     ln = (\<lambda>i. int (length (filter (\<lambda>p. (family p, snd p) = i) ns))) \<and>
     h = xor_all (SipHash key) es XOR xor_all (\<lambda>p. SipHashBytes key (prefixMaterial p)) ns"

definition comp_inv :: "string \<Rightarrow> composition \<Rightarrow> bool" where
  "comp_inv key c \<longleftrightarrow>
     keys_inv key (map fst (co_entries c)) (map fst (co_nets c)) (co_lens c) (co_hash c)"

lemma new_comp_inv [simp]: "comp_inv key newComposition"
  by (simp add: comp_inv_def keys_inv_def newComposition_def)

lemma keys_map_of: "map_of al k \<noteq> None \<longleftrightarrow> k \<in> set (map fst al)"
  by (simp add: map_of_eq_None_iff)

lemma filter_removeAll_length:
  assumes "distinct xs" "x \<in> set xs"
  shows "int (length (filter P (removeAll x xs))) = int (length (filter P xs)) - (if P x then 1 else 0)"
  using assms
proof (induction xs)
  case Nil
  then show ?case by simp
next
  case (Cons y ys)
  show ?case
  proof (cases "x = y")
    case True
    then show ?thesis using Cons.prems by simp
  next
    case False
    then show ?thesis using Cons by auto
  qed
qed

lemma keys_inv_net_add:
  assumes "keys_inv key es ns ln h" "p \<notin> set ns" "0 \<le> snd p"
  shows "keys_inv key es (ns @ [p]) (ln((family p, snd p) := ln (family p, snd p) + 1))
           (h XOR SipHashBytes key (prefixMaterial p))"
  using assms unfolding keys_inv_def by (simp add: xor_all_snoc xor.assoc fun_eq_iff)

lemma keys_inv_net_del:
  assumes "keys_inv key es ns ln h" "p \<in> set ns"
  shows "keys_inv key es (removeAll p ns) (ln((family p, snd p) := ln (family p, snd p) - 1))
           (h XOR SipHashBytes key (prefixMaterial p))"
  using assms unfolding keys_inv_def
  by (simp add: xor_all_remove distinct_removeAll xor.assoc fun_eq_iff filter_removeAll_length)

lemma keys_inv_entry_add:
  assumes "keys_inv key es ns ln h" "v \<notin> set es"
  shows "keys_inv key (es @ [v]) ns ln (h XOR SipHash key v)"
  using assms unfolding keys_inv_def by (simp add: xor_all_snoc ac_simps)

lemma keys_inv_entry_del:
  assumes "keys_inv key es ns ln h" "v \<in> set es"
  shows "keys_inv key (removeAll v es) ns ln (h XOR SipHash key v)"
  using assms unfolding keys_inv_def by (simp add: xor_all_remove distinct_removeAll ac_simps)

lemma update_fst:
  "map fst (AList.update k v al) = (if map_of al k = None then map fst al @ [k] else map fst al)"
  using update_keys [of k v al] keys_map_of [of al k] by simp

lemma delete_fst: "map fst (AList.delete k al) = removeAll k (map fst al)"
  by (rule delete_keys)

lemma apply_net_inv:
  assumes inv: "comp_inv key c" and ty: "ty = typeCIDR" and p: "pr_prefix r = Some p"
    and res: "comp_apply key ty r c = Some c'"
  shows "comp_inv key c'"
proof -
  note k = inv [unfolded comp_inv_def]
  note step = res [unfolded comp_apply_def Let_def ty p, simplified if_P [OF refl] option.case]
  show ?thesis
  proof (cases "map_of (co_nets c) p")
    case m: None
    then have fresh: "p \<notin> set (map fst (co_nets c))"
      using keys_map_of [of "co_nets c" p] by simp
    show ?thesis
    proof (cases "pr_op r = recAdd")
      case add: True
      show ?thesis
      proof (cases "snd p < 0")
        case True
        with step m add show ?thesis by simp
      next
        case False
        with step m add have c': "c' = c\<lparr>co_hash := co_hash c XOR SipHashBytes key (prefixMaterial p),
            co_lens := (co_lens c)((family p, snd p) := co_lens c (family p, snd p) + 1),
            co_nets := AList.update p (pr_exp r) (co_nets c)\<rparr>" by simp
        show ?thesis
          unfolding comp_inv_def c'
          using keys_inv_net_add [OF k fresh] False by (simp add: update_fst m del: set_map)
      qed
    next
      case False
      with step m inv show ?thesis by simp
    qed
  next
    case m: (Some e)
    then have old: "p \<in> set (map fst (co_nets c))"
      using keys_map_of [of "co_nets c" p] by simp
    show ?thesis
    proof (cases "pr_op r = recAdd")
      case True
      with step m have c': "c' = c\<lparr>co_nets := AList.update p (pr_exp r) (co_nets c)\<rparr>" by simp
      show ?thesis unfolding comp_inv_def c' using k by (simp add: update_fst m del: set_map)
    next
      case False
      with step m have c': "c' = c\<lparr>co_hash := co_hash c XOR SipHashBytes key (prefixMaterial p),
            co_lens := (co_lens c)((family p, snd p) := co_lens c (family p, snd p) - 1),
            co_nets := AList.delete p (co_nets c)\<rparr>" by (simp split: if_splits)
      show ?thesis
        unfolding comp_inv_def c'
        using keys_inv_net_del [OF k old] by (simp add: delete_fst del: set_map)
    qed
  qed
qed

lemma apply_entry_inv:
  assumes inv: "comp_inv key c" and ty: "ty \<noteq> typeCIDR"
    and res: "comp_apply key ty r c = Some c'"
  shows "comp_inv key c'"
proof -
  note k = inv [unfolded comp_inv_def]
  let ?v = "pr_value r"
  let ?put = "AList.update ?v \<lparr>cr_exp = pr_exp r, cr_reason = pr_reason r\<rparr> (co_entries c)"
  note step = res [unfolded comp_apply_def Let_def, simplified if_not_P [OF ty]]
  show ?thesis
  proof (cases "map_of (co_entries c) ?v")
    case m: None
    then have fresh: "?v \<notin> set (map fst (co_entries c))"
      using keys_map_of [of "co_entries c" ?v] by simp
    show ?thesis
    proof (cases "pr_op r = recAdd")
      case True
      with step m have c': "c' = c\<lparr>co_hash := co_hash c XOR SipHash key ?v, co_entries := ?put\<rparr>"
        by simp
      show ?thesis
        unfolding comp_inv_def c'
        using keys_inv_entry_add [OF k fresh] by (simp add: update_fst m del: set_map)
    next
      case False
      with step m inv show ?thesis by simp
    qed
  next
    case m: (Some e)
    then have old: "?v \<in> set (map fst (co_entries c))"
      using keys_map_of [of "co_entries c" ?v] by simp
    show ?thesis
    proof (cases "pr_op r = recAdd")
      case True
      with step m have c': "c' = c\<lparr>co_entries := ?put\<rparr>" by simp
      show ?thesis unfolding comp_inv_def c' using k by (simp add: update_fst m del: set_map)
    next
      case False
      with step m have c': "c' = c\<lparr>co_hash := co_hash c XOR SipHash key ?v,
          co_entries := AList.delete ?v (co_entries c)\<rparr>" by simp
      show ?thesis
        unfolding comp_inv_def c'
        using keys_inv_entry_del [OF k old] by (simp add: delete_fst del: set_map)
    qed
  qed
qed

lemma comp_apply_inv:
  assumes "comp_inv key c" "comp_apply key ty r c = Some c'"
  shows "comp_inv key c'"
proof (cases "ty = typeCIDR")
  case ty: True
  show ?thesis
  proof (cases "pr_prefix r")
    case None
    with assms ty show ?thesis by (simp add: comp_apply_def)
  next
    case (Some p)
    show ?thesis by (rule apply_net_inv [OF assms(1) ty Some assms(2)])
  qed
next
  case False
  show ?thesis by (rule apply_entry_inv [OF assms(1) False assms(2)])
qed

lemma apply_all_inv:
  "comp_inv key c \<Longrightarrow> apply_all key ty rs c = Some c' \<Longrightarrow> comp_inv key c'"
proof (induction rs arbitrary: c)
  case Nil
  then show ?case by simp
next
  case (Cons r rs)
  then obtain c1 where "comp_apply key ty r c = Some c1" "apply_all key ty rs c1 = Some c'"
    by (auto split: option.splits)
  with Cons show ?case using comp_apply_inv by blast
qed


lemma apply_all_append:
  "apply_all key ty (rs @ rs') c =
     (case apply_all key ty rs c of None \<Rightarrow> None | Some c' \<Rightarrow> apply_all key ty rs' c')"
  by (induction rs arbitrary: c) (simp_all split: option.split)

text \<open>An index in the code's array of lengths is out of range only for a prefix without a length.\<close>

definition record_ok :: "pack_record \<Rightarrow> bool" where
  "record_ok r \<longleftrightarrow> (case pr_prefix r of None \<Rightarrow> True | Some p \<Rightarrow> 0 \<le> snd p)"

lemma comp_apply_ok: "record_ok r \<Longrightarrow> comp_apply key ty r c \<noteq> None"
  by (auto simp: comp_apply_def record_ok_def Let_def split: option.splits)

lemma apply_all_ok: "\<forall>r \<in> set rs. record_ok r \<Longrightarrow> apply_all key ty rs c \<noteq> None"
proof (induction rs arbitrary: c)
  case Nil
  then show ?case by simp
next
  case (Cons r rs)
  then obtain c1 where "comp_apply key ty r c = Some c1"
    using comp_apply_ok [of r key ty c] by auto
  with Cons show ?case by simp
qed

section \<open>The content of a set\<close>

text \<open>What a composition stands for: the strings with their expiry and reason, and the prefixes with
  their expiry; \<open>content_apply\<close> says what a record does to them, with neither hash nor index.\<close>

type_synonym content = "(string \<rightharpoonup> comp_record) \<times> (ip_prefix \<rightharpoonup> int)"

definition content_of :: "composition \<Rightarrow> content" where
  "content_of c = (map_of (co_entries c), map_of (co_nets c))"

definition content_apply :: "int \<Rightarrow> pack_record \<Rightarrow> content \<Rightarrow> content" where
  "content_apply ty r m =
     (if ty = typeCIDR
      then case pr_prefix r of
             None \<Rightarrow> m
           | Some p \<Rightarrow> (fst m, (snd m)(p := if pr_op r = recAdd then Some (pr_exp r) else None))
      else ((fst m)(pr_value r := if pr_op r = recAdd
                                  then Some \<lparr>cr_exp = pr_exp r, cr_reason = pr_reason r\<rparr> else None),
            snd m))"

abbreviation content_all :: "int \<Rightarrow> pack_record list \<Rightarrow> content \<Rightarrow> content" where
  "content_all ty rs m \<equiv> fold (content_apply ty) rs m"

abbreviation no_content :: content where "no_content \<equiv> (Map.empty, Map.empty)"

lemma content_new [simp]: "content_of newComposition = no_content"
  by (simp add: content_of_def newComposition_def)

lemma comp_apply_content:
  assumes res: "comp_apply key ty r c = Some c'"
  shows "content_of c' = content_apply ty r (content_of c)"
proof (cases "ty = typeCIDR")
  case True
  show ?thesis
  proof (cases "pr_prefix r")
    case None
    with res True show ?thesis by (simp add: comp_apply_def content_apply_def)
  next
    case (Some p)
    have idle: "map_of (co_nets c) p = None \<Longrightarrow> (map_of (co_nets c))(p := None) = map_of (co_nets c)"
      by (rule ext) simp
    show ?thesis
      using res True Some idle
      by (simp add: comp_apply_def content_apply_def content_of_def Let_def update_conv' delete_conv'
          split: if_splits)
        (auto simp: update_conv' delete_conv')
  qed
next
  case False
  have idle: "map_of (co_entries c) v = None \<Longrightarrow>
      (map_of (co_entries c))(v := None) = map_of (co_entries c)" for v
    by (rule ext) simp
  show ?thesis
    using res False idle
    by (simp add: comp_apply_def content_apply_def content_of_def Let_def split: if_splits)
      (auto simp: update_conv' delete_conv')
qed

lemma apply_all_content:
  "apply_all key ty rs c = Some c' \<Longrightarrow> content_of c' = content_all ty rs (content_of c)"
proof (induction rs arbitrary: c)
  case Nil
  then show ?case by simp
next
  case (Cons r rs)
  then obtain c1 where "comp_apply key ty r c = Some c1" "apply_all key ty rs c1 = Some c'"
    by (auto split: option.splits)
  with Cons.IH [of c1] comp_apply_content [of key ty r c c1] show ?case by simp
qed

subsection \<open>Membership of an address\<close>

text \<open>\<open>covers p a\<close>: p is the network of its length a lies in.\<close>

definition covers :: "ip_prefix \<Rightarrow> addr \<Rightarrow> bool" where
  "covers p a \<longleftrightarrow> 0 \<le> snd p \<and> snd p \<le> bit_len a \<and> fst p = mask_addr a (snd p)"

lemma masked_net: "b \<le> bit_len a \<Longrightarrow> 0 \<le> b \<Longrightarrow> masked (PrefixFrom a b) = Some (mask_addr a b, b)"
proof -
  assume b: "b \<le> bit_len a" "0 \<le> b"
  have "bit_len (without_zone a) = bit_len a" by (cases a) auto
  with b show ?thesis by (simp add: masked_def PrefixFrom_def addr_prefix_ok)
qed

lemma lens_skip:
  assumes inv: "comp_inv key c" and z: "co_lens c (f, b) = 0" and p: "map_of (co_nets c) p = Some e"
  shows "\<not> (family p = f \<and> snd p = b)"
proof
  assume fb: "family p = f \<and> snd p = b"
  have "(p, e) \<in> set (co_nets c)" using p by (rule map_of_SomeD)
  moreover have "length (filter (\<lambda>q. (family q, snd q) = (f, b)) (map fst (co_nets c))) = 0"
    using inv z by (simp add: comp_inv_def keys_inv_def del: set_map)
  ultimately show False using fb by (force simp: filter_empty_conv)
qed

lemma contains_loop_exact:
  assumes inv: "comp_inv key c" and n: "int n \<le> bit_len a + 1"
  shows "contains_loop c a now n \<longleftrightarrow>
     (\<exists>p e. map_of (co_nets c) p = Some e \<and> list_alive e now \<and> covers p a \<and> snd p < int n)"
  using n
proof (induction n)
  case 0
  then show ?case by (auto simp: covers_def)
next
  case (Suc n)
  let ?q = "(mask_addr a (int n), int n)"
  let ?hit = "\<lambda>n. \<exists>p e. map_of (co_nets c) p = Some e \<and> list_alive e now \<and> covers p a \<and> snd p < int n"
  have IH: "contains_loop c a now n \<longleftrightarrow> ?hit n" using Suc by simp
  have net: "masked (PrefixFrom a (int n)) = Some ?q" using Suc.prems by (intro masked_net) auto
  have here: "covers p a \<and> snd p < int (Suc n) \<longleftrightarrow> p = ?q \<or> (covers p a \<and> snd p < int n)" for p
  proof -
    have "snd p < int (Suc n) \<longleftrightarrow> snd p = int n \<or> snd p < int n" by auto
    moreover have "covers p a \<and> snd p = int n \<longleftrightarrow> p = ?q"
      using Suc.prems by (auto simp: covers_def prod_eq_iff)
    ultimately show ?thesis by blast
  qed
  have step: "?hit (Suc n) \<longleftrightarrow> (\<exists>e. map_of (co_nets c) ?q = Some e \<and> list_alive e now) \<or> ?hit n"
    unfolding here by blast
  have fam: "family ?q = (if is4 a then 0 else 1)" by (simp add: family_def)
  show ?case
  proof (cases "co_lens c (if is4 a then 0 else 1, int n) = 0")
    case True
    have "map_of (co_nets c) ?q = None"
    proof (rule ccontr)
      assume "map_of (co_nets c) ?q \<noteq> None"
      then obtain e where "map_of (co_nets c) ?q = Some e" by auto
      from lens_skip [OF inv True this] fam show False by simp
    qed
    with True step IH show ?thesis by simp
  next
    case False
    then show ?thesis
      using net step IH by (cases "map_of (co_nets c) ?q") simp_all
  qed
qed

lemma containsAddr_iff:
  assumes "comp_inv key c"
  shows "containsAddr c a now \<longleftrightarrow>
     (\<exists>p e. map_of (co_nets c) p = Some e \<and> list_alive e now \<and> covers p (unmap a))"
proof -
  have "0 \<le> bit_len (unmap a)" by (simp add: bit_len_cases)
  then show ?thesis
    using contains_loop_exact [OF assms, of "nat (bit_len (unmap a) + 1)" "unmap a" now]
    by (auto simp: containsAddr_def covers_def Let_def nat_add_distrib)
qed


section \<open>Following the keeper\<close>

text \<open>The keeper's history is a content for every epoch and sequence number. A snapshot is honest when
  its records build the content of the epoch and number it names, a package when its records lead
  there from the content one number earlier.\<close>

type_synonym history = "w64 \<Rightarrow> w64 \<Rightarrow> content"

definition honest_snapshot :: "history \<Rightarrow> string \<Rightarrow> bool" where
  "honest_snapshot K data \<longleftrightarrow>
     (\<forall>head recs. unpack data = Inr (head, recs) \<longrightarrow> hd_kind head = kindSnapshot \<longrightarrow>
        content_all (hd_typ head) recs no_content = K (hd_epoch head) (hd_seq head))"

definition honest_package :: "history \<Rightarrow> string \<Rightarrow> bool" where
  "honest_package K data \<longleftrightarrow>
     (\<forall>head recs. unpack data = Inr (head, recs) \<longrightarrow> hd_kind head = kindPackage \<longrightarrow>
        content_all (hd_typ head) recs (K (hd_epoch head) (hd_seq head - 1)) =
        K (hd_epoch head) (hd_seq head))"

definition honest ::
    "history \<Rightarrow> (string \<Rightarrow> string option) \<Rightarrow> string option \<Rightarrow>
     (string list \<Rightarrow> string option list option) option \<Rightarrow> frame \<Rightarrow> bool" where
  "honest K b64std fetch objects f \<longleftrightarrow>
     (\<forall>d. fetch = Some d \<longrightarrow> honest_snapshot K d) \<and>
     (\<forall>get keys obs d. objects = Some get \<longrightarrow> get keys = Some obs \<longrightarrow> Some d \<in> set obs \<longrightarrow>
        honest_package K d) \<and>
     (\<forall>d. b64std (fr_inline f) = Some d \<longrightarrow> honest_package K d)"

definition follows :: "history \<Rightarrow> live_set \<Rightarrow> bool" where
  "follows K st \<longleftrightarrow>
     (ls_ready st \<longrightarrow> comp_inv (ls_key st) (ls_comp st) \<and>
        content_of (ls_comp st) = K (ls_epoch st) (ls_seq st))"

lemma follows_idle [simp]:
  "follows K (st\<lparr>ls_last_seen := t\<rparr>) = follows K st"
  "follows K (st\<lparr>ls_silent := b\<rparr>) = follows K st"
  "follows K (st\<lparr>ls_snap_bad := b\<rparr>) = follows K st"
  by (simp_all add: follows_def)

lemma snapshot_follows:
  assumes st: "follows K st" and h: "\<forall>d. fetch = Some d \<longrightarrow> honest_snapshot K d"
    and res: "snapshot fetch st = Some st'"
  shows "follows K st'"
proof (cases "st' = st")
  case False
  with res obtain data head recs cp where
    d: "fetch = Some data" "unpack data = Inr (head, recs)" "hd_kind head = kindSnapshot"
    and cp: "apply_all (hd_key head) (hd_typ head) recs newComposition = Some cp"
    and st': "st' = st\<lparr>ls_epoch := hd_epoch head, ls_key := hd_key head, ls_seq := hd_seq head,
       ls_typ := hd_typ head, ls_comp := cp, ls_ready := True, ls_snap_bad := (co_hash cp \<noteq> hd_hash head)\<rparr>"
    by (auto simp: snapshot_def split: if_splits option.splits sum.splits)
  have "content_of cp = K (hd_epoch head) (hd_seq head)"
    using apply_all_content [OF cp] h d by (auto simp: honest_snapshot_def)
  moreover have "comp_inv (hd_key head) cp" using apply_all_inv [OF new_comp_inv cp] .
  ultimately show ?thesis by (simp add: st' follows_def)
qed (use st in simp)

lemma verify_follows:
  assumes st: "follows K st" and h: "\<forall>d. fetch = Some d \<longrightarrow> honest_snapshot K d"
    and res: "verify_set fetch want st = Some (st', ok)"
  shows "follows K st' \<and> (ok \<longrightarrow> st' = st)"
  using res snapshot_follows [OF st h] st
  by (auto simp: verify_set_def split: if_splits)

lemma applyPackage_follows:
  assumes st: "follows K st" and h: "\<forall>d. fetch = Some d \<longrightarrow> honest_snapshot K d"
    and p: "honest_package K data" and want: "want = ls_seq st + 1"
    and res: "applyPackage fetch data want st = Some (st', ok)"
  shows "follows K st' \<and> (ok \<longrightarrow> ls_seq st' = want)"
proof -
  have snap: "snapshot fetch st = Some st' \<and> \<not> ok \<Longrightarrow> ?thesis"
    using snapshot_follows [OF st h] by auto
  show ?thesis
  proof (cases "unpack data")
    case (Inl e)
    with res snap show ?thesis by (auto simp: applyPackage_def)
  next
    case (Inr hr)
    obtain head recs where hr: "hr = (head, recs)" by (cases hr)
    show ?thesis
    proof (cases "hd_kind head \<noteq> kindPackage \<or> hd_epoch head \<noteq> ls_epoch st \<or> hd_seq head \<noteq> want \<or>
             hd_typ head \<noteq> ls_typ st")
      case True
      with res snap Inr hr show ?thesis by (auto simp: applyPackage_def)
    next
      case False
      with res Inr hr obtain cp where
        cp: "apply_all (ls_key st) (hd_typ head) recs (ls_comp st) = Some cp" and
        v: "verify_set fetch (hexOf (hd_hash head)) (st\<lparr>ls_comp := cp, ls_seq := hd_seq head\<rparr>) = Some (st', ok)"
        by (auto simp: applyPackage_def split: option.splits)
      have step: "content_all (hd_typ head) recs (K (ls_epoch st) (ls_seq st)) = K (ls_epoch st) want"
        using p Inr hr False want by (auto simp: honest_package_def)
      have "follows K (st\<lparr>ls_comp := cp, ls_seq := hd_seq head\<rparr>)"
        using st step apply_all_content [OF cp] apply_all_inv [OF _ cp] False by (simp add: follows_def)
      from verify_follows [OF this h v] False show ?thesis by auto
    qed
  qed
qed

lemma apply_objects_follows:
  assumes h: "\<forall>d. fetch = Some d \<longrightarrow> honest_snapshot K d"
  shows "follows K st \<Longrightarrow> \<forall>d. Some d \<in> set obs \<longrightarrow> honest_package K d \<Longrightarrow> n = ls_seq st + 1 \<Longrightarrow>
    apply_objects fetch obs n st = Some (st', go_on) \<Longrightarrow> follows K st'"
proof (induction obs arbitrary: n st)
  case Nil
  then show ?case by simp
next
  case (Cons ob obs)
  show ?case
  proof (cases ob)
    case None
    with Cons.prems show ?thesis using snapshot_follows [OF Cons.prems(1) h] by auto
  next
    case (Some data)
    with Cons.prems obtain st1 ok where a: "applyPackage fetch data n st = Some (st1, ok)"
      by (auto split: option.splits)
    have hp: "honest_package K data" using Cons.prems(2) Some by simp
    note one = applyPackage_follows [OF Cons.prems(1) h hp Cons.prems(3) a]
    show ?thesis
    proof (cases ok)
      case True
      with Cons.IH [of st1 "n + 1"] Cons.prems one a Some show ?thesis by simp
    next
      case False
      with Cons.prems one a Some show ?thesis by simp
    qed
  qed
qed

lemma catchUp_follows:
  assumes h: "\<forall>d. fetch = Some d \<longrightarrow> honest_snapshot K d"
    and p: "\<forall>get keys obs d. objects = Some get \<longrightarrow> get keys = Some obs \<longrightarrow> Some d \<in> set obs \<longrightarrow>
        honest_package K d"
  shows "follows K st \<Longrightarrow> catchUp fuel fetch objects upto_seq hash st = Some st' \<Longrightarrow> follows K st'"
proof (induction fuel arbitrary: st)
  case 0
  then show ?case by simp
next
  case (Suc fuel)
  show ?case
  proof (cases "objects = None \<or> ls_seq st \<ge> upto_seq")
    case True
    then show ?thesis
      using Suc.prems verify_follows [OF Suc.prems(1) h] by (auto split: option.splits if_splits)
  next
    case False
    then obtain get where get: "objects = Some get" by auto
    let ?keys = "map (\<lambda>i. diffKey (ls_name st) (ls_seq st + 1 + of_nat i))
      [0..<min (unat (upto_seq - ls_seq st)) packagesPerRead]"
    show ?thesis
    proof (cases "get ?keys")
      case None
      with False get Suc.prems show ?thesis by (simp add: Let_def)
    next
      case (Some obs)
      with False get Suc.prems obtain st1 go_on where
        a: "apply_objects fetch obs (ls_seq st + 1) st = Some (st1, go_on)" and
        r: "(if go_on then catchUp fuel fetch objects upto_seq hash st1 else Some st1) = Some st'"
        by (auto simp: Let_def split: option.splits)
      have "\<forall>d. Some d \<in> set obs \<longrightarrow> honest_package K d" using p get Some by blast
      from apply_objects_follows [OF h Suc.prems(1) this refl a] Suc.IH [of st1] r
      show ?thesis by (auto split: if_splits)
    qed
  qed
qed

lemma handle_frame_follows:
  assumes st: "follows K st" and env: "honest K b64std fetch objects f"
    and res: "handle_frame fuel b64std fetch objects f st = Some st'"
  shows "follows K st'"
proof -
  have h: "\<forall>d. fetch = Some d \<longrightarrow> honest_snapshot K d"
    and p: "\<forall>get keys obs d. objects = Some get \<longrightarrow> get keys = Some obs \<longrightarrow> Some d \<in> set obs \<longrightarrow>
        honest_package K d"
    and inline: "\<forall>d. b64std (fr_inline f) = Some d \<longrightarrow> honest_package K d"
    using env by (auto simp: honest_def)
  have st1: "follows K (st\<lparr>ls_snap_bad := False\<rparr>)" using st by simp
  note snap = snapshot_follows [OF st h] snapshot_follows [OF st1 h]
  note ver = verify_follows [OF st h]
  note catch_up = catchUp_follows [OF h p st]
  have pack: "applyPackage fetch d (ls_seq st + 1) st = Some (st', ok) \<Longrightarrow>
      b64std (fr_inline f) = Some d \<Longrightarrow> follows K st'" for d ok
    using applyPackage_follows [OF st h, of d "ls_seq st + 1" st' ok] inline by simp
  show ?thesis
    using res st unfolding handle_frame_def
    by (auto split: if_split_asm option.split_asm dest: snap ver catch_up pack)
qed

lemma onFrame_follows:
  assumes st: "follows K st" and env: "honest K b64std fetch objects f"
    and res: "onFrame fuel b64std fetch objects now f st = Some st'"
  shows "follows K st'"
proof (cases "fr_v f = FrameVersion")
  case True
  let ?st = "if fr_op f \<noteq> opResync then st\<lparr>ls_last_seen := now, ls_silent := False\<rparr> else st"
  have "follows K ?st" using st by simp
  moreover have "handle_frame fuel b64std fetch objects f ?st = Some st'"
    using res True by (simp add: onFrame_def)
  ultimately show ?thesis by (rule handle_frame_follows [OF _ env])
qed (use res st in \<open>simp add: onFrame_def\<close>)

subsection \<open>The life of a set\<close>

text \<open>What the goroutine of a set and the ticker do to it, the keeper being honest: the snapshot at the
  start, a frame, a tick of \<open>resync\<close>.\<close>

inductive live_reach :: "history \<Rightarrow> string \<Rightarrow> live_set \<Rightarrow> bool" for K :: history and name :: string where
  ensure: "live_reach K name (new_set name now)"
| start: "live_reach K name st \<Longrightarrow> \<forall>d. fetch = Some d \<longrightarrow> honest_snapshot K d \<Longrightarrow>
    snapshot fetch st = Some st' \<Longrightarrow> live_reach K name st'"
| message: "live_reach K name st \<Longrightarrow> honest K b64std fetch objects f \<Longrightarrow>
    onFrame fuel b64std fetch objects now f st = Some st' \<Longrightarrow> live_reach K name st'"
| tick: "live_reach K name st \<Longrightarrow> live_reach K name (fst (resync_tick now st))"

lemma new_set_follows [simp]: "follows K (new_set name now)"
  by (simp add: follows_def new_set_def)

lemma tick_follows: "follows K (fst (resync_tick now st)) = follows K st"
  by (simp add: resync_tick_def Let_def)

lemma live_follows: "live_reach K name st \<Longrightarrow> follows K st"
proof (induction rule: live_reach.induct)
  case (ensure now)
  show ?case by simp
next
  case (start st fetch st')
  then show ?case using snapshot_follows by blast
next
  case (message st b64std fetch objects f fuel now st')
  then show ?case using onFrame_follows by blast
next
  case (tick st now)
  then show ?case by (simp add: tick_follows)
qed

subsection \<open>When catching up ends\<close>

definition sound_data :: "string \<Rightarrow> bool" where
  "sound_data data \<longleftrightarrow> (\<forall>head recs. unpack data = Inr (head, recs) \<longrightarrow> (\<forall>r \<in> set recs. record_ok r))"

lemma ex_bool [simp]: "\<exists>x. x" "\<exists>x. \<not> x" "Ex Not"
  by (rule exI [of _ True], simp) (rule exI [of _ False], simp)+

lemma snapshot_returns:
  assumes "\<forall>d. fetch = Some d \<longrightarrow> sound_data d"
  shows "snapshot fetch st \<noteq> None"
proof (cases fetch)
  case None
  then show ?thesis by (simp add: snapshot_def)
next
  case (Some data)
  show ?thesis
  proof (cases "unpack data")
    case (Inl e)
    with Some show ?thesis by (simp add: snapshot_def)
  next
    case (Inr hr)
    obtain head recs where hr: "hr = (head, recs)" by (cases hr)
    have "\<forall>r \<in> set recs. record_ok r" using assms Some Inr hr by (auto simp: sound_data_def)
    then obtain cp where "apply_all (hd_key head) (hd_typ head) recs newComposition = Some cp"
      using apply_all_ok by blast
    with Some Inr hr show ?thesis by (simp add: snapshot_def)
  qed
qed

lemma verify_returns:
  "\<forall>d. fetch = Some d \<longrightarrow> sound_data d \<Longrightarrow> verify_set fetch want st \<noteq> None"
  using snapshot_returns [of fetch st] by (simp add: verify_set_def)

lemma verify_ok: "verify_set fetch want st = Some (st', True) \<Longrightarrow> st' = st"
  by (auto simp: verify_set_def split: if_splits)

lemma applyPackage_returns:
  assumes h: "\<forall>d. fetch = Some d \<longrightarrow> sound_data d" and d: "sound_data data"
  shows "applyPackage fetch data want st \<noteq> None"
proof -
  have rets: "\<exists>y. snapshot fetch s = Some y" "\<exists>y. verify_set fetch w s = Some y" for s w
    using snapshot_returns [OF h] verify_returns [OF h] by auto
  show ?thesis
  proof (cases "unpack data")
    case (Inl e)
    then show ?thesis using rets by (simp add: applyPackage_def)
  next
    case (Inr hr)
    obtain head recs where hr: "hr = (head, recs)" by (cases hr)
    have "\<forall>r \<in> set recs. record_ok r" using d Inr hr by (auto simp: sound_data_def)
    then obtain cp where "apply_all (ls_key st) (hd_typ head) recs (ls_comp st) = Some cp"
      using apply_all_ok by blast
    then show ?thesis
      using Inr hr rets(1) [of st] rets(2) [of "hexOf (hd_hash head)" "st\<lparr>ls_comp := cp, ls_seq := hd_seq head\<rparr>"]
      by (cases "hd_typ head = ls_typ st") (auto simp: applyPackage_def)
  qed
qed

lemma applyPackage_seq:
  "applyPackage fetch data want st = Some (st', True) \<Longrightarrow> ls_seq st' = want"
  by (auto simp: applyPackage_def dest!: verify_ok split: sum.splits if_splits option.splits)

lemma apply_objects_returns:
  assumes h: "\<forall>d. fetch = Some d \<longrightarrow> sound_data d"
  shows "\<forall>d. Some d \<in> set obs \<longrightarrow> sound_data d \<Longrightarrow>
    \<exists>st' go_on. apply_objects fetch obs n st = Some (st', go_on) \<and>
      (go_on \<and> obs \<noteq> [] \<longrightarrow> ls_seq st' = n + of_nat (length obs) - 1)"
proof (induction obs arbitrary: n st)
  case Nil
  then show ?case by simp
next
  case (Cons ob obs)
  show ?case
  proof (cases ob)
    case None
    then show ?thesis using snapshot_returns [OF h, of st] by auto
  next
    case (Some data)
    obtain st1 ok where a: "applyPackage fetch data n st = Some (st1, ok)"
      using applyPackage_returns [OF h, of data n st] Cons.prems Some by auto
    show ?thesis
    proof (cases ok)
      case True
      with a have "ls_seq st1 = n" using applyPackage_seq by simp
      with a True Some Cons.IH [of "n + 1" st1] Cons.prems show ?thesis
        by (cases "obs = []") (auto simp: algebra_simps)
    next
      case False
      with a Some have "apply_objects fetch (ob # obs) n st = Some (st1, False)" by simp
      then show ?thesis by blast
    qed
  qed
qed


text \<open>The reads of \<open>catchUp\<close> stop when every read answers one object per key: each then moves the
  sequence number by as many packages as it asked for.\<close>

definition missing :: "w64 \<Rightarrow> live_set \<Rightarrow> nat" where
  "missing upto_seq st = (if upto_seq \<le> ls_seq st then 0 else unat (upto_seq - ls_seq st))"

lemma unat_bound: "unat (w :: w64) < 2 ^ 64"
  using unsigned_less [of w] by simp

lemma missing_step:
  assumes "ls_seq st < upto_seq" "n \<le> unat (upto_seq - ls_seq st)" "ls_seq st1 = ls_seq st + of_nat n"
  shows "missing upto_seq st1 + n = missing upto_seq st"
proof -
  have "n < 2 ^ 64" using assms(2) unat_bound [of "upto_seq - ls_seq st"] by simp
  then have n: "unat (of_nat n :: w64) = n" by (simp add: unsigned_of_nat take_bit_nat_eq_self)
  have le: "(of_nat n :: w64) \<le> upto_seq - ls_seq st" using assms(2) n by (simp add: word_le_nat_alt)
  have d: "upto_seq - ls_seq st1 = (upto_seq - ls_seq st) - of_nat n" using assms(3) by simp
  have u: "unat (upto_seq - ls_seq st1) + n = unat (upto_seq - ls_seq st)"
    unfolding d using unat_sub [OF le] n assms(2) by simp
  have "unat (upto_seq - ls_seq st) = unat upto_seq - unat (ls_seq st)"
    using assms(1) by (intro unat_sub) simp
  moreover have "unat (ls_seq st) < unat upto_seq" using assms(1) by (simp add: word_less_nat_alt)
  ultimately have "unat (ls_seq st) + n \<le> unat upto_seq" using assms(2) by simp
  moreover from this have "unat (ls_seq st1) = unat (ls_seq st) + n"
    using assms(3) n unat_bound [of upto_seq] by (simp add: unat_word_ariths)
  ultimately have "ls_seq st1 \<le> upto_seq" by (simp add: word_le_nat_alt)
  then have "upto_seq \<le> ls_seq st1 \<Longrightarrow> upto_seq = ls_seq st1" by simp
  with u assms(1) show ?thesis by (auto simp: missing_def)
qed

text \<open>One read of \<open>catchUp\<close>: it stops, or leaves fewer packages missing.\<close>

lemma catchUp_read:
  assumes h: "\<forall>d. fetch = Some d \<longrightarrow> sound_data d" and o: "\<forall>d. Some d \<in> set obs \<longrightarrow> sound_data d"
    and less: "ls_seq st < upto_seq" and n: "n = min (unat (upto_seq - ls_seq st)) packagesPerRead" "length obs = n"
  shows "\<exists>st1 go_on. apply_objects fetch obs (ls_seq st + 1) st = Some (st1, go_on) \<and>
    (go_on \<longrightarrow> missing upto_seq st1 + n = missing upto_seq st)"
proof -
  have "upto_seq - ls_seq st \<noteq> 0" using less by auto
  then have pos: "0 < n" by (simp add: n unat_gt_0)
  from apply_objects_returns [OF h o, of "ls_seq st + 1" st] obtain st1 go_on where
    a: "apply_objects fetch obs (ls_seq st + 1) st = Some (st1, go_on)" and
    s: "go_on \<and> obs \<noteq> [] \<Longrightarrow> ls_seq st1 = ls_seq st + 1 + of_nat (length obs) - 1" by blast
  have "missing upto_seq st1 + n = missing upto_seq st" if go_on
  proof -
    have "ls_seq st1 = ls_seq st + of_nat n" using s that n(2) pos by auto
    from missing_step [OF less _ this] show ?thesis by (simp add: n(1))
  qed
  with a show ?thesis by blast
qed

lemma catchUp_ends:
  assumes h: "\<forall>d. fetch = Some d \<longrightarrow> sound_data d"
    and p: "\<forall>get keys obs d. objects = Some get \<longrightarrow> get keys = Some obs \<longrightarrow> Some d \<in> set obs \<longrightarrow> sound_data d"
    and len: "\<forall>get keys obs. objects = Some get \<longrightarrow> get keys = Some obs \<longrightarrow> length obs = length keys"
  shows "missing upto_seq st \<le> packagesPerRead * fuel \<Longrightarrow>
    catchUp (Suc fuel) fetch objects upto_seq hash st \<noteq> None"
proof (induction fuel arbitrary: st)
  case 0
  have "upto_seq \<le> ls_seq st"
  proof (rule ccontr)
    assume "\<not> upto_seq \<le> ls_seq st"
    with 0 have "unat (upto_seq - ls_seq st) = 0" by (simp add: missing_def)
    then have "upto_seq = ls_seq st" by (simp add: unat_eq_zero)
    with \<open>\<not> upto_seq \<le> ls_seq st\<close> show False by simp
  qed
  then show ?case using verify_returns [OF h, of hash st] by (auto split: option.split)
next
  case (Suc fuel)
  show ?case
  proof (cases "objects = None \<or> ls_seq st \<ge> upto_seq")
    case True
    then show ?thesis using verify_returns [OF h, of hash st] by (auto split: option.split)
  next
    case False
    then obtain get where get: "objects = Some get" and less: "ls_seq st < upto_seq" by auto
    then have nle: "\<not> upto_seq \<le> ls_seq st" by simp
    define n where "n = min (unat (upto_seq - ls_seq st)) packagesPerRead"
    let ?keys = "map (\<lambda>i. diffKey (ls_name st) (ls_seq st + 1 + of_nat i)) [0..<n]"
    show ?thesis
    proof (cases "get ?keys")
      case None
      then show ?thesis by (simp only: catchUp.simps get option.case nle if_False Let_def n_def) simp
    next
      case (Some obs)
      have o: "\<forall>d. Some d \<in> set obs \<longrightarrow> sound_data d" using p get Some by blast
      have lo: "length obs = n" using len get Some by fastforce
      from catchUp_read [OF h o less n_def lo] obtain st1 go_on where
        a: "apply_objects fetch obs (ls_seq st + 1) st = Some (st1, go_on)"
        "go_on \<longrightarrow> missing upto_seq st1 + n = missing upto_seq st" by blast
      have unfolds: "catchUp (Suc (Suc fuel)) fetch objects upto_seq hash st =
          (if go_on then catchUp (Suc fuel) fetch objects upto_seq hash st1 else Some st1)"
        using Some a(1) unfolding n_def
        by (simp only: catchUp.simps(2) [of "Suc fuel"] get option.case nle if_False Let_def prod.case)
      have "missing upto_seq st = unat (upto_seq - ls_seq st)" using nle by (simp add: missing_def)
      then have "go_on \<longrightarrow> missing upto_seq st1 \<le> packagesPerRead * fuel" using Suc.prems a(2) by (auto simp: n_def)
      then show ?thesis using Suc.IH [of st1] unfolds by simp
    qed
  qed
qed


section \<open>The hash in messages\<close>

lemma byte_hex_digit: "0 \<le> a \<Longrightarrow> a < 16 \<Longrightarrow> byte_of (hex_digit a) = (if a < 10 then 48 + a else 87 + a)"
  by (simp add: hex_digit_def byte_of_def)

lemma hex_digit_inj:
  assumes "hex_digit a = hex_digit b" "0 \<le> a" "a < 16" "0 \<le> b" "b < 16"
  shows "a = b"
proof -
  have "byte_of (hex_digit a) = byte_of (hex_digit b)" using assms(1) by simp
  with byte_hex_digit [OF assms(2,3)] byte_hex_digit [OF assms(4,5)] assms(2-5) show ?thesis
    by (simp split: if_splits)
qed

lemma nibble_bound: "uint (take_bit 4 (w :: w64)) < 16"
  using take_bit_int_less_exp [of 4 "uint w"] by (simp only: unsigned_take_bit_eq) simp

lemma hexOf_inj: "hexOf v = hexOf w \<longleftrightarrow> v = w"
proof
  assume e: "hexOf v = hexOf w"
  have nib: "take_bit 4 (drop_bit (4 * k) v) = take_bit 4 (drop_bit (4 * k) w)" if "k < 16" for k
  proof -
    have "k \<in> set (rev [0..<16])" using that by simp
    with e have "hex_digit (uint (take_bit 4 (drop_bit (4 * k) v))) =
        hex_digit (uint (take_bit 4 (drop_bit (4 * k) w)))"
      by (auto simp: hexOf_def simp del: upt_rec_numeral)
    then have "uint (take_bit 4 (drop_bit (4 * k) v)) = uint (take_bit 4 (drop_bit (4 * k) w))"
      by (rule hex_digit_inj) (simp_all only: nibble_bound unsigned_greater_eq)
    then show ?thesis by (simp only: word_uint_eq_iff)
  qed
  show "v = w"
  proof (rule bit_word_eqI)
    fix n
    assume n: "n < LENGTH(64)"
    have "bit (take_bit 4 (drop_bit (4 * (n div 4)) v)) (n mod 4) =
        bit (take_bit 4 (drop_bit (4 * (n div 4)) w)) (n mod 4)"
      using nib [of "n div 4"] n by simp
    then show "bit v n = bit w n" by (simp add: bit_simps)
  qed
qed simp

section \<open>Properties\<close>

text \<open>A mirror of prefixes that has applied a list of records holds an address exactly when the
  records leave a living prefix the address lies in, whichever length finds it: the index of
  lengths, kept by counting, never hides a network, and the longest-first search never misses a
  shorter one whose longer neighbour has expired.\<close>

theorem contains_exact:
  assumes "apply_all key typeCIDR rs newComposition = Some c"
  shows "containsAddr c a now \<longleftrightarrow>
     (\<exists>p e. snd (content_all typeCIDR rs no_content) p = Some e \<and> list_alive e now \<and> covers p (unmap a))"
proof -
  have "map_of (co_nets c) = snd (content_all typeCIDR rs no_content)"
    using arg_cong [OF apply_all_content [OF assms], of snd] unfolding content_new by (simp add: content_of_def)
  then show ?thesis
    using containsAddr_iff [OF apply_all_inv [OF new_comp_inv assms], of a now] by simp
qed

abbreviation (input) net_record :: "int \<Rightarrow> int list \<Rightarrow> int \<Rightarrow> int \<Rightarrow> pack_record" where
  "net_record op bs bits exp \<equiv> \<lparr>pr_op = op, pr_prefix = Some (addr_from4 bs, bits), pr_value = [],
     pr_exp = exp, pr_reason = []\<rparr>"

definition sample_records :: "pack_record list" where
  "sample_records = [net_record 1 [10, 0, 0, 0] 8 0, net_record 1 [10, 1, 0, 0] 16 5,
     net_record 1 [192, 168, 0, 0] 16 0, net_record 2 [192, 168, 0, 0] 16 0]"

definition sample_comp :: composition where
  "sample_comp = the (apply_all ''0123456789abcdef'' 1 sample_records newComposition)"

lemma sample_applies: "apply_all ''0123456789abcdef'' 1 sample_records newComposition = Some sample_comp"
proof -
  have "\<forall>r \<in> set sample_records. record_ok r" by (simp add: sample_records_def record_ok_def)
  from apply_all_ok [OF this, of "''0123456789abcdef''" 1 newComposition]
  show ?thesis by (auto simp: sample_comp_def)
qed

theorem contains_exact_witness:
  "containsAddr sample_comp (addr_from4 [10, 1, 2, 3]) 9 \<longleftrightarrow>
     (\<exists>p e. snd (content_all 1 sample_records no_content) p = Some e \<and> list_alive e 9 \<and>
        covers p (unmap (addr_from4 [10, 1, 2, 3])))"
  by (rule contains_exact [OF sample_applies])

text \<open>C31: The hash of a mirror is a function of what the set holds: two histories of records that leave
  the same strings and the same prefixes leave the same hash, whatever their order, their repeats
  and their detours. (Expiries and reasons are not part of it: a change of an expiry alone is not
  noticed by the comparison of hashes.)\<close>

theorem same_content_same_hash:
  assumes "apply_all key ty rs newComposition = Some c" "apply_all key ty rs' newComposition = Some c'"
    and "dom (fst (content_all ty rs no_content)) = dom (fst (content_all ty rs' no_content))"
    and "dom (snd (content_all ty rs no_content)) = dom (snd (content_all ty rs' no_content))"
  shows "co_hash c = co_hash c'"
proof -
  have keys: "set (map fst (co_entries d)) = dom (fst (content_of d))"
    "set (map fst (co_nets d)) = dom (snd (content_of d))" for d
    by (simp_all add: content_of_def dom_map_of_conv_image_fst)
  have sets: "set (map fst (co_entries c)) = set (map fst (co_entries c'))"
    "set (map fst (co_nets c)) = set (map fst (co_nets c'))"
    using assms(3,4) apply_all_content [OF assms(1)] apply_all_content [OF assms(2)]
    unfolding keys by simp_all
  show ?thesis
    using apply_all_inv [OF new_comp_inv assms(1)] apply_all_inv [OF new_comp_inv assms(2)] sets
    by (simp add: comp_inv_def keys_inv_def xor_all_set [of "map fst (co_entries c)" "map fst (co_entries c')"]
        xor_all_set [of "map fst (co_nets c)" "map fst (co_nets c')"] del: set_map)
qed


text \<open>Two records the other way round, with a detour.\<close>

theorem same_content_same_hash_witness:
  "\<exists>c c'. apply_all ''0123456789abcdef'' 1 sample_records newComposition = Some c \<and>
     apply_all ''0123456789abcdef'' 1 [sample_records ! 1, sample_records ! 0] newComposition = Some c' \<and>
     co_hash c = co_hash c'"
proof -
  have "\<forall>r \<in> set [sample_records ! 1, sample_records ! 0]. record_ok r"
    by (simp add: sample_records_def record_ok_def)
  from apply_all_ok [OF this] obtain c' where
    c': "apply_all ''0123456789abcdef'' 1 [sample_records ! 1, sample_records ! 0] newComposition = Some c'"
    by blast
  have a: "fst (content_all 1 sample_records no_content) = Map.empty"
    "fst (content_all 1 [sample_records ! 1, sample_records ! 0] no_content) = Map.empty"
    by (simp_all add: sample_records_def content_apply_def)
  have b: "snd (content_all 1 sample_records no_content) =
      snd (content_all 1 [sample_records ! 1, sample_records ! 0] no_content)"
    by (simp add: sample_records_def content_apply_def fun_eq_iff addr_from4_def word_of_bytes_def)
  show ?thesis
    using same_content_same_hash [OF sample_applies c'] a b sample_applies c' by simp
qed

text \<open>What a mirror answers, at every moment of a set's life, while snapshots and packages come
  from an honest keeper: nothing before the first snapshot, and then exactly what the keeper's set
  held at the epoch and number the mirror has reached, an address being looked up in the networks
  and a value among the strings. Frames that arrive late, twice, out of order, of another epoch or
  with a gap never make it answer from a mixture.\<close>

theorem reachable_answers:
  assumes "live_reach K name st" "map_of sets name = Some st" "v \<noteq> []"
  shows "ContainsAddr sets now name (Some a) =
      (if ls_ready st
       then (\<exists>p e. snd (K (ls_epoch st) (ls_seq st)) p = Some e \<and> list_alive e now \<and> covers p (unmap a), True)
       else (False, False)) \<and>
    Lookup sets now name v =
      (if ls_ready st
       then (case fst (K (ls_epoch st) (ls_seq st)) v of
               None \<Rightarrow> None
             | Some re \<Rightarrow> if list_alive (cr_exp re) now then Some re else None, True)
       else (None, False))"
proof (cases "ls_ready st")
  case True
  have f: "comp_inv (ls_key st) (ls_comp st)" "content_of (ls_comp st) = K (ls_epoch st) (ls_seq st)"
    using live_follows [OF assms(1)] True by (simp_all add: follows_def)
  have "map_of (co_nets (ls_comp st)) = snd (K (ls_epoch st) (ls_seq st))"
    "map_of (co_entries (ls_comp st)) = fst (K (ls_epoch st) (ls_seq st))"
    by (simp_all add: content_of_def flip: f(2))
  then show ?thesis
    using True assms(2,3) containsAddr_iff [OF f(1)]
    by (auto simp: ContainsAddr_def Lookup_def split: option.split)
next
  case False
  with assms(2,3) show ?thesis by (simp add: ContainsAddr_def Lookup_def)
qed

text \<open>One prefix record, adding 10.0.0.0/8 for good, as epoch and number 0.\<close>

definition net_ten :: string where
  "net_ten = sample_object ([1, 4, 8, 10, 0, 0, 0] @ replicate 8 0)"

definition ten_history :: history where
  "ten_history = (\<lambda>e n. content_all 1 [net_record 1 [10, 0, 0, 0] 8 0] no_content)"

lemma net_ten_unpacks:
  "case unpack net_ten of
     Inr (head, recs) \<Rightarrow> hd_kind head = 1 \<and> hd_typ head = 1 \<and> recs = [net_record 1 [10, 0, 0, 0] 8 0]
   | _ \<Rightarrow> False"
  by code_simp

lemma net_ten_honest: "honest_snapshot ten_history net_ten"
  using net_ten_unpacks by (auto simp: honest_snapshot_def ten_history_def split: sum.splits prod.splits)

lemma ten_starts: "\<exists>st. snapshot (Some net_ten) (new_set ''set'' 0) = Some st \<and> ls_ready st"
proof -
  obtain head where u: "unpack net_ten = Inr (head, [net_record 1 [10, 0, 0, 0] 8 0])"
    and h: "hd_kind head = 1" "hd_typ head = 1"
    using net_ten_unpacks by (auto split: sum.splits prod.splits)
  obtain st where s: "snapshot (Some net_ten) (new_set ''set'' 0) = Some st"
    using snapshot_returns [of "Some net_ten" "new_set ''set'' 0"] u
    by (auto simp: sound_data_def record_ok_def)
  then have "ls_ready st"
    using u h by (auto simp: snapshot_def new_set_def split: option.splits)
  with s show ?thesis by blast
qed

lemma ten_step: "\<exists>st. live_reach ten_history ''set'' st \<and> ls_ready st"
  using ten_starts net_ten_honest live_reach.start [OF live_reach.ensure, of "Some net_ten" ten_history "''set''" 0] by auto

theorem reachable_answers_witness:
  "\<exists>st. live_reach ten_history ''set'' st \<and> ls_ready st \<and>
     Lookup [(''set'', st)] 0 ''set'' ''x'' = (None, True)"
proof -
  obtain st where st: "live_reach ten_history ''set'' st" "ls_ready st" using ten_step by blast
  have "Lookup [(''set'', st)] 0 ''set'' ''x'' = (None, True)"
    using reachable_answers [OF st(1), of "[(''set'', st)]" "''x''" 0 "A4 0"] st(2)
    by (simp add: ten_history_def content_apply_def)
  with st show ?thesis by blast
qed

text \<open>C32: Catching up ends. With objects whose prefixes have a length and reads that answer one object
  per key, the loop returns after at most one read per 256 missing packages and one more look,
  whatever the objects hold.\<close>

theorem catchUp_returns:
  assumes "\<forall>d. fetch = Some d \<longrightarrow> sound_data d"
    and "\<forall>get keys obs d. objects = Some get \<longrightarrow> get keys = Some obs \<longrightarrow> Some d \<in> set obs \<longrightarrow> sound_data d"
    and "\<forall>get keys obs. objects = Some get \<longrightarrow> get keys = Some obs \<longrightarrow> length obs = length keys"
  shows "catchUp (Suc ((missing upto_seq st + 255) div packagesPerRead)) fetch objects upto_seq hash st \<noteq> None"
proof -
  have "missing upto_seq st \<le> packagesPerRead * ((missing upto_seq st + 255) div packagesPerRead)"
    using mult_div_mod_eq [of packagesPerRead "missing upto_seq st + 255"]
      mod_less_divisor [of packagesPerRead "missing upto_seq st + 255"] by linarith
  then show ?thesis by (rule catchUp_ends [OF assms])
qed

theorem catchUp_returns_witness:
  "catchUp (Suc ((missing 5 (new_set ''set'' 0) + 255) div packagesPerRead)) (Some net_ten)
     (Some (\<lambda>keys. Some (map (\<lambda>_. Some net_ten) keys))) 5 [] (new_set ''set'' 0) \<noteq> None"
proof -
  obtain head where "unpack net_ten = Inr (head, [net_record 1 [10, 0, 0, 0] 8 0])"
    using net_ten_unpacks by (auto split: sum.splits prod.splits)
  then have "sound_data net_ten" by (simp add: sound_data_def record_ok_def)
  note sound = this
  let ?get = "\<lambda>keys :: string list. Some (map (\<lambda>_. Some net_ten) keys)"
  show ?thesis
  proof (rule catchUp_returns)
    show "\<forall>d. Some net_ten = Some d \<longrightarrow> sound_data d" using sound by simp
    show "\<forall>get keys obs d. Some ?get = Some get \<longrightarrow> get keys = Some obs \<longrightarrow> Some d \<in> set obs \<longrightarrow> sound_data d"
      using sound by (clarsimp simp del: set_map) (simp add: image_iff)
    show "\<forall>get keys obs. Some ?get = Some get \<longrightarrow> get keys = Some obs \<longrightarrow> length obs = length keys"
      by clarsimp
  qed
qed

text \<open>An object can stop the program: a snapshot whose record announces more bits than its family
  has unpacks to a prefix of length -1, and applying it indexes the array of lengths with that: the
  operation panics, in a goroutine nothing recovers.\<close>

theorem wide_record_panics:
  "snapshot (Some wide_prefix) (new_set name now) = None"
proof -
  obtain head recs where u0: "unpack wide_prefix = Inr (head, recs)"
    using wide_unpacks by (cases "unpack wide_prefix") auto
  then obtain r where "recs = [r]"
    using wide_unpacks by (cases recs; cases "tl recs") auto
  with u0 wide_unpacks have u: "unpack wide_prefix = Inr (head, [r])"
    and r: "hd_typ head = typeCIDR" "pr_op r = recAdd" "map_option snd (pr_prefix r) = Some (- 1)"
    by auto
  have k: "hd_kind head = kindSnapshot"
  proof -
    have "case unpack wide_prefix of Inr (head, _) \<Rightarrow> hd_kind head = 1 | _ \<Rightarrow> False" by code_simp
    with u show ?thesis by simp
  qed
  obtain p where p: "pr_prefix r = Some p" "snd p < 0" using r(3) by auto
  have "comp_apply (hd_key head) (hd_typ head) r newComposition = None"
    using r p by (simp add: comp_apply_def newComposition_def Let_def)
  then show ?thesis using u k by (simp add: snapshot_def new_set_def)
qed

text \<open>A package that is taken leaves the mirror with the keeper's hash: when \<open>applyPackage\<close> goes on,
  the hash of the composition is the one the package's header carries, as a number and not only as
  the text the comparison uses.\<close>

theorem accepted_hash:
  assumes "applyPackage fetch data want st = Some (st', True)"
  shows "\<exists>head recs. unpack data = Inr (head, recs) \<and> hd_kind head = kindPackage \<and>
     hd_epoch head = ls_epoch st \<and> hd_seq head = want \<and> ls_seq st' = want \<and>
     co_hash (ls_comp st') = hd_hash head \<and>
     content_of (ls_comp st') = content_all (ls_typ st) recs (content_of (ls_comp st))"
proof -
  have nonempty: "hexOf w \<noteq> []" for w by (simp add: hexOf_def)
  from assms obtain head recs cp where
    u: "unpack data = Inr (head, recs)" "hd_kind head = kindPackage" "hd_epoch head = ls_epoch st"
      "hd_seq head = want" "hd_typ head = ls_typ st"
    and cp: "apply_all (ls_key st) (hd_typ head) recs (ls_comp st) = Some cp"
    and v: "verify_set fetch (hexOf (hd_hash head)) (st\<lparr>ls_comp := cp, ls_seq := want\<rparr>) = Some (st', True)"
    by (auto simp: applyPackage_def split: sum.splits if_splits option.splits)
  from v nonempty have "st' = st\<lparr>ls_comp := cp, ls_seq := want\<rparr> \<and> hexOf (co_hash cp) = hexOf (hd_hash head)"
    by (auto simp: verify_set_def split: if_splits)
  then show ?thesis using u apply_all_content [OF cp] by (simp add: hexOf_inj)
qed

text \<open>An empty package of number 1, its hash that of an empty set.\<close>

definition empty_package :: string where
  "empty_package = ''WAFS'' @ map char_of ([1, 2, 1, 0] @ replicate 8 0 @ [1 :: int] @ replicate 31 0 @ replicate 4 0)"

theorem accepted_hash_witness:
  "\<exists>st'. applyPackage None empty_package 1 ((new_set ''set'' 0)\<lparr>ls_typ := 1, ls_ready := True\<rparr>) = Some (st', True) \<and>
     ls_seq st' = 1 \<and> co_hash (ls_comp st') = 0"
proof -
  let ?st = "(new_set ''set'' 0)\<lparr>ls_typ := 1, ls_ready := True\<rparr>"
  have "case unpack empty_package of
      Inr (head, recs) \<Rightarrow> hd_kind head = 2 \<and> hd_typ head = 1 \<and> hd_seq head = 1 \<and> hd_epoch head = 0 \<and>
        hd_hash head = 0 \<and> recs = []
    | _ \<Rightarrow> False"
    by code_simp
  then obtain head where u: "unpack empty_package = Inr (head, [])" "hd_kind head = 2" "hd_typ head = 1"
    "hd_seq head = 1" "hd_epoch head = 0" "hd_hash head = 0"
    by (auto split: sum.splits prod.splits)
  then have "applyPackage None empty_package 1 ?st = Some (?st\<lparr>ls_seq := 1\<rparr>, True)"
    by (simp add: applyPackage_def verify_set_def new_set_def newComposition_def)
  from this accepted_hash [OF this] u show ?thesis by auto
qed

end
