(* ===== verification/Roster.thy ===== *)
theory Roster
  imports Go_Float Netip
begin

text \<open>
  Package \<open>internal/roster\<close>: revoked identities, burned nonces, failure counters, locks and small
  values, in the memory of the process (\<open>Memory\<close>) or in Redis (\<open>Redis\<close>).

  Every operation of \<open>Memory\<close> runs under one mutex and reads the clock once: it is a function of the
  time, the arguments and the state. An operation of \<open>Redis\<close> is a list of commands and what is made
  of the replies; the server itself is the parameter \<open>exec\<close>, which runs a list of commands on its own
  state and answers each, or fails as a whole.
\<close>

section \<open>Memory\<close>

text \<open>The zero \<open>time.Time\<close> of a fresh counter is \<^const>\<open>None\<close>.\<close>

record fail_counter =
  ct_n :: int
  ct_until :: "go_time option"

record mem_entry =
  me_value :: string
  me_until :: go_time

record memory =
  m_revoked :: "(string, go_time) gomap"
  m_burned :: "(string, go_time) gomap"
  m_fails :: "(string, fail_counter) gomap"
  m_locks :: "(string, go_time) gomap"
  m_values :: "(string, mem_entry) gomap"

definition NewMemory :: memory where
  "NewMemory = \<lparr>m_revoked = [], m_burned = [], m_fails = [], m_locks = [], m_values = []\<rparr>"

definition Revoked :: "go_time \<Rightarrow> string \<Rightarrow> memory \<Rightarrow> bool" where
  "Revoked now sid m =
     (case map_of (m_revoked m) sid of None \<Rightarrow> False | Some till \<Rightarrow> now < till)"

definition Refresh :: "go_time \<Rightarrow> memory \<Rightarrow> nat \<times> memory" where
  "Refresh now m =
     (let m = m\<lparr>m_revoked := filter (\<lambda>(_, till). \<not> now > till) (m_revoked m),
                m_burned := filter (\<lambda>(_, till). \<not> now > till) (m_burned m),
                m_values := filter (\<lambda>(_, e). \<not> now > me_until e) (m_values m)\<rparr>
      in (length (m_revoked m), m))"

definition Revoke :: "string \<Rightarrow> go_time \<Rightarrow> memory \<Rightarrow> memory" where
  "Revoke sid till m = m\<lparr>m_revoked := AList.update sid till (m_revoked m)\<rparr>"

definition Burn :: "go_time \<Rightarrow> string \<Rightarrow> string \<Rightarrow> duration \<Rightarrow> memory \<Rightarrow> bool \<times> memory" where
  "Burn now kind rid ttl m =
     (let key = kind @ '':'' @ rid
      in if (case map_of (m_burned m) key of None \<Rightarrow> False | Some till \<Rightarrow> now < till) then (False, m)
         else (True, m\<lparr>m_burned := AList.update key (now + ttl) (m_burned m)\<rparr>))"

definition Fail :: "go_time \<Rightarrow> string \<Rightarrow> duration \<Rightarrow> memory \<Rightarrow> int \<times> memory" where
  "Fail now scope window m =
     (let c = map_get (m_fails m) scope \<lparr>ct_n = 0, ct_until = None\<rparr>;
          c = (case ct_until c of
                 None \<Rightarrow> \<lparr>ct_n = 0, ct_until = None\<rparr>
               | Some till \<Rightarrow> if now > till then \<lparr>ct_n = 0, ct_until = None\<rparr> else c);
          c = \<lparr>ct_n = i64 (ct_n c + 1), ct_until = Some (now + window)\<rparr>
      in (ct_n c, m\<lparr>m_fails := AList.update scope c (m_fails m)\<rparr>))"

definition Clear :: "string \<Rightarrow> memory \<Rightarrow> memory" where
  "Clear scope m = m\<lparr>m_fails := AList.delete scope (m_fails m),
     m_locks := AList.delete scope (m_locks m)\<rparr>"

definition Lock :: "go_time \<Rightarrow> string \<Rightarrow> duration \<Rightarrow> memory \<Rightarrow> memory" where
  "Lock now scope d m = m\<lparr>m_locks := AList.update scope (now + d) (m_locks m),
     m_fails := AList.delete scope (m_fails m)\<rparr>"

definition LockedFor :: "go_time \<Rightarrow> string \<Rightarrow> memory \<Rightarrow> duration \<times> memory" where
  "LockedFor now scope m =
     (case map_of (m_locks m) scope of
        None \<Rightarrow> (0, m)
      | Some till \<Rightarrow>
          let left = till - now
          in if left \<le> 0 then (0, m\<lparr>m_locks := AList.delete scope (m_locks m)\<rparr>) else (left, m))"

definition Put :: "go_time \<Rightarrow> string \<Rightarrow> string \<Rightarrow> string \<Rightarrow> duration \<Rightarrow> memory \<Rightarrow> memory" where
  "Put now kind rid v ttl m =
     m\<lparr>m_values := AList.update (kind @ '':'' @ rid) \<lparr>me_value = v, me_until = now + ttl\<rparr> (m_values m)\<rparr>"

definition Get :: "go_time \<Rightarrow> string \<Rightarrow> string \<Rightarrow> memory \<Rightarrow> string option \<times> memory" where
  "Get now kind rid m =
     (let key = kind @ '':'' @ rid
      in case map_of (m_values m) key of
           None \<Rightarrow> (None, m\<lparr>m_values := AList.delete key (m_values m)\<rparr>)
         | Some e \<Rightarrow>
             if now > me_until e then (None, m\<lparr>m_values := AList.delete key (m_values m)\<rparr>)
             else (Some (me_value e), m))"

definition Del :: "string \<Rightarrow> string \<Rightarrow> memory \<Rightarrow> memory" where
  "Del kind rid m = m\<lparr>m_values := AList.delete (kind @ '':'' @ rid) (m_values m)\<rparr>"

section \<open>Redis\<close>

text \<open>\<open>strconv\<close> is not used: \<open>itoa\<close> writes the number itself. \<open>-v\<close> of the least \<open>int64\<close> is itself.\<close>

function itoa_digits :: "int \<Rightarrow> string \<Rightarrow> string" where
  "itoa_digits v buf =
     (if v > 0 then itoa_digits (v div 10) (char_of (48 + v mod 10) # buf) else buf)"
  by pat_completeness auto
termination
  by (relation "measure (\<lambda>(v, buf). nat v)") auto

declare itoa_digits.simps [simp del]

definition itoa :: "int \<Rightarrow> string" where
  "itoa v =
     (if v = 0 then ''0''
      else if v < 0 then CHR ''-'' # itoa_digits (i64 (- v)) [] else itoa_digits v [])"

datatype roster_cmd =
    CZRemRangeByScore string string string
  | CZRange string int int
  | CZAdd string float64 string
  | CSetNX string duration
  | CIncr string
  | CExpire string duration
  | CDel "string list"
  | CSet string string duration
  | CTTL string
  | CGet string

datatype roster_reply = RpInt int | RpBool bool | RpStr string | RpNil | RpList "string list" | RpOK

type_synonym 's redis_exec = "roster_cmd list \<Rightarrow> 's \<Rightarrow> roster_reply list option \<times> 's"

record redis_roster =
  rr_prefix :: string
  rr_revoked :: "string list option"

definition roster_key :: "string \<Rightarrow> string list \<Rightarrow> string" where
  "roster_key prefix parts = prefix @ join_with '':'' parts"

definition NewRedis :: "string \<Rightarrow> redis_roster" where
  "NewRedis prefix = \<lparr>rr_prefix = prefix, rr_revoked = Some []\<rparr>"

definition redis_revoked :: "string \<Rightarrow> redis_roster \<Rightarrow> bool" where
  "redis_revoked sid r = (case rr_revoked r of None \<Rightarrow> False | Some ids \<Rightarrow> sid \<in> set ids)"

text \<open>Two round trips; an error of either leaves the snapshot as it was.\<close>

definition redis_refresh ::
    "'s redis_exec \<Rightarrow> go_time \<Rightarrow> redis_roster \<Rightarrow> 's \<Rightarrow> nat option \<times> redis_roster \<times> 's" where
  "redis_refresh exec now r s =
     (case exec [CZRemRangeByScore (roster_key (rr_prefix r) [''rev'']) ''-inf'' (itoa (unix now))] s of
        (None, s) \<Rightarrow> (None, r, s)
      | (Some _, s) \<Rightarrow>
          (case exec [CZRange (roster_key (rr_prefix r) [''rev'']) 0 (- 1)] s of
             (Some [RpList ids], s) \<Rightarrow>
               (Some (length (remdups ids)), r\<lparr>rr_revoked := Some (remdups ids)\<rparr>, s)
           | (_, s) \<Rightarrow> (None, r, s)))"

definition redis_revoke ::
    "'s redis_exec \<Rightarrow> string \<Rightarrow> go_time \<Rightarrow> redis_roster \<Rightarrow> 's \<Rightarrow> bool \<times> 's" where
  "redis_revoke exec sid till r s =
     (case exec [CZAdd (roster_key (rr_prefix r) [''rev'']) (f64 (of_int (unix till))) sid] s of
        (reply, s) \<Rightarrow> (reply \<noteq> None, s))"

definition redis_burn ::
    "'s redis_exec \<Rightarrow> string \<Rightarrow> string \<Rightarrow> duration \<Rightarrow> redis_roster \<Rightarrow> 's \<Rightarrow> bool option \<times> 's" where
  "redis_burn exec kind rid ttl r s =
     (case exec [CSetNX (roster_key (rr_prefix r) [kind, rid]) ttl] s of
        (Some [RpBool b], s) \<Rightarrow> (Some b, s)
      | (_, s) \<Rightarrow> (None, s))"

definition redis_fail ::
    "'s redis_exec \<Rightarrow> string \<Rightarrow> duration \<Rightarrow> redis_roster \<Rightarrow> 's \<Rightarrow> int option \<times> 's" where
  "redis_fail exec scope window r s =
     (let key = roster_key (rr_prefix r) [''fail'', scope]
      in case exec [CIncr key, CExpire key window] s of
           (Some (RpInt n # _), s) \<Rightarrow> (Some n, s)
         | (_, s) \<Rightarrow> (None, s))"

definition redis_clear :: "'s redis_exec \<Rightarrow> string \<Rightarrow> redis_roster \<Rightarrow> 's \<Rightarrow> bool \<times> 's" where
  "redis_clear exec scope r s =
     (case exec [CDel [roster_key (rr_prefix r) [''fail'', scope], roster_key (rr_prefix r) [''lock'', scope]]] s of
        (reply, s) \<Rightarrow> (reply \<noteq> None, s))"

definition redis_lock ::
    "'s redis_exec \<Rightarrow> string \<Rightarrow> duration \<Rightarrow> redis_roster \<Rightarrow> 's \<Rightarrow> bool \<times> 's" where
  "redis_lock exec scope d r s =
     (case exec [CSet (roster_key (rr_prefix r) [''lock'', scope]) ''1'' d,
                 CDel [roster_key (rr_prefix r) [''fail'', scope]]] s of
        (reply, s) \<Rightarrow> (reply \<noteq> None, s))"

text \<open>A \<open>TTL\<close> reply is a duration: -1 and -2 nanoseconds stand for no expiry and no key.\<close>

definition redis_locked_for ::
    "'s redis_exec \<Rightarrow> string \<Rightarrow> redis_roster \<Rightarrow> 's \<Rightarrow> duration option \<times> 's" where
  "redis_locked_for exec scope r s =
     (case exec [CTTL (roster_key (rr_prefix r) [''lock'', scope])] s of
        (Some [RpInt ttl], s) \<Rightarrow> (Some (if ttl \<le> 0 then 0 else ttl), s)
      | (_, s) \<Rightarrow> (None, s))"

definition redis_put ::
    "'s redis_exec \<Rightarrow> string \<Rightarrow> string \<Rightarrow> string \<Rightarrow> duration \<Rightarrow> redis_roster \<Rightarrow> 's \<Rightarrow> bool \<times> 's" where
  "redis_put exec kind rid v ttl r s =
     (case exec [CSet (roster_key (rr_prefix r) [kind, rid]) v ttl] s of
        (reply, s) \<Rightarrow> (reply \<noteq> None, s))"

datatype get_error = NotFound | GetFailed

definition redis_get ::
    "'s redis_exec \<Rightarrow> string \<Rightarrow> string \<Rightarrow> redis_roster \<Rightarrow> 's \<Rightarrow> (get_error + string) \<times> 's" where
  "redis_get exec kind rid r s =
     (case exec [CGet (roster_key (rr_prefix r) [kind, rid])] s of
        (Some [RpStr v], s) \<Rightarrow> (Inr v, s)
      | (Some [RpNil], s) \<Rightarrow> (Inl NotFound, s)
      | (_, s) \<Rightarrow> (Inl GetFailed, s))"

definition redis_del :: "'s redis_exec \<Rightarrow> string \<Rightarrow> string \<Rightarrow> redis_roster \<Rightarrow> 's \<Rightarrow> bool \<times> 's" where
  "redis_del exec kind rid r s =
     (case exec [CDel [roster_key (rr_prefix r) [kind, rid]]] s of (reply, s) \<Rightarrow> (reply \<noteq> None, s))"

section \<open>Watching\<close>

text \<open>\<open>Watch\<close> over the ticks that come before the context is done: the state after them and the errors
  reported. \<open>refresh\<close> is the roster's operation, \<^const>\<open>None\<close> no roster.\<close>

definition Watch ::
    "(go_time \<Rightarrow> 's \<Rightarrow> bool \<times> 's) option \<Rightarrow> duration \<Rightarrow> go_time list \<Rightarrow> 's \<Rightarrow> go_time list \<times> 's" where
  "Watch refresh every ticks s =
     (case refresh of
        None \<Rightarrow> ([], s)
      | Some f \<Rightarrow>
          if every \<le> 0 then ([], s)
          else fold (\<lambda>t (errs, s). case f t s of (ok, s) \<Rightarrow> (if ok then errs else errs @ [t], s)) ticks ([], s))"

section \<open>Traces of Memory\<close>

datatype mem_op =
    OpRevoked string | OpRefresh | OpRevoke string go_time | OpBurn string string duration
  | OpFail string duration | OpClear string | OpLock string duration | OpLockedFor string
  | OpPut string string string duration | OpGet string string | OpDel string string

datatype mem_out = OBool bool | OCount int | ODur duration | OVal "string option" | ODone

fun mem_step :: "go_time \<Rightarrow> mem_op \<Rightarrow> memory \<Rightarrow> mem_out \<times> memory" where
  "mem_step now (OpRevoked sid) m = (OBool (Revoked now sid m), m)"
| "mem_step now OpRefresh m = (case Refresh now m of (n, m) \<Rightarrow> (OCount (int n), m))"
| "mem_step now (OpRevoke sid till) m = (ODone, Revoke sid till m)"
| "mem_step now (OpBurn kind rid ttl) m = (case Burn now kind rid ttl m of (b, m) \<Rightarrow> (OBool b, m))"
| "mem_step now (OpFail scope window) m = (case Fail now scope window m of (n, m) \<Rightarrow> (OCount n, m))"
| "mem_step now (OpClear scope) m = (ODone, Clear scope m)"
| "mem_step now (OpLock scope d) m = (ODone, Lock now scope d m)"
| "mem_step now (OpLockedFor scope) m = (case LockedFor now scope m of (d, m) \<Rightarrow> (ODur d, m))"
| "mem_step now (OpPut kind rid v ttl) m = (ODone, Put now kind rid v ttl m)"
| "mem_step now (OpGet kind rid) m = (case Get now kind rid m of (v, m) \<Rightarrow> (OVal v, m))"
| "mem_step now (OpDel kind rid) m = (ODone, Del kind rid m)"

fun mem_run :: "(go_time \<times> mem_op) list \<Rightarrow> memory \<Rightarrow> mem_out list \<times> memory" where
  "mem_run [] m = ([], m)"
| "mem_run ((now, op) # ops) m =
     (case mem_step now op m of (out, m) \<Rightarrow> (case mem_run ops m of (outs, m) \<Rightarrow> (out # outs, m)))"

section \<open>Keys stay distinct\<close>

definition mem_wf :: "memory \<Rightarrow> bool" where
  "mem_wf m \<longleftrightarrow> distinct (map fst (m_revoked m)) \<and> distinct (map fst (m_burned m)) \<and>
     distinct (map fst (m_values m))"

lemma distinct_filter_fst: "distinct (map fst al) \<Longrightarrow> distinct (map fst (filter P al))"
  by (induction al) auto

lemma distinct_delete_fst: "distinct (map fst al) \<Longrightarrow> distinct (map fst (AList.delete k al))"
  by (simp add: delete_keys distinct_removeAll)

lemma map_of_filter:
  "distinct (map fst al) \<Longrightarrow>
     map_of (filter P al) k = (case map_of al k of None \<Rightarrow> None | Some v \<Rightarrow> if P (k, v) then Some v else None)"
proof (induction al)
  case Nil
  then show ?case by simp
next
  case (Cons kv al)
  obtain k' v where kv: "kv = (k', v)" by (cases kv)
  show ?case
  proof (cases "k = k'")
    case True
    with Cons kv have "map_of al k = None" by (simp add: map_of_eq_None_iff)
    with Cons kv True show ?thesis by simp
  next
    case False
    with Cons kv show ?thesis by simp
  qed
qed

lemma new_mem_wf [simp]: "mem_wf NewMemory"
  by (simp add: mem_wf_def NewMemory_def)

lemma mem_step_wf: "mem_wf m \<Longrightarrow> mem_wf (snd (mem_step now op m))"
  by (cases op)
    (auto simp: mem_wf_def Refresh_def Revoke_def Burn_def Fail_def Clear_def Lock_def LockedFor_def
      Put_def Get_def Del_def Let_def distinct_update distinct_filter_fst distinct_delete_fst
      split: option.split)

section \<open>A nonce burns once\<close>

text \<open>What the check of an answer relies on: \<open>burn\<close> says yes only when the mark is not live, leaves a live
  mark until the end it names, and no other operation touches a mark that is still live.\<close>

locale burn_store =
  fixes burn :: "go_time \<Rightarrow> string \<Rightarrow> string \<Rightarrow> duration \<Rightarrow> 's \<Rightarrow> bool \<times> 's"
    and other :: "go_time \<Rightarrow> 'op \<Rightarrow> 's \<Rightarrow> 's"
    and spent :: "'s \<Rightarrow> string \<Rightarrow> string \<Rightarrow> go_time option"
    and inv :: "'s \<Rightarrow> bool"
  assumes burn_fresh: "inv s \<Longrightarrow> fst (burn now kind rid ttl s) \<longleftrightarrow>
      \<not> (\<exists>u. spent s kind rid = Some u \<and> now < u)"
    and burn_marks: "inv s \<Longrightarrow> fst (burn now kind rid ttl s) \<Longrightarrow>
      spent (snd (burn now kind rid ttl s)) kind rid = Some (now + ttl)"
    and burn_inv: "inv s \<Longrightarrow> inv (snd (burn now kind rid ttl s))"
    and other_keeps: "inv s \<Longrightarrow> spent s kind rid = Some u \<Longrightarrow> now < u \<Longrightarrow>
      spent (other now op s) kind rid = Some u"
    and other_inv: "inv s \<Longrightarrow> inv (other now op s)"
begin

definition steps :: "(go_time \<times> 'op) list \<Rightarrow> 's \<Rightarrow> 's" where
  "steps ops s = fold (\<lambda>(t, op) s. other t op s) ops s"

lemma steps_inv: "inv s \<Longrightarrow> inv (steps ops s)"
  by (induction ops arbitrary: s) (auto simp: steps_def other_inv)

lemma steps_keep:
  "inv s \<Longrightarrow> spent s kind rid = Some u \<Longrightarrow> \<forall>(t, op) \<in> set ops. t < u \<Longrightarrow>
     spent (steps ops s) kind rid = Some u"
  by (induction ops arbitrary: s) (auto simp: steps_def other_keeps other_inv)

lemma burnt_once:
  assumes "inv s" "fst (burn t0 kind rid ttl s)" "\<forall>(t, op) \<in> set ops. t < t0 + ttl" "t1 < t0 + ttl"
  shows "\<not> fst (burn t1 kind rid ttl' (steps ops (snd (burn t0 kind rid ttl s))))"
proof -
  have i: "inv (snd (burn t0 kind rid ttl s))" using assms(1) by (rule burn_inv)
  have "spent (steps ops (snd (burn t0 kind rid ttl s))) kind rid = Some (t0 + ttl)"
    using steps_keep [OF i burn_marks [OF assms(1,2)] assms(3)] .
  with assms(4) steps_inv [OF i] show ?thesis by (simp add: burn_fresh)
qed

end

definition mem_other :: "go_time \<Rightarrow> mem_op \<Rightarrow> memory \<Rightarrow> memory" where
  "mem_other now op m = snd (mem_step now op m)"

definition mem_spent :: "memory \<Rightarrow> string \<Rightarrow> string \<Rightarrow> go_time option" where
  "mem_spent m kind rid = map_of (m_burned m) (kind @ '':'' @ rid)"

lemma burn_burned: "fst (Burn now kind rid ttl m) \<longleftrightarrow> \<not> (\<exists>u. mem_spent m kind rid = Some u \<and> now < u)"
  by (auto simp: Burn_def mem_spent_def Let_def split: option.splits)

lemma burn_sets: "fst (Burn now kind rid ttl m) \<Longrightarrow>
    mem_spent (snd (Burn now kind rid ttl m)) kind rid = Some (now + ttl)"
  by (simp add: Burn_def mem_spent_def Let_def update_conv' split: if_splits)

lemma other_burn_keeps:
  assumes "mem_spent m kind rid = Some u" "now < u"
  shows "mem_spent (snd (Burn now kind' rid' ttl m)) kind rid = Some u"
  using assms by (auto simp: Burn_def mem_spent_def Let_def update_conv' split: option.splits)

lemma mem_step_keeps:
  assumes "mem_wf m" "mem_spent m kind rid = Some u" "now < u"
  shows "mem_spent (snd (mem_step now op m)) kind rid = Some u"
proof (cases op)
  case OpRefresh
  with assms show ?thesis
    by (simp add: Refresh_def mem_spent_def mem_wf_def Let_def map_of_filter)
next
  case (OpBurn kind' rid' ttl)
  with other_burn_keeps [OF assms(2,3), of kind' rid' ttl] show ?thesis by (simp add: case_prod_beta)
qed (use assms in \<open>auto simp: mem_spent_def Revoke_def Fail_def Clear_def Lock_def LockedFor_def Put_def
    Get_def Del_def Let_def split: option.split\<close>)

interpretation memory_burns: burn_store Burn mem_other mem_spent mem_wf
proof unfold_locales
  fix m now kind rid ttl op
  assume wf: "mem_wf m"
  show "fst (Burn now kind rid ttl m) \<longleftrightarrow> \<not> (\<exists>u. mem_spent m kind rid = Some u \<and> now < u)"
    by (rule burn_burned)
  show "fst (Burn now kind rid ttl m) \<Longrightarrow>
      mem_spent (snd (Burn now kind rid ttl m)) kind rid = Some (now + ttl)"
    by (rule burn_sets)
  show "mem_wf (snd (Burn now kind rid ttl m))"
    using mem_step_wf [OF wf, of now "OpBurn kind rid ttl"] by (simp add: case_prod_beta)
  show "mem_wf (mem_other now op m)"
    using mem_step_wf [OF wf] by (simp add: mem_other_def)
  show "mem_spent m kind rid = Some u \<Longrightarrow> now < u \<Longrightarrow> mem_spent (mem_other now op m) kind rid = Some u" for u
    using mem_step_keeps [OF wf] by (simp add: mem_other_def)
qed

lemma mem_run_snd: "snd (mem_run ops m) = fold (\<lambda>(t, op) m. mem_other t op m) ops m"
  by (induction ops arbitrary: m) (auto simp: mem_other_def case_prod_beta)

lemma mem_run_wf: "mem_wf m \<Longrightarrow> mem_wf (snd (mem_run ops m))"
  using memory_burns.steps_inv [of m ops] by (simp add: mem_run_snd memory_burns.steps_def)

section \<open>Forgetting what has ended changes nothing\<close>

text \<open>Two memories are alike from a time on when they hold the same live entries from then on.\<close>

definition live_in :: "('v \<Rightarrow> go_time) \<Rightarrow> go_time \<Rightarrow> (string, 'v) gomap \<Rightarrow> string \<Rightarrow> 'v option" where
  "live_in till now al k = (case map_of al k of None \<Rightarrow> None | Some v \<Rightarrow> if now > till v then None else Some v)"

definition alike :: "go_time \<Rightarrow> memory \<Rightarrow> memory \<Rightarrow> bool" where
  "alike now m m' \<longleftrightarrow>
     live_in id now (m_revoked m) = live_in id now (m_revoked m') \<and>
     live_in id now (m_burned m) = live_in id now (m_burned m') \<and>
     live_in me_until now (m_values m) = live_in me_until now (m_values m') \<and>
     m_fails m = m_fails m' \<and> m_locks m = m_locks m'"

lemma live_later: "live_in till t al = live_in till t al' \<Longrightarrow> t \<le> t' \<Longrightarrow> live_in till t' al = live_in till t' al'"
proof
  fix k
  assume e: "live_in till t al = live_in till t al'" and t: "t \<le> t'"
  have "live_in till t' l k = (case live_in till t l k of None \<Rightarrow> None
      | Some v \<Rightarrow> if t' > till v then None else Some v)" for l
    using t by (auto simp: live_in_def split: option.split)
  then show "live_in till t' al k = live_in till t' al' k" by (simp add: e)
qed

lemma alike_later:
  assumes "alike t m m'" "t \<le> t'"
  shows "alike t' m m'"
  using assms(1) live_later [OF _ assms(2), of id "m_revoked m" "m_revoked m'"]
    live_later [OF _ assms(2), of id "m_burned m" "m_burned m'"]
    live_later [OF _ assms(2), of me_until "m_values m" "m_values m'"]
  unfolding alike_def by blast

lemma live_update: "live_in till t al = live_in till t al' \<Longrightarrow>
    live_in till t (AList.update k v al) = live_in till t (AList.update k v al')"
  by (auto simp: fun_eq_iff live_in_def update_conv')

lemma live_delete: "live_in till t al = live_in till t al' \<Longrightarrow>
    live_in till t (AList.delete k al) = live_in till t (AList.delete k al')"
  by (auto simp: fun_eq_iff live_in_def delete_conv')

lemma live_drop:
  "distinct (map fst al) \<Longrightarrow>
     live_in till t (filter (\<lambda>(_, v). \<not> t > till v) al) = live_in till t al"
  by (rule ext) (auto simp: live_in_def map_of_filter split: option.split)

lemma refresh_alike: "mem_wf m \<Longrightarrow> alike t m m' \<Longrightarrow> alike t (snd (Refresh t m)) m'"
  using live_drop [of "m_revoked m" id t] live_drop [of "m_burned m" id t]
    live_drop [of "m_values m" me_until t]
  by (simp add: alike_def Refresh_def Let_def mem_wf_def)

lemma live_before:
  assumes "live_in id t al = live_in id t al'"
  shows "(case map_of al k of None \<Rightarrow> False | Some u \<Rightarrow> t < u) = (case map_of al' k of None \<Rightarrow> False | Some u \<Rightarrow> t < u)"
proof -
  have "(case map_of l k of None \<Rightarrow> False | Some u \<Rightarrow> t < u) =
      (case live_in id t l k of None \<Rightarrow> False | Some u \<Rightarrow> t < u)" for l
    by (auto simp: live_in_def split: option.split)
  then show ?thesis by (simp add: assms)
qed

lemma burn_alike:
  assumes a: "alike t m m'"
  shows "fst (mem_step t (OpBurn kind rid ttl) m) = fst (mem_step t (OpBurn kind rid ttl) m') \<and>
     alike t (snd (mem_step t (OpBurn kind rid ttl) m)) (snd (mem_step t (OpBurn kind rid ttl) m'))"
proof -
  let ?k = "kind @ '':'' @ rid"
  have same: "(case map_of (m_burned m) ?k of None \<Rightarrow> False | Some u \<Rightarrow> t < u) =
      (case map_of (m_burned m') ?k of None \<Rightarrow> False | Some u \<Rightarrow> t < u)"
    using a by (intro live_before) (simp add: alike_def)
  have put: "live_in id t (AList.update ?k (t + ttl) (m_burned m)) =
      live_in id t (AList.update ?k (t + ttl) (m_burned m'))"
    using a by (intro live_update) (simp add: alike_def)
  show ?thesis
  proof (cases "case map_of (m_burned m') ?k of None \<Rightarrow> False | Some u \<Rightarrow> t < u")
    case True
    then show ?thesis using a unfolding mem_step.simps Burn_def Let_def same by simp
  next
    case False
    then show ?thesis using a put unfolding mem_step.simps Burn_def Let_def same by (simp add: alike_def)
  qed
qed

lemma get_alike:
  assumes "alike t m m'"
  shows "fst (mem_step t (OpGet kind rid) m) = fst (mem_step t (OpGet kind rid) m') \<and>
     alike t (snd (mem_step t (OpGet kind rid) m)) (snd (mem_step t (OpGet kind rid) m'))"
proof -
  let ?k = "kind @ '':'' @ rid"
  have get: "fst (Get t kind rid l) = map_option me_value (live_in me_until t (m_values l) ?k)" for l
    by (auto simp: Get_def live_in_def Let_def split: option.split)
  have gone: "live_in me_until t (m_values (snd (Get t kind rid l))) = live_in me_until t (m_values l)" for l
    by (rule ext) (auto simp: Get_def live_in_def Let_def delete_conv' split: option.split)
  have rest: "m_revoked (snd (Get t kind rid l)) = m_revoked l" "m_burned (snd (Get t kind rid l)) = m_burned l"
    "m_fails (snd (Get t kind rid l)) = m_fails l" "m_locks (snd (Get t kind rid l)) = m_locks l" for l
    by (auto simp: Get_def Let_def split: option.split)
  show ?thesis using assms by (simp add: case_prod_beta get gone rest alike_def)
qed

lemma step_alike:
  assumes a: "alike t m m'" and op: "op \<noteq> OpRefresh"
  shows "fst (mem_step t op m) = fst (mem_step t op m') \<and>
     alike t (snd (mem_step t op m)) (snd (mem_step t op m'))"
proof -
  note eqs = a [unfolded alike_def]
  show ?thesis
  proof (cases op)
    case (OpRevoked sid)
    with a live_before [of t "m_revoked m" "m_revoked m'" sid] show ?thesis
      by (simp add: Revoked_def alike_def)
  next
    case OpBurn
    then show ?thesis using burn_alike [OF a] by simp
  next
    case OpGet
    then show ?thesis using get_alike [OF a] by simp
  next
    case (OpRevoke sid till)
    with eqs live_update [of id t "m_revoked m" "m_revoked m'" sid till] show ?thesis
      by (simp add: alike_def Revoke_def)
  next
    case (OpPut kind rid v ttl)
    with eqs live_update [of me_until t "m_values m" "m_values m'"] show ?thesis
      by (simp add: alike_def Put_def)
  next
    case (OpDel kind rid)
    with eqs live_delete [of me_until t "m_values m" "m_values m'"] show ?thesis
      by (simp add: alike_def Del_def)
  next
    case (OpFail scope window)
    with eqs show ?thesis by (simp add: alike_def Fail_def Let_def)
  next
    case (OpLockedFor scope)
    with eqs show ?thesis by (simp add: alike_def LockedFor_def Let_def split: option.split)
  qed (use op eqs in \<open>simp_all add: alike_def Clear_def Lock_def\<close>)
qed

definition observed :: "(go_time \<times> mem_op) list \<Rightarrow> memory \<Rightarrow> (go_time \<times> mem_op \<times> mem_out) list" where
  "observed ops m = filter (\<lambda>(t, op, out). op \<noteq> OpRefresh)
     (map (\<lambda>((t, op), out). (t, op, out)) (zip ops (fst (mem_run ops m))))"

lemma observed_Cons:
  "observed ((t, op) # ops) m =
     (if op = OpRefresh then [] else [(t, op, fst (mem_step t op m))]) @ observed ops (snd (mem_step t op m))"
  by (simp add: observed_def split: prod.split)

lemma observed_alike:
  "sorted (map fst ops) \<Longrightarrow> \<forall>t \<in> set (map fst ops). t0 \<le> t \<Longrightarrow> alike t0 m m' \<Longrightarrow> mem_wf m \<Longrightarrow>
     observed ops m = observed (filter (\<lambda>(t, op). op \<noteq> OpRefresh) ops) m'"
proof (induction ops arbitrary: t0 m m')
  case Nil
  then show ?case by (simp add: observed_def)
next
  case (Cons top ops)
  obtain t op where top: "top = (t, op)" by (cases top)
  have a: "alike t m m'" using alike_later [OF Cons.prems(3), of t] Cons.prems(2) top by simp
  have wf: "mem_wf (snd (mem_step t op m))" using Cons.prems(4) by (rule mem_step_wf)
  have ord: "sorted (map fst ops)" "\<forall>u \<in> set (map fst ops). t \<le> u" using Cons.prems(1) top by auto
  show ?case
  proof (cases "op = OpRefresh")
    case True
    have "alike t (snd (mem_step t op m)) m'"
      using True refresh_alike [OF Cons.prems(4) a] by (simp add: case_prod_beta)
    from Cons.IH [OF ord this wf] True top show ?thesis by (simp add: observed_Cons)
  next
    case False
    from Cons.IH [OF ord conjunct2 [OF step_alike [OF a False]] wf] step_alike [OF a False] False top
    show ?thesis by (simp add: observed_Cons)
  qed
qed

section \<open>Chains of failures\<close>

text \<open>Every failure moves the end of the window: calls that follow one another within the window count
  on, however long ago the first was.\<close>

lemma fail_next:
  assumes "map_of (m_fails m) scope = Some \<lparr>ct_n = n, ct_until = Some u\<rparr>" "t \<le> u" "0 \<le> n" "n < 2 ^ 63 - 1"
  shows "fst (Fail t scope w m) = n + 1 \<and>
     map_of (m_fails (snd (Fail t scope w m))) scope = Some \<lparr>ct_n = n + 1, ct_until = Some (t + w)\<rparr>"
proof -
  have "i64 (n + 1) = n + 1" using assms(3,4) by (intro i64_id) auto
  with assms(1,2) show ?thesis by (simp add: Fail_def map_get_def Let_def update_conv')
qed

lemma fail_chain:
  assumes "map_of (m_fails m) scope = Some \<lparr>ct_n = n, ct_until = Some u\<rparr>" "0 \<le> n"
    "n + int (length ts) < 2 ^ 63" "successively (\<lambda>a b. b \<le> a + w) ts" "ts \<noteq> [] \<longrightarrow> hd ts \<le> u"
  shows "fst (mem_run (map (\<lambda>t. (t, OpFail scope w)) ts) m) = map OCount [n + 1..n + int (length ts)]"
  using assms
proof (induction ts arbitrary: m n u)
  case Nil
  then show ?case by simp
next
  case (Cons t ts)
  note nxt = fail_next [of m scope n u t w]
  have f: "fst (Fail t scope w m) = n + 1"
    "map_of (m_fails (snd (Fail t scope w m))) scope = Some \<lparr>ct_n = n + 1, ct_until = Some (t + w)\<rparr>"
    using nxt Cons.prems by auto
  have "fst (mem_run (map (\<lambda>t. (t, OpFail scope w)) ts) (snd (Fail t scope w m))) =
      map OCount [n + 1 + 1..n + 1 + int (length ts)]"
    using Cons.prems by (intro Cons.IH [OF f(2)]) (auto simp: successively_Cons)
  moreover have "[n + 1..n + int (length (t # ts))] = (n + 1) # [n + 1 + 1..n + 1 + int (length ts)]"
    by (subst upto_rec1) (auto simp: algebra_simps)
  ultimately show ?case using f(1) by (simp add: case_prod_beta)
qed

lemma digit_chars: "char_of (48 :: int) = CHR ''0''" "char_of (50 :: int) = CHR ''2''" "char_of (52 :: int) = CHR ''4''"
  by code_simp+

section \<open>Properties\<close>

text \<open>C36: A nonce burns once. In any memory the process can have, once \<open>Burn\<close> has said yes for a kind
  and an id, every later \<open>Burn\<close> of them before the time it named has passed says no, whatever
  operations (refreshes among them) come between.\<close>

theorem burn_once:
  assumes "fst (Burn t0 kind rid ttl (snd (mem_run before NewMemory)))"
    and "\<forall>(t, op) \<in> set ops. t < t0 + ttl" "t1 < t0 + ttl"
  shows "\<not> fst (Burn t1 kind rid ttl'
      (snd (mem_run ops (snd (Burn t0 kind rid ttl (snd (mem_run before NewMemory)))))))"
  using memory_burns.burnt_once [OF mem_run_wf [OF new_mem_wf] assms]
  by (simp add: mem_run_snd memory_burns.steps_def)

theorem burn_once_witness:
  "\<not> fst (Burn 7 ''nonce'' ''n'' 10
      (snd (mem_run [(5, OpRefresh), (6, OpBurn ''nonce'' ''m'' 3)]
        (snd (Burn 1 ''nonce'' ''n'' 10 (snd (mem_run [] NewMemory)))))))"
  by (rule burn_once) (simp_all add: Burn_def NewMemory_def Let_def)

text \<open>Forgetting is invisible. With a clock that never goes back, the answers a process gets from
  its memory are the same with and without the refreshes: dropping entries that have ended never
  changes what a revocation, a nonce, a value, a counter or a lock answers.\<close>

theorem refresh_invisible:
  assumes "sorted (map fst ops)"
  shows "observed ops NewMemory = observed (filter (\<lambda>(t, op). op \<noteq> OpRefresh) ops) NewMemory"
proof (cases ops)
  case Nil
  then show ?thesis by simp
next
  case (Cons top rest)
  have "\<forall>t \<in> set (map fst ops). fst top \<le> t" using assms Cons by auto
  moreover have "alike (fst top) NewMemory NewMemory" by (simp add: alike_def)
  ultimately show ?thesis by (rule observed_alike [OF assms]) simp
qed

theorem refresh_invisible_witness:
  "observed [(1, OpPut ''a'' ''b'' ''v'' 3), (5, OpRefresh), (6, OpGet ''a'' ''b'')] NewMemory =
   observed [(1, OpPut ''a'' ''b'' ''v'' 3), (6, OpGet ''a'' ''b'')] NewMemory"
  using refresh_invisible [of "[(1, OpPut ''a'' ''b'' ''v'' 3), (5, OpRefresh), (6, OpGet ''a'' ''b'')]"] by simp

text \<open>The counter behind the rate limit counts chains, not windows. Failures of one scope that
  follow each other within the window are counted 1, 2, 3 and so on without end: a client that asks
  once every 59 minutes under a limit of some requests per hour is refused for good after that many
  requests, as every call moves the end of the window.\<close>

theorem fail_counts_chains:
  assumes "successively (\<lambda>a b. b \<le> a + w) ts" "int (length ts) < 2 ^ 63"
  shows "fst (mem_run (map (\<lambda>t. (t, OpFail scope w)) ts) NewMemory) = map OCount [1..int (length ts)]"
proof (cases ts)
  case Nil
  then show ?thesis by simp
next
  case (Cons t rest)
  let ?m = "snd (Fail t scope w NewMemory)"
  have one: "fst (Fail t scope w NewMemory) = 1"
    "map_of (m_fails ?m) scope = Some \<lparr>ct_n = 1, ct_until = Some (t + w)\<rparr>"
    by (simp_all add: Fail_def NewMemory_def map_get_def Let_def i64_def)
  have "fst (mem_run (map (\<lambda>t. (t, OpFail scope w)) rest) ?m) = map OCount [1 + 1..1 + int (length rest)]"
    using assms Cons by (intro fail_chain [OF one(2)]) (auto simp: successively_Cons)
  moreover have "[1..int (length ts)] = 1 # [1 + 1..1 + int (length rest)]"
    using Cons by (subst upto_rec1) (auto simp: algebra_simps)
  ultimately show ?thesis using Cons one(1) by (simp add: case_prod_beta)
qed

theorem fail_counts_chains_witness:
  "fst (mem_run (map (\<lambda>t. (t, OpFail ''issue'' 60)) [0, 59, 118, 177]) NewMemory) = map OCount [1..4]"
  using fail_counts_chains [of 60 "[0, 59, 118, 177]" "''issue''"] by simp

lemma itoa_digits_dec: "0 < v \<Longrightarrow> itoa_digits v buf = dec_digits v @ buf"
proof (induction v arbitrary: buf rule: dec_digits.induct)
  case (1 v)
  show ?case
  proof (cases "v < 10")
    case True
    with 1(2) show ?thesis by (simp add: itoa_digits.simps [of v] itoa_digits.simps [of 0] dec_digits.simps [of v])
  next
    case False
    then have "itoa_digits (v div 10) (char_of (48 + v mod 10) # buf) =
        dec_digits (v div 10) @ char_of (48 + v mod 10) # buf"
      using 1 by simp
    with False 1(2) show ?thesis by (simp add: itoa_digits.simps [of v] dec_digits.simps [of v])
  qed
qed

text \<open>\<open>itoa\<close> writes an \<open>int64\<close> in decimal as \<open>strconv\<close> does, for every value but the least, of which
  the negation overflows and only the sign is written.\<close>

theorem itoa_exact:
  assumes "- (2 ^ 63) \<le> v" "v < 2 ^ 63"
  shows "itoa v = (if v = - (2 ^ 63) then ''-'' else format_int v)"
proof (cases "v = - (2 ^ 63)")
  case True
  then show ?thesis by (simp add: itoa_def i64_def itoa_digits.simps)
next
  case False
  then have "v < 0 \<Longrightarrow> i64 (- v) = - v" using assms by (intro i64_id) auto
  then show ?thesis
    using False by (auto simp: itoa_def format_int_def itoa_digits_dec dec_digits.simps [of 0] digit_chars)
qed

theorem itoa_exact_witness: "itoa (- 42) = ''-42''"
  using itoa_exact [of "- 42"] by (simp add: format_int_def dec_digits.simps digit_chars)

end
