(* ===== verification/Store.thy ===== *)
theory Store
  imports Protocol Netip
begin

text \<open>
  Package \<open>internal/store\<close>: the request's headers and arguments, read from the shared Redis under the
  keys the agent placed in the message, and the values and cookies taken from the headers.

  The Redis client is the record \<open>store_client\<close>: what \<open>GET\<close> and \<open>MGET\<close> answer at this moment, and
  whether the headers' JSON decodes. No client at all is \<^const>\<open>None\<close>.
\<close>

abbreviation "UnavailableNoStore \<equiv> ''store_unconfigured''"
abbreviation "UnavailableError \<equiv> ''store_error''"
abbreviation "UnavailableDriver \<equiv> ''unknown_driver''"
abbreviation "UnavailableNotFound \<equiv> ''store_miss''"

text \<open>A reply to \<open>GET\<close>: the bytes, \<open>redis.Nil\<close> or another error.\<close>

datatype get_reply = Got string | GotNil | GotError

record store_client =
  sc_get :: "string \<Rightarrow> get_reply"
  sc_mget :: "string list \<Rightarrow> string option list option"
  sc_json :: "string \<Rightarrow> header list option"

datatype store_error = ErrUnknownDriver | ErrNil | ErrOther

definition store_get :: "store_client \<Rightarrow> string \<Rightarrow> string \<Rightarrow> store_error + string" where
  "store_get s driver key =
     (if driver \<noteq> ''redis'' then Inl ErrUnknownDriver
      else case sc_get s key of Got v \<Rightarrow> Inr v | GotNil \<Rightarrow> Inl ErrNil | GotError \<Rightarrow> Inl ErrOther)"

text \<open>The headers, the reason they are missing, and whether that is a fault of this side.\<close>

definition Headers :: "store_client option \<Rightarrow> locator option \<Rightarrow> header list \<times> string \<times> bool" where
  "Headers s loc =
     (case loc of
        None \<Rightarrow> ([], [], False)
      | Some l \<Rightarrow>
          if l_unavailable l \<noteq> [] then ([], l_unavailable l, False)
          else if l_driver l = [] then ([], [], False)
          else (case s of
                  None \<Rightarrow> ([], UnavailableNoStore, True)
                | Some c \<Rightarrow>
                    (case store_get c (l_driver l) (l_key l) of
                       Inl ErrNil \<Rightarrow> ([], UnavailableNotFound, True)
                     | Inl ErrUnknownDriver \<Rightarrow> ([], UnavailableDriver, True)
                     | Inl ErrOther \<Rightarrow> ([], UnavailableError, True)
                     | Inr raw \<Rightarrow>
                         (case sc_json c raw of
                            None \<Rightarrow> ([], UnavailableError, True)
                          | Some pairs \<Rightarrow> (pairs, [], False)))))"

definition argsOf :: "store_client option \<Rightarrow> locator option \<Rightarrow> string" where
  "argsOf s loc =
     (case (s, loc) of
        (Some c, Some l) \<Rightarrow>
          if l_driver l = [] \<or> l_unavailable l \<noteq> [] then []
          else (case store_get c (l_driver l) (l_key l) of Inl _ \<Rightarrow> [] | Inr raw \<Rightarrow> raw)
      | _ \<Rightarrow> [])"

definition str_of :: "string option \<Rightarrow> string" where
  "str_of v = (case v of None \<Rightarrow> [] | Some s \<Rightarrow> s)"

definition Pair ::
    "store_client option \<Rightarrow> locator option \<Rightarrow> locator option \<Rightarrow> header list \<times> string \<times> string \<times> bool" where
  "Pair s hdr args =
     (let apart = (case Headers s hdr of (pairs, why, fault) \<Rightarrow> (pairs, argsOf s args, why, fault))
      in case (s, hdr, args) of
           (Some c, Some h, Some a) \<Rightarrow>
             if l_driver h \<noteq> ''redis'' \<or> l_driver a \<noteq> ''redis'' \<or> l_unavailable h \<noteq> [] \<or>
                l_unavailable a \<noteq> []
             then apart
             else (case sc_mget c [l_key h, l_key a] of
                     Some [v0, v1] \<Rightarrow>
                       (case v0 of
                          None \<Rightarrow> ([], str_of v1, UnavailableNotFound, True)
                        | Some raw \<Rightarrow>
                            (case sc_json c raw of
                               None \<Rightarrow> ([], str_of v1, UnavailableError, True)
                             | Some pairs \<Rightarrow> (pairs, str_of v1, [], False)))
                   | _ \<Rightarrow> ([], [], UnavailableError, True))
         | _ \<Rightarrow> apart)"

fun header_value :: "header list \<Rightarrow> string \<Rightarrow> string" where
  "header_value [] name = []"
| "header_value ((n, v) # hs) name = (if equal_fold n name then v else header_value hs name)"

lemma cut_shorter: "cut s sep = (a, b, ok) \<Longrightarrow> s \<noteq> [] \<Longrightarrow> length b < length s"
proof -
  assume c: "cut s sep = (a, b, ok)" and s: "s \<noteq> []"
  show ?thesis
  proof (cases ok)
    case True
    with cut_found [of s sep a b] c show ?thesis by simp
  next
    case False
    with cut_not_found [of s sep a b] c s show ?thesis by simp
  qed
qed

text \<open>One turn of the loop takes a part off the line.\<close>

function cookieFrom :: "string \<Rightarrow> string \<Rightarrow> string" where
  "cookieFrom line name =
     (if line = [] then []
      else case cut line (CHR '';'') of (part, rest, _) \<Rightarrow>
        (case cut (trim_space part) (CHR ''='') of (key, v, ok) \<Rightarrow>
           if \<not> ok \<or> trim_space key \<noteq> name then cookieFrom rest name
           else trim_both (trim_space v) [CHR 0x22]))"
  by pat_completeness auto

termination
  by (relation "measure (\<lambda>(line, name). length line)") (auto dest: cut_shorter [OF sym])

declare cookieFrom.simps [simp del]

fun header_cookie :: "header list \<Rightarrow> string \<Rightarrow> string" where
  "header_cookie [] name = []"
| "header_cookie ((n, v) # hs) name =
     (if \<not> equal_fold n ''cookie'' then header_cookie hs name
      else let c = cookieFrom v name in if c \<noteq> [] then c else header_cookie hs name)"

section \<open>Properties\<close>

text \<open>One round trip reads what two would. With a Redis whose \<open>MGET\<close> answers for each key what \<open>GET\<close>
  would, \<open>Pair\<close> returns what reading the headers and the arguments apart returns: the same headers,
  arguments, reason and fault, whatever is missing or broken.\<close>

theorem pair_reads_both:
  assumes "\<forall>k. sc_get c k \<noteq> GotError"
    and "\<forall>ks. sc_mget c ks = Some (map (\<lambda>k. case sc_get c k of Got v \<Rightarrow> Some v | _ \<Rightarrow> None) ks)"
  shows "Pair (Some c) hdr args =
     (case Headers (Some c) hdr of (pairs, why, fault) \<Rightarrow> (pairs, argsOf (Some c) args, why, fault))"
proof (cases hdr)
  case None
  then show ?thesis by (simp add: Pair_def)
next
  case h: (Some h)
  show ?thesis
  proof (cases args)
    case None
    then show ?thesis by (simp add: Pair_def h)
  next
    case a: (Some a)
    have args: "argsOf (Some c) (Some a) =
        str_of (case sc_get c (l_key a) of Got v \<Rightarrow> Some v | _ \<Rightarrow> None)"
      if "l_driver a = ''redis''" "l_unavailable a = []"
      using that by (auto simp: argsOf_def store_get_def str_of_def split: get_reply.split)
    show ?thesis
      using assms args
      by (auto simp: Pair_def Headers_def store_get_def h a Let_def split: get_reply.split option.split)
  qed
qed

definition sample_locator :: "string \<Rightarrow> locator" where
  "sample_locator key = \<lparr>l_store = [], l_driver = ''redis'', l_key = key, l_unavailable = [], l_size = 0,
     l_declared_size = 0, l_sha256 = [], l_processed_sha256 = [], l_transformed = False,
     l_complete = True, l_truncated = False, l_encoding = [], l_expires_at = 0, l_hint = [],
     l_enc = None\<rparr>"

definition sample_client :: store_client where
  "sample_client = (let get = (\<lambda>k. if k = ''h'' then Got ''{}'' else GotNil)
     in \<lparr>sc_get = get, sc_mget = (\<lambda>ks. Some (map (\<lambda>k. case get k of Got v \<Rightarrow> Some v | _ \<Rightarrow> None) ks)),
         sc_json = (\<lambda>raw. if raw = ''{}'' then Some [] else None)\<rparr>)"

theorem pair_reads_both_witness:
  "Pair (Some sample_client) (Some (sample_locator ''h'')) (Some (sample_locator ''a'')) = ([], [], [], False)"
proof -
  have "Pair (Some sample_client) (Some (sample_locator ''h'')) (Some (sample_locator ''a'')) =
      (case Headers (Some sample_client) (Some (sample_locator ''h'')) of
         (pairs, why, fault) \<Rightarrow> (pairs, argsOf (Some sample_client) (Some (sample_locator ''a'')), why, fault))"
    by (rule pair_reads_both) (simp_all add: sample_client_def)
  then show ?thesis
    by (simp add: Headers_def argsOf_def sample_locator_def sample_client_def store_get_def)
qed

text \<open>A cookie of a well-formed \<open>Cookie\<close> header: its characters are printable, the name has neither
  separator in it, the value no \<open>;\<close> and no quote at its ends.\<close>

definition cookie_ok :: "string \<times> string \<Rightarrow> bool" where
  "cookie_ok kv \<longleftrightarrow> list_all graphic (fst kv) \<and> list_all graphic (snd kv) \<and>
     CHR ''='' \<notin> set (fst kv) \<and> CHR '';'' \<notin> set (fst kv) \<and> CHR '';'' \<notin> set (snd kv) \<and>
     trim_both (snd kv) [CHR 0x22] = snd kv"

definition cookie_line :: "(string \<times> string) list \<Rightarrow> string" where
  "cookie_line kvs = join_with ''; '' (map (\<lambda>(k, v). k @ ''='' @ v) kvs)"


lemma trim_leading_space:
  assumes "list_all graphic s"
  shows "trim_space (CHR '' '' # s) = s"
proof -
  have "find (\<lambda>p. p \<noteq> [] \<and> has_prefix (CHR '' '' # s) p) go_spaces = Some [CHR '' '']"
    by (simp add: go_spaces_def has_prefix_def)
  then have "strip_any go_spaces (CHR '' '' # s) = strip_any go_spaces s"
    by (subst strip_any.simps) simp
  then show ?thesis using trim_space_graphic [OF assms] by (simp add: trim_space_def)
qed

lemma cookieFrom_Nil [simp]: "cookieFrom [] name = []"
  by (subst cookieFrom.simps) simp

lemma cookie_part:
  assumes ok: "cookie_ok (k, v)" and lead: "lead \<in> {[], '' ''}"
    and line: "line = lead @ k @ ''='' @ v \<and> rest = [] \<or> line = lead @ k @ ''='' @ v @ '';'' @ rest"
  shows "cookieFrom line name = (if k = name then v else cookieFrom rest name)"
proof -
  have g: "list_all graphic (k @ ''='' @ v)" "list_all graphic k" "list_all graphic v"
    using ok by (simp_all add: cookie_ok_def graphic_def byte_of_def)
  have nosemi: "CHR '';'' \<notin> set (lead @ k @ ''='' @ v)" and noeq: "CHR ''='' \<notin> set k"
    using ok lead by (auto simp: cookie_ok_def)
  have part: "trim_space (lead @ k @ ''='' @ v) = k @ ''='' @ v"
    using lead trim_space_graphic [OF g(1)] trim_leading_space [OF g(1)] by auto
  have "\<exists>b. cut line (CHR '';'') = (lead @ k @ ''='' @ v, rest, b)"
    using line cut_append [OF nosemi, of rest] cut_none [OF nosemi] by auto
  then obtain b where c: "cut line (CHR '';'') = (lead @ k @ ''='' @ v, rest, b)" ..
  have kv: "cut (k @ ''='' @ v) (CHR ''='') = (k, v, True)"
    using cut_append [OF noeq, of v] by simp
  have "line \<noteq> []" using line by auto
  then show ?thesis
    using part kv ok trim_space_graphic [OF g(2)] trim_space_graphic [OF g(3)]
    by (subst cookieFrom.simps) (simp add: c cookie_ok_def)
qed

lemma cookie_search:
  "\<forall>kv \<in> set kvs. cookie_ok kv \<Longrightarrow> lead \<in> {[], '' ''} \<Longrightarrow> kvs \<noteq> [] \<Longrightarrow>
     cookieFrom (lead @ cookie_line kvs) name = (case map_of kvs name of None \<Rightarrow> [] | Some v \<Rightarrow> v)"
proof (induction kvs arbitrary: lead)
  case Nil
  then show ?case by simp
next
  case (Cons kv kvs)
  obtain k v where kv: "kv = (k, v)" by (cases kv)
  have ok: "cookie_ok (k, v)" using Cons.prems(1) kv by simp
  show ?case
  proof (cases kvs)
    case Nil
    then show ?thesis
      using cookie_part [OF ok Cons.prems(2), of "lead @ cookie_line (kv # kvs)" "[]" name] kv
      by (simp add: cookie_line_def)
  next
    case (Cons kv2 kvs2)
    have "cookie_line (kv # kvs) = k @ ''='' @ v @ '';'' @ '' '' @ cookie_line kvs"
      using Cons kv by (simp add: cookie_line_def)
    then show ?thesis
      using cookie_part [OF ok Cons.prems(2), of "lead @ cookie_line (kv # kvs)" "'' '' @ cookie_line kvs" name]
        Cons.IH [of "'' ''"] Cons.prems(1) Cons kv by simp
  qed
qed

text \<open>A cookie is found where a client put it. In a well-formed \<open>Cookie\<close> header, whatever the
  cookies before and after it, the parser returns the value of the first cookie of the name, byte
  by byte and with any further equals signs, and nothing when no cookie has it.\<close>

theorem cookie_found:
  assumes "\<forall>kv \<in> set kvs. cookie_ok kv"
  shows "cookieFrom (cookie_line kvs) name = (case map_of kvs name of None \<Rightarrow> [] | Some v \<Rightarrow> v)"
proof (cases kvs)
  case Nil
  then show ?thesis by (simp add: cookie_line_def)
next
  case Cons
  then show ?thesis using cookie_search [OF assms, of "[]" name] by simp
qed

theorem cookie_found_witness:
  "cookieFrom (cookie_line [(''a'', ''1''), (''clr'', ''c1.x=''), (''clr'', ''2'')]) ''clr'' = ''c1.x=''"
proof -
  have "\<forall>kv \<in> set [(''a'', ''1''), (''clr'', ''c1.x=''), (''clr'', ''2'')]. cookie_ok kv" by code_simp
  from cookie_found [OF this, of "''clr''"] show ?thesis by simp
qed

end
