(* ===== verification/Subjects.thy ===== *)
theory Subjects
  imports Decide
begin

text \<open>
  Package \<open>cmd/inspector\<close>, file \<open>subjects.go\<close>: which buckets a request belongs to, what it adds to them
  and reads from them, and the rules of a profile that fire on its outcome: asks for other inspectors,
  list writes and bucket charges.

  Outside the repository are the geo resolver (record \<open>geo\<close>: \<open>Resolve\<close>, \<open>Lookup\<close> and
  \<open>netinfo.Values\<close>) and the list writer, of which the code only uses that it takes a write or fails.
\<close>

section \<open>Subjects\<close>

record 'info geo =
  ge_resolve :: "string \<Rightarrow> string \<times> string"
  ge_lookup :: "addr \<Rightarrow> bool \<Rightarrow> 'info option"
  ge_values :: "'info \<Rightarrow> string \<Rightarrow> string list"

record subject =
  su_ip :: string
  su_sess :: string
  su_net :: string
  su_router :: string

abbreviation (input) no_subject :: subject where
  "no_subject \<equiv> \<lparr>su_ip = [], su_sess = [], su_net = [], su_router = []\<rparr>"

definition subject_key :: "subject \<Rightarrow> string \<Rightarrow> string" where
  "subject_key s kind =
     (if kind = KindIP then su_ip s
      else if kind = KindSess then su_sess s
      else if kind = KindNet then su_net s
      else if kind = KindRouter then su_router s
      else [])"

definition tiersOf :: "profile \<Rightarrow> tiers" where
  "tiersOf p =
     (let t = (\<lambda>b. \<lparr>ti_max = bt_max b, ti_loss = bt_loss b\<rparr>); b = p_buckets p
      in [(KindIP, t (pb_ip b)), (KindSess, t (pb_sess b)), (KindNet, t (pb_asn_net b)),
          (KindRouter, t (pb_asn_router b))])"

definition subjectsOf :: "'info geo \<Rightarrow> profile \<Rightarrow> string \<Rightarrow> string \<Rightarrow> subject" where
  "subjectsOf g p clientIP clr =
     (let b = p_buckets p; net = tier_enabled (pb_asn_net b); router = tier_enabled (pb_asn_router b)
      in \<lparr>su_ip = (if tier_enabled (pb_ip b) then IPKey clientIP else []),
          su_sess = (if tier_enabled (pb_sess b) \<and> clr \<noteq> [] then hex_encode (take 8 (sha256 clr)) else []),
          su_net = (if net then fst (ge_resolve g clientIP) else []),
          su_router = (if router then snd (ge_resolve g clientIP) else [])\<rparr>)"

definition clearedKinds :: "string list" where
  "clearedKinds = [KindSess]"

section \<open>Charges, reads and levels\<close>

definition percent_of :: "int \<Rightarrow> tier \<Rightarrow> float64" where
  "percent_of percent t = f64 (f64 (f64 (of_int percent) / 100) * ti_max t)"

definition chargesOf :: "subject \<Rightarrow> tiers \<Rightarrow> ask_note list \<Rightarrow> charge list" where
  "chargesOf s ts ns =
     map (\<lambda>n. \<lparr>cg_ref = (n_axis n, subject_key s (n_axis n)),
               cg_add = percent_of (n_percent n) (tier_of ts (n_axis n))\<rparr>)
       (filter (\<lambda>n. subject_key s (n_axis n) \<noteq> [] \<and> bucket_enabled (tier_of ts (n_axis n))) ns)"

definition readsOf :: "subject \<Rightarrow> tiers \<Rightarrow> bool \<Rightarrow> bref list" where
  "readsOf s ts cleared =
     map (\<lambda>kind. (kind, subject_key s kind))
       (filter (\<lambda>kind. subject_key s kind \<noteq> [] \<and> bucket_enabled (tier_of ts kind))
          (if cleared then clearedKinds else bucketKinds))"

definition percentsOf :: "level list \<Rightarrow> (string, float64) gomap" where
  "percentsOf ls = foldl (\<lambda>m l. AList.update (fst (lv_ref l)) (lv_percent l) m) [] ls"

section \<open>Asks\<close>

text \<open>\<open>int64(d.Seconds())\<close>: the whole seconds of a duration, by the float64 of its seconds.\<close>

definition whole_seconds :: "duration \<Rightarrow> int" where
  "whole_seconds d = float_to_int (seconds_of f64 d)"

definition askOf :: "event_rule \<Rightarrow> action" where
  "askOf r =
     (let arch = (er_do r = DoArchive \<and> er_set r = ''on''); secs = whole_seconds (er_ttl r)
      in \<lparr>a_to = er_to r, a_do = er_do r, a_apply = Axis r, a_phase = er_phase r, a_code = er_code r,
          a_delta = (case er_delta r of None \<Rightarrow> 0 | Some d \<Rightarrow> d),
          a_value = (case er_value r of None \<Rightarrow> 0 | Some v \<Rightarrow> v),
          a_counter = er_counter r, a_marker = er_marker r, a_group = er_group r, a_set = er_set r,
          a_ttl = (if arch \<and> secs > 0 then Some secs else None),
          a_when = (if arch \<and> er_when r \<noteq> []
                    then (case CheckArchiveWhen (er_when r) of Inl _ \<Rightarrow> [] | Inr w \<Rightarrow> w) else []),
          a_headers = er_headers r, a_args = er_args r, a_body = er_body r\<rparr>)"

definition bucket_code :: "event_rule \<Rightarrow> string \<Rightarrow> string" where
  "bucket_code r kind = (if er_code r \<noteq> [] then er_code r else ''CAPTCHA_BUCKET_'' @ kind)"

section \<open>List writes\<close>

record list_write =
  lw_set :: string
  lw_values :: "string list"
  lw_ttl :: duration
  lw_reason :: string

definition resolveWrite :: "'info geo \<Rightarrow> string \<Rightarrow> string \<Rightarrow> string list option" where
  "resolveWrite g write clientIP =
     (case ParseAddr clientIP of
        None \<Rightarrow> Some []
      | Some a \<Rightarrow>
          (case ge_lookup g a (write = WriteASN) of
             None \<Rightarrow> None
           | Some info \<Rightarrow> Some (ge_values g info write)))"

text \<open>The writes handed to the list writer, or \<^const>\<open>None\<close> for the geo error. A failed write is logged only.\<close>

definition writeList ::
    "'info geo \<Rightarrow> bool \<Rightarrow> event_rule \<Rightarrow> string \<Rightarrow> string \<Rightarrow> string \<Rightarrow> list_write list option" where
  "writeList g writer r clientIP cid reason =
     (if \<not> writer then Some []
      else let write = er_write r;
               values = (if write = WriteCID then Some (if cid = [] then [] else [cid])
                         else if write \<in> {WriteNet, WriteNetAll, WriteASN} then resolveWrite g write clientIP
                         else Some [clientIP])
           in case values of
                None \<Rightarrow> None
              | Some vs \<Rightarrow>
                  if vs = [] then Some []
                  else Some [\<lparr>lw_set = er_list r, lw_values = vs, lw_ttl = er_ttl r, lw_reason = reason\<rparr>])"

section \<open>Rules that fire\<close>

text \<open>What the rules of one event gather: asks, writes already handed out, charges to apply at the end.
  The error flag stops the loop: the asks and the charges are then lost, the writes are not.\<close>

record fired =
  fd_actions :: "action list"
  fd_writes :: "list_write list"
  fd_charges :: "charge list"
  fd_geo_error :: bool

definition no_fired :: fired where
  "no_fired = \<lparr>fd_actions = [], fd_writes = [], fd_charges = [], fd_geo_error = False\<rparr>"

text \<open>The switch of one rule, the same in the three loops; \<open>reason\<close> is the loop's default code.\<close>

definition fire_rule ::
    "'info geo \<Rightarrow> bool \<Rightarrow> subject \<Rightarrow> tiers \<Rightarrow> string \<Rightarrow> string \<Rightarrow> (event_rule \<Rightarrow> string) \<Rightarrow> event_rule \<Rightarrow>
     fired \<Rightarrow> fired" where
  "fire_rule g writer subj ts clientIP cid reason r st =
     (if fd_geo_error st then st
      else if er_do r \<noteq> [] then st\<lparr>fd_actions := fd_actions st @ [askOf r]\<rparr>
      else if er_list r \<noteq> []
      then (case writeList g writer r clientIP cid (reason r) of
              None \<Rightarrow> st\<lparr>fd_geo_error := True\<rparr>
            | Some ws \<Rightarrow> st\<lparr>fd_writes := fd_writes st @ ws\<rparr>)
      else if er_charge r \<noteq> []
      then if subject_key subj (er_charge r) \<noteq> [] \<and> bucket_enabled (tier_of ts (er_charge r))
           then st\<lparr>fd_charges := fd_charges st @
                  [\<lparr>cg_ref = (er_charge r, subject_key subj (er_charge r)),
                    cg_add = percent_of (er_percent r) (tier_of ts (er_charge r))\<rparr>]\<rparr>
           else st
      else st)"

definition fire_rules ::
    "'info geo \<Rightarrow> bool \<Rightarrow> subject \<Rightarrow> tiers \<Rightarrow> string \<Rightarrow> string \<Rightarrow> (event_rule \<Rightarrow> string) \<Rightarrow> event_rule list \<Rightarrow>
     fired \<Rightarrow> fired" where
  "fire_rules g writer subj ts clientIP cid reason rules st =
     fold (fire_rule g writer subj ts clientIP cid reason) rules st"

definition fire_step ::
    "'info geo \<Rightarrow> bool \<Rightarrow> profile \<Rightarrow> subject \<Rightarrow> string \<Rightarrow> string \<Rightarrow> level \<Rightarrow> string \<times> int \<Rightarrow> fired \<Rightarrow> fired" where
  "fire_step g writer p subj clientIP nxt l step st =
     (if snd step = 0 \<or> lv_percent l < f64 (of_int (snd step)) then st
      else fire_rules g writer subj (tiersOf p) clientIP [] (\<lambda>r. bucket_code r (fst (lv_ref l)))
             (RulesFor p (fst step) (fst (lv_ref l)) nxt) st)"

definition bucket_steps :: "profile \<Rightarrow> level \<Rightarrow> (string \<times> int) list" where
  "bucket_steps p l =
     (let t = bucket_tier_of (p_buckets p) (fst (lv_ref l))
      in [(OnBucketCaptcha, bt_captcha_at t), (OnBucketBan, bt_ban_at t)])"

definition fireBucketFull ::
    "'info geo \<Rightarrow> bool \<Rightarrow> profile \<Rightarrow> subject \<Rightarrow> string \<Rightarrow> level list \<Rightarrow> string \<Rightarrow> fired" where
  "fireBucketFull g writer p subj clientIP levels nxt =
     (if p_rules p = [] then no_fired
      else fold (\<lambda>l. fold (fire_step g writer p subj clientIP nxt l) (bucket_steps p l)) levels no_fired)"

definition fireClient ::
    "'info geo \<Rightarrow> bool \<Rightarrow> profile \<Rightarrow> subject \<Rightarrow> string \<Rightarrow> string \<Rightarrow> string \<Rightarrow> clearance option \<Rightarrow> fired" where
  "fireClient g writer p subj clientIP on nxt clr =
     fire_rules g writer subj (tiersOf p) clientIP (case clr of None \<Rightarrow> [] | Some c \<Rightarrow> c_cid c)
       (\<lambda>r. if er_code r = [] then ''CAPTCHA_'' @ to_upper on else er_code r)
       (RulesFor p on [] nxt) no_fired"

definition fireOverload ::
    "'info geo \<Rightarrow> bool \<Rightarrow> profile \<Rightarrow> subject \<Rightarrow> string \<Rightarrow> int \<Rightarrow> bool \<Rightarrow> fired" where
  "fireOverload g writer p subj clientIP fill shed =
     fire_rules g writer subj (tiersOf p) clientIP []
       (\<lambda>r. if er_code r = [] then ''CAPTCHA_QUEUE_LIMIT'' else er_code r)
       (filter (\<lambda>r. overload_fires (overload_at (er_at r)) fill shed) (RulesFor p OnOverload [] [])) no_fired"

text \<open>The charges of an event are applied once, at its end, with nothing read; the outcome is only logged.\<close>

definition settle ::
    "backend \<Rightarrow> string list \<Rightarrow> string \<Rightarrow> profile \<Rightarrow> go_time \<Rightarrow> fired \<Rightarrow> ledger \<Rightarrow> ledger" where
  "settle be order prefix p now fd lg =
     (if fd_geo_error fd \<or> fd_charges fd = [] then lg
      else snd (Apply f64 be order prefix (p_name p) (tiersOf p) (fd_charges fd) [] now lg))"

definition chargesOnOverload :: "profile \<Rightarrow> bool" where
  "chargesOnOverload p \<longleftrightarrow> list_ex (\<lambda>r. er_charge r \<noteq> []) (RulesFor p OnOverload [] [])"

section \<open>What the rules gather\<close>

lemma fire_rules_simps [simp]:
  "fire_rules g writer subj ts ip cid reason [] st = st"
  "fire_rules g writer subj ts ip cid reason (r # rs) st =
     fire_rules g writer subj ts ip cid reason rs (fire_rule g writer subj ts ip cid reason r st)"
  by (simp_all add: fire_rules_def)

definition asks_of :: "event_rule list \<Rightarrow> action list" where
  "asks_of rules = map askOf (filter (\<lambda>r. er_do r \<noteq> []) rules)"

lemma asks_of_simps [simp]:
  "asks_of [] = []" "asks_of (r # rs) = (if er_do r \<noteq> [] then [askOf r] else []) @ asks_of rs"
  "asks_of (rs @ rs') = asks_of rs @ asks_of rs'"
  by (simp_all add: asks_of_def)

lemma fire_rule_error: "fd_geo_error st \<Longrightarrow> fire_rule g writer subj ts ip cid reason r st = st"
  by (simp add: fire_rule_def)

lemma fire_rule_actions:
  "\<not> fd_geo_error (fire_rule g writer subj ts ip cid reason r st) \<Longrightarrow>
     \<not> fd_geo_error st \<and> fd_actions (fire_rule g writer subj ts ip cid reason r st) =
       fd_actions st @ (if er_do r \<noteq> [] then [askOf r] else [])"
  by (auto simp: fire_rule_def split: if_splits option.splits)

lemma fire_rules_actions:
  "\<not> fd_geo_error (fire_rules g writer subj ts ip cid reason rs st) \<Longrightarrow>
     \<not> fd_geo_error st \<and>
     fd_actions (fire_rules g writer subj ts ip cid reason rs st) = fd_actions st @ asks_of rs"
proof (induction rs arbitrary: st)
  case Nil
  then show ?case by simp
next
  case (Cons r rs)
  let ?st = "fire_rule g writer subj ts ip cid reason r st"
  have "\<not> fd_geo_error ?st \<and> fd_actions (fire_rules g writer subj ts ip cid reason rs ?st) =
      fd_actions ?st @ asks_of rs"
    using Cons.IH [of ?st] Cons.prems by simp
  with fire_rule_actions [of g writer subj ts ip cid reason r st] show ?case by simp
qed

text \<open>Whatever happens, an ask comes from a rule, and a charge goes to a bucket that is on and has a key.\<close>

definition sound_fired :: "subject \<Rightarrow> tiers \<Rightarrow> event_rule set \<Rightarrow> fired \<Rightarrow> bool" where
  "sound_fired subj ts R fd \<longleftrightarrow>
     set (fd_actions fd) \<subseteq> askOf ` {r \<in> R. er_do r \<noteq> []} \<and>
     (\<forall>c \<in> set (fd_charges fd). \<exists>r \<in> R. er_charge r \<noteq> [] \<and>
        cg_ref c = (er_charge r, subject_key subj (er_charge r)) \<and> snd (cg_ref c) \<noteq> [] \<and>
        bucket_enabled (tier_of ts (fst (cg_ref c))) \<and>
        cg_add c = percent_of (er_percent r) (tier_of ts (er_charge r)))"

lemma sound_fire_rule:
  "r \<in> R \<Longrightarrow> sound_fired subj ts R st \<Longrightarrow> sound_fired subj ts R (fire_rule g writer subj ts ip cid reason r st)"
  by (auto simp: fire_rule_def sound_fired_def split: option.split)

lemma sound_fire_rules:
  "set rs \<subseteq> R \<Longrightarrow> sound_fired subj ts R st \<Longrightarrow>
     sound_fired subj ts R (fire_rules g writer subj ts ip cid reason rs st)"
  by (induction rs arbitrary: st) (simp_all add: sound_fire_rule)

lemma sound_none [simp]: "sound_fired subj ts R no_fired"
  by (simp add: sound_fired_def no_fired_def)

lemma rules_for_sub: "set (RulesFor p on bucket nxt) \<subseteq> set (p_rules p)"
  by (auto simp: RulesFor_def)

lemma sound_fire_step:
  "sound_fired subj (tiersOf p) (set (p_rules p)) st \<Longrightarrow>
     sound_fired subj (tiersOf p) (set (p_rules p)) (fire_step g writer p subj ip nxt l step st)"
  by (simp add: fire_step_def sound_fire_rules rules_for_sub)

lemma sound_bucket_full:
  "sound_fired subj (tiersOf p) (set (p_rules p)) (fireBucketFull g writer p subj ip levels nxt)"
proof -
  have "sound_fired subj (tiersOf p) (set (p_rules p)) (fold (\<lambda>l. fold (fire_step g writer p subj ip nxt l) (steps l)) ls st)"
    if "sound_fired subj (tiersOf p) (set (p_rules p)) st" for steps ls st
    using that
  proof (induction ls arbitrary: st)
    case Nil
    then show ?case by simp
  next
    case (Cons l ls)
    have "sound_fired subj (tiersOf p) (set (p_rules p)) (fold (fire_step g writer p subj ip nxt l) ss st)"
      if "sound_fired subj (tiersOf p) (set (p_rules p)) st" for ss st
      using that by (induction ss arbitrary: st) (simp_all add: sound_fire_step)
    with Cons show ?case by simp
  qed
  then show ?thesis by (simp add: fireBucketFull_def)
qed

lemma sound_client:
  "sound_fired subj (tiersOf p) (set (p_rules p)) (fireClient g writer p subj ip on nxt clr)"
  by (simp add: fireClient_def sound_fire_rules rules_for_sub)

lemma sound_overload:
  "sound_fired subj (tiersOf p) (set (p_rules p)) (fireOverload g writer p subj ip fill shed)"
  unfolding fireOverload_def using rules_for_sub [of p OnOverload "[]" "[]"]
  by (intro sound_fire_rules) auto

section \<open>Properties\<close>

text \<open>An ask the receiving inspector can use: a known verb on one of its axes, a threshold with a delta
  in range, a value only where a verb takes one and in range, a marker the marker check accepts, a
  mutation that names a group and a switch, and record conditions in canonical form.\<close>

definition ask_ok :: "action \<Rightarrow> bool" where
  "ask_ok a \<longleftrightarrow>
     (case ask_axes (a_do a) of None \<Rightarrow> False | Some axes \<Rightarrow> a_apply a \<in> set axes) \<and>
     (if a_do a = DoThreshold then a_delta a \<noteq> 0 \<and> - 100 \<le> a_delta a \<and> a_delta a \<le> 900 else a_delta a = 0) \<and>
     - 100 \<le> a_value a \<and> a_value a \<le> 100 \<and> (a_do a \<notin> {DoNote, DoScore} \<longrightarrow> a_value a = 0) \<and>
     (a_do a = DoScore \<longrightarrow> a_value a \<noteq> 0) \<and>
     (if a_do a = DoMark then CheckMarker (a_marker a) = None else a_marker a = []) \<and>
     (a_do a = DoMutate \<longrightarrow> counterNameRe (a_group a) \<and> a_set a \<in> {''on'', ''off''}) \<and>
     CheckArchiveWhen (a_when a) = Inr (a_when a) \<and>
     (case a_ttl a of None \<Rightarrow> True | Some t \<Rightarrow> 0 < t \<and> a_do a = DoArchive) \<and>
     CheckObjectSpec ''headers'' (a_headers a) = None \<and> CheckObjectSpec ''args'' (a_args a) = None \<and>
     CheckObjectSpec ''body'' (a_body a) = None"

lemma canonical_when: "CheckArchiveWhen ws = Inr w \<Longrightarrow> CheckArchiveWhen w = Inr w"
proof -
  assume "CheckArchiveWhen ws = Inr w"
  then obtain seen where "w = filter (\<lambda>name. name \<in> set seen) ArchiveWhen"
    by (auto simp: CheckArchiveWhen_def split: sum.splits)
  with archive_when_sublists [of "\<lambda>name. name \<in> set seen"] show ?thesis
    using check_when_canonical by blast
qed

lemma when_Nil: "CheckArchiveWhen [] = Inr []"
  by (rule check_when_canonical) simp

lemma ask_of_valid:
  assumes "validateEventRule r = None" "er_do r \<noteq> []"
  shows "ask_ok (askOf r)"
proof -
  have va: "validateAsk r = None"
    using assms by (simp add: validateEventRule_def)
  then obtain axes where ax: "ask_axes (er_do r) = Some axes"
    by (auto simp: validateAsk_def split: option.splits)
  from va ax have parts:
    "list_ex (\<lambda>a. a = (if er_apply r = [] \<and> length axes = 1 then hd axes else er_apply r)) axes"
    "check_delta r = None" "check_value r = None" "check_group r = None" "check_mark r = None"
    "check_record r = None"
    by (simp_all add: validateAsk_def Let_def)
  have axis: "Axis r \<in> set axes"
    using parts(1) ax
    by (auto simp: Axis_def ask_axes_def list_ex_iff split: if_splits)
  have whens: "a_when (askOf r) = [] \<or> (\<exists>w. CheckArchiveWhen (er_when r) = Inr w \<and> a_when (askOf r) = w)"
    by (auto simp: askOf_def Let_def split: sum.split)
  have "CheckArchiveWhen (a_when (askOf r)) = Inr (a_when (askOf r))"
    using whens canonical_when when_Nil by auto
  moreover have "CheckObjectSpec ''headers'' (er_headers r) = None"
    "CheckObjectSpec ''args'' (er_args r) = None" "CheckObjectSpec ''body'' (er_body r) = None"
    using parts(6) by (auto simp: check_record_def has_objects_def CheckObjectSpec_def split: if_splits)
  moreover have "if er_do r = DoThreshold then a_delta (askOf r) \<noteq> 0 \<and> - 100 \<le> a_delta (askOf r) \<and> a_delta (askOf r) \<le> 900
      else a_delta (askOf r) = 0"
    using parts(2) by (auto simp: check_delta_def askOf_def Let_def split: if_splits option.splits)
  moreover have "- 100 \<le> a_value (askOf r) \<and> a_value (askOf r) \<le> 100 \<and>
      (er_do r \<notin> {DoNote, DoScore} \<longrightarrow> a_value (askOf r) = 0) \<and> (er_do r = DoScore \<longrightarrow> a_value (askOf r) \<noteq> 0)"
    using parts(3) by (auto simp: check_value_def askOf_def Let_def split: if_splits option.splits)
  moreover have "if er_do r = DoMark then CheckMarker (er_marker r) = None else er_marker r = []"
    using parts(5) by (auto simp: check_mark_def split: if_splits)
  moreover have "er_do r = DoMutate \<longrightarrow> counterNameRe (er_group r) \<and> er_set r \<in> {''on'', ''off''}"
    using parts(4) by (auto simp: check_group_def split: if_splits)
  moreover have "case a_ttl (askOf r) of None \<Rightarrow> True | Some t \<Rightarrow> 0 < t \<and> a_do (askOf r) = DoArchive"
    by (auto simp: askOf_def Let_def)
  moreover have "a_do (askOf r) = er_do r" "a_apply (askOf r) = Axis r" "a_marker (askOf r) = er_marker r"
    "a_group (askOf r) = er_group r" "a_set (askOf r) = er_set r" "a_headers (askOf r) = er_headers r"
    "a_args (askOf r) = er_args r" "a_body (askOf r) = er_body r"
    by (simp_all add: askOf_def Let_def)
  ultimately show ?thesis using ax axis by (simp add: ask_ok_def)
qed


text \<open>A rule that asks the geo inspector for a challenge when a bucket is full.\<close>

definition ask_rule :: "string \<Rightarrow> event_rule" where
  "ask_rule on = \<lparr>er_on = on, er_at = None, er_bucket = [], er_next = [], er_to = ''geo'',
     er_do = DoChallenge, er_apply = [], er_phase = [], er_delta = None, er_value = None,
     er_counter = [], er_group = [], er_set = [], er_marker = [], er_headers = None, er_args = None,
     er_body = None, er_when = [], er_list = [], er_ttl = 0, er_write = [], er_charge = [],
     er_percent = 0, er_code = []\<rparr>"

text \<open>A rule that charges the address bucket of a cleared visitor.\<close>

definition charge_rule :: event_rule where
  "charge_rule = (ask_rule OnCleared)\<lparr>er_to := [], er_do := [], er_charge := KindIP, er_percent := 10\<rparr>"

definition ruled_profile :: "int \<Rightarrow> profile" where
  "ruled_profile ban = sample_profile
     \<lparr>p_buckets := (p_buckets sample_profile)\<lparr>pb_ip := \<lparr>bt_max = 10, bt_loss = 5, bt_captcha_at = 0, bt_ban_at = ban\<rparr>\<rparr>,
      p_rules := [ask_rule OnBucketBan, charge_rule]\<rparr>"

lemma ask_rule_valid: "validateEventRule (ask_rule OnBucketBan) = None"
  by (simp add: validateEventRule_def ask_rule_def check_on_def check_next_def rule_kinds_def onWave_def
      validateAsk_def ask_axes_def controlVerb_def checkPhaseAsk_def recordVerb_def auditVerb_def
      check_delta_def check_value_def check_group_def check_mark_def check_record_def has_objects_def
      check_write_def Let_def)

lemma charge_rule_valid: "validateEventRule charge_rule = None"
  by (simp add: validateEventRule_def charge_rule_def ask_rule_def check_on_def check_next_def rule_kinds_def
      check_write_def knownBucket_def)

lemma ruled_valid: "ban \<le> 100 \<Longrightarrow> ValidateProfile (ruled_profile ban) = (None, fill_grace (ruled_profile ban))"
proof -
  assume ban: "ban \<le> 100"
  have tier: "validate_tier zero_tier = None" by (simp add: validate_tier_def zero_tier_def)
  have tier2: "validate_tier \<lparr>bt_max = 10, bt_loss = 5, bt_captcha_at = 0, bt_ban_at = ban\<rparr> = None"
    using ban by (simp add: validate_tier_def)
  have up: "to_upper ''GET'' = ''GET''" "to_upper ''HEAD'' = ''HEAD''"
    by (simp_all add: to_upper_def upper_char_def byte_of_def)
  have "validate_head (ruled_profile ban) = None"
    unfolding validate_head_def ruled_profile_def sample_profile_def defaults_def
    by (simp add: tier tier2 ask_rule_valid charge_rule_valid up validateWhen_def validateBuckets_def validatePrior_def containsVerb_def
        Accepts_def validateProviders_def Refs_def validate_ref_def hasBind_def ListEnabled_def
        has_prefix_def contains_any_def Let_def)
  moreover have "validate_tail (fill_grace (ruled_profile ban)) = None"
    by (simp add: validate_tail_def fill_grace_def ruled_profile_def sample_profile_def defaults_def
        ListEnabled_def Let_def)
  ultimately show ?thesis by (simp add: validate_success)
qed

definition ip_level :: "float64 \<Rightarrow> level" where
  "ip_level percent = \<lparr>lv_ref = (KindIP, ''10.0.0.1/32''), lv_score = 0, lv_percent = percent\<rparr>"

definition no_geo :: "unit geo" where
  "no_geo = \<lparr>ge_resolve = (\<lambda>_. ([], [])), ge_lookup = (\<lambda>_ _. None), ge_values = (\<lambda>_ _. [])\<rparr>"

lemma f64_minus_one: "f64 (- 1) = - 1"
  by code_simp

lemma ruled_fires:
  "fd_actions (fireBucketFull no_geo False (fill_grace (ruled_profile (- 1))) subj ip [ip_level 0] nxt) =
     [askOf (ask_rule OnBucketBan)]"
proof -
  let ?p = "fill_grace (ruled_profile (- 1))"
  have rules: "p_rules ?p = [ask_rule OnBucketBan, charge_rule]" by (simp add: fill_grace_def ruled_profile_def)
  have ban: "RulesFor ?p OnBucketBan KindIP nxt = [ask_rule OnBucketBan]"
    by (simp add: RulesFor_def rules) (simp add: ask_rule_def charge_rule_def)
  have tier: "bt_captcha_at (bucket_tier_of (p_buckets ?p) KindIP) = 0"
    "bt_ban_at (bucket_tier_of (p_buckets ?p) KindIP) = - 1"
    by (simp_all add: fill_grace_def ruled_profile_def bucket_tier_of_def)
  show ?thesis
    by (simp add: fireBucketFull_def rules bucket_steps_def ip_level_def tier Let_def fire_step_def ban
        f64_minus_one)
      (simp add: fire_rule_def no_fired_def ask_rule_def)
qed


definition step_asks :: "profile \<Rightarrow> string \<Rightarrow> level \<Rightarrow> string \<times> int \<Rightarrow> action list" where
  "step_asks p nxt l step =
     (if snd step = 0 \<or> lv_percent l < f64 (of_int (snd step)) then []
      else asks_of (RulesFor p (fst step) (fst (lv_ref l)) nxt))"

definition reached_asks :: "profile \<Rightarrow> string \<Rightarrow> level \<Rightarrow> action list" where
  "reached_asks p nxt l = concat (map (step_asks p nxt l) (bucket_steps p l))"

lemma fire_step_actions:
  "\<not> fd_geo_error (fire_step g writer p subj ip nxt l step st) \<Longrightarrow>
     \<not> fd_geo_error st \<and>
     fd_actions (fire_step g writer p subj ip nxt l step st) = fd_actions st @ step_asks p nxt l step"
  using fire_rules_actions [of g writer subj "tiersOf p" ip "[]" "\<lambda>r. bucket_code r (fst (lv_ref l))"
      "RulesFor p (fst step) (fst (lv_ref l)) nxt" st]
  by (cases "snd step = 0 \<or> lv_percent l < f64 (of_int (snd step))") (simp_all add: fire_step_def step_asks_def)

lemma fold_actions:
  assumes step: "\<And>x st. \<not> fd_geo_error (f x st) \<Longrightarrow> \<not> fd_geo_error st \<and> fd_actions (f x st) = fd_actions st @ h x"
  shows "\<not> fd_geo_error (fold f xs st) \<Longrightarrow>
    \<not> fd_geo_error st \<and> fd_actions (fold f xs st) = fd_actions st @ concat (map h xs)"
proof (induction xs arbitrary: st)
  case Nil
  then show ?case by simp
next
  case (Cons x xs)
  with Cons.IH [of "f x st"] step [of x st] show ?case by simp
qed

text \<open>Bucket events fire exactly at their thresholds. Unless a list write meets a geo error, the asks
  of full buckets are, for each reported level in order and first for the challenge threshold, then
  for the ban threshold, those of the rules for that event, bucket and next step, whenever the
  threshold is set and the level has reached it; nothing else is asked.\<close>

theorem bucket_events_exact:
  assumes "\<not> fd_geo_error (fireBucketFull g writer p subj ip levels nxt)"
  shows "fd_actions (fireBucketFull g writer p subj ip levels nxt) = concat (map (reached_asks p nxt) levels)"
proof (cases "p_rules p = []")
  case True
  then have "RulesFor p on b nxt = []" for on b by (simp add: RulesFor_def)
  then have "reached_asks p nxt l = []" for l by (auto simp: reached_asks_def step_asks_def)
  then show ?thesis using True by (simp add: fireBucketFull_def no_fired_def)
next
  case False
  have level: "\<not> fd_geo_error st \<and> fd_actions (fold (fire_step g writer p subj ip nxt l) (bucket_steps p l) st) =
      fd_actions st @ reached_asks p nxt l"
    if "\<not> fd_geo_error (fold (fire_step g writer p subj ip nxt l) (bucket_steps p l) st)" for l st
    unfolding reached_asks_def
  proof (rule fold_actions)
    fix step :: "string \<times> int" and st' :: fired
    assume "\<not> fd_geo_error (fire_step g writer p subj ip nxt l step st')"
    then show "\<not> fd_geo_error st' \<and>
        fd_actions (fire_step g writer p subj ip nxt l step st') = fd_actions st' @ step_asks p nxt l step"
      by (rule fire_step_actions)
  qed (rule that)
  have "fd_actions (fold (\<lambda>l. fold (fire_step g writer p subj ip nxt l) (bucket_steps p l)) levels no_fired) =
      fd_actions no_fired @ concat (map (reached_asks p nxt) levels)"
    using fold_actions [of "\<lambda>l. fold (fire_step g writer p subj ip nxt l) (bucket_steps p l)"
        "reached_asks p nxt" levels no_fired] level assms False
    by (simp add: fireBucketFull_def)
  then show ?thesis using False by (simp add: fireBucketFull_def no_fired_def)
qed

theorem bucket_events_exact_witness:
  "concat (map (reached_asks (fill_grace (ruled_profile (- 1))) ''allow'') [ip_level 0]) =
     [askOf (ask_rule OnBucketBan)]"
proof -
  let ?f = "fireBucketFull no_geo False (fill_grace (ruled_profile (- 1))) no_subject ''10.0.0.1'' [ip_level 0] ''allow''"
  have "\<not> fd_geo_error ?f"
    by (auto simp: fireBucketFull_def fire_step_def fire_rules_def fire_rule_def no_fired_def
        bucket_steps_def Let_def RulesFor_def fill_grace_def ruled_profile_def ask_rule_def charge_rule_def)
  from bucket_events_exact [OF this] ruled_fires [of no_subject "''10.0.0.1''" "''allow''"]
  show ?thesis by simp
qed

text \<open>Rules charge only what exists. Every charge an event makes goes to a bucket that is switched on,
  under the key of the visitor (never an empty one), by the signed percentage of the rule (between
  1 and 100 in size) of that bucket's capacity.\<close>

theorem rule_charges_sound:
  assumes "ValidateProfile p0 = (None, p)"
    and "c \<in> set (fd_charges (fireBucketFull g writer p subj ip levels nxt)) \<union>
       set (fd_charges (fireClient g writer p subj ip on nxt clr)) \<union>
       set (fd_charges (fireOverload g writer p subj ip fill shed))"
  shows "snd (cg_ref c) \<noteq> [] \<and> snd (cg_ref c) = subject_key subj (fst (cg_ref c)) \<and>
     knownBucket (fst (cg_ref c)) \<and> bucket_enabled (tier_of (tiersOf p) (fst (cg_ref c))) \<and>
     (\<exists>n. n \<noteq> 0 \<and> - 100 \<le> n \<and> n \<le> 100 \<and> cg_add c = percent_of n (tier_of (tiersOf p) (fst (cg_ref c))))"
proof -
  obtain r where r: "r \<in> set (p_rules p)" "er_charge r \<noteq> []"
    "cg_ref c = (er_charge r, subject_key subj (er_charge r))" "snd (cg_ref c) \<noteq> []"
    "bucket_enabled (tier_of (tiersOf p) (fst (cg_ref c)))"
    "cg_add c = percent_of (er_percent r) (tier_of (tiersOf p) (er_charge r))"
    using assms(2) sound_bucket_full [of subj p g writer ip levels nxt]
      sound_client [of subj p g writer ip on nxt clr] sound_overload [of subj p g writer ip fill shed]
    by (auto simp: sound_fired_def)
  have "validate_head p = None" using validated_self [OF assms(1)] by (simp add: validate_success)
  from validate_head_rules [OF this r(1)] r(2) have
    "knownBucket (er_charge r)" "er_percent r \<noteq> 0" "- 100 \<le> er_percent r" "er_percent r \<le> 100"
    by (simp_all add: validateEventRule_def)
  then show ?thesis using r by auto
qed

lemma ruled_charges:
  "fd_charges (fireClient no_geo False (fill_grace (ruled_profile (- 1))) \<lparr>su_ip = ''x/32'', su_sess = [], su_net = [], su_router = []\<rparr>
     ip OnCleared nxt None) =
   [\<lparr>cg_ref = (KindIP, ''x/32''), cg_add = percent_of 10 \<lparr>ti_max = 10, ti_loss = 5\<rparr>\<rparr>]"
proof -
  let ?p = "fill_grace (ruled_profile (- 1))"
  have rules: "RulesFor ?p OnCleared [] nxt = [charge_rule]"
    by (simp add: RulesFor_def fill_grace_def ruled_profile_def ask_rule_def charge_rule_def)
  have tier: "tier_of (tiersOf ?p) KindIP = \<lparr>ti_max = 10, ti_loss = 5\<rparr>"
    by (simp add: tiersOf_def tier_of_def map_get_def fill_grace_def ruled_profile_def Let_def)
  have "bucket_enabled \<lparr>ti_max = 10, ti_loss = 5\<rparr>" by (simp add: bucket_enabled_def)
  then show ?thesis
    unfolding fireClient_def rules
    by (simp add: fire_rule_def no_fired_def tier charge_rule_def ask_rule_def subject_key_def)
qed

theorem rule_charges_sound_witness:
  "bucket_enabled (tier_of (tiersOf (fill_grace (ruled_profile (- 1)))) KindIP)"
proof -
  let ?c = "\<lparr>cg_ref = (KindIP, ''x/32''), cg_add = percent_of 10 \<lparr>ti_max = 10, ti_loss = 5\<rparr>\<rparr>"
  have "?c \<in> set (fd_charges (fireClient no_geo False (fill_grace (ruled_profile (- 1)))
      \<lparr>su_ip = ''x/32'', su_sess = [], su_net = [], su_router = []\<rparr> [] OnCleared [] None))"
    by (simp add: ruled_charges)
  then show ?thesis
    using rule_charges_sound [OF ruled_valid [of "- 1"], of ?c no_geo False "\<lparr>su_ip = ''x/32'', su_sess = [], su_net = [], su_router = []\<rparr>" "[]" "[]"
        "[]" OnCleared None 0 False] by simp
qed

text \<open>A ban threshold below zero bans everybody. The error text of the check promises that \<open>ban_at\<close>
  is 0 or lies between \<open>captcha_at\<close> and 100, but with \<open>captcha_at\<close> unset a negative one passes
  validation, and the rules of the ban event then fire for an empty bucket.\<close>

theorem negative_ban_fires:
  "ValidateProfile (ruled_profile (- 1)) = (None, fill_grace (ruled_profile (- 1))) \<and>
   fd_actions (fireBucketFull no_geo False (fill_grace (ruled_profile (- 1))) subj ip [ip_level 0] nxt) =
     [askOf (ask_rule OnBucketBan)]"
  using ruled_valid [of "- 1"] ruled_fires by simp

end
