(* ===== verification/AuditLog.thy ===== *)
theory AuditLog
  imports Decide "HOL-Library.Sublist"
begin

text \<open>
  Packages \<open>internal/audit\<close> and \<open>internal/stats\<close>: the audit event of a verdict, the sink that gathers
  events and publishes them in batches, and the process counters.

  JSON encoding is a parameter; what the sink publishes is the list of messages handed to NATS, in
  order. \<open>Sink.loop\<close> is the only caller of \<open>flush\<close>, so a flush is a sequence of takes, with any
  number of calls of \<open>Add\<close> between them.
\<close>

section \<open>Events\<close>

datatype det_engine =
    NoEngine
  | CheckEngine engine
  | ShedEngine string float64 "string option"
  | FaultEngine string string string

record details =
  dt_engine_ms :: float64
  dt_findings :: "finding list"
  dt_engine :: det_engine

definition no_details :: details where
  "no_details = \<lparr>dt_engine_ms = 0, dt_findings = [], dt_engine = NoEngine\<rparr>"

record audit_event =
  ev_v :: int
  ev_kind :: string
  ev_ts :: string
  ev_ray :: string
  ev_node :: string
  ev_phase :: string
  ev_inspector :: string
  ev_profile :: string
  ev_verdict :: string
  ev_score :: "int option"
  ev_engine_ms :: float64
  ev_findings :: "finding list"
  ev_engine :: det_engine

definition Build :: "string \<Rightarrow> request option \<Rightarrow> reply option \<Rightarrow> details \<Rightarrow> audit_event" where
  "Build ts req rep det =
     (let ev = \<lparr>ev_v = 1, ev_kind = ''inspector'', ev_ts = ts, ev_ray = [], ev_node = [], ev_phase = [],
                ev_inspector = [], ev_profile = [], ev_verdict = [], ev_score = None,
                ev_engine_ms = dt_engine_ms det, ev_findings = dt_findings det, ev_engine = dt_engine det\<rparr>;
          ev = (case req of
                  None \<Rightarrow> ev
                | Some q \<Rightarrow> ev\<lparr>ev_ray := q_ray q, ev_node := q_node q, ev_phase := q_phase q,
                                ev_inspector := q_inspector q, ev_profile := rt_profile (q_route q)\<rparr>)
      in case rep of
           None \<Rightarrow> ev
         | Some r \<Rightarrow>
             ev\<lparr>ev_verdict := rp_verdict r, ev_score := rp_score r,
                ev_inspector := (if ev_inspector ev = [] then rp_inspector r else ev_inspector ev)\<rparr>)"

section \<open>The sink\<close>

abbreviation (input) maxItems :: nat where "maxItems \<equiv> 256"
abbreviation (input) maxSize :: nat where "maxSize \<equiv> 524288"
abbreviation (input) maxPending :: nat where "maxPending \<equiv> 50000"

type_synonym audit_item = "string \<times> string"

record audit_sink =
  sk_pending :: "audit_item list"
  sk_size :: nat
  sk_dropped :: nat
  sk_wake :: bool

definition NewSink :: audit_sink where
  "NewSink = \<lparr>sk_pending = [], sk_size = 0, sk_dropped = 0, sk_wake = False\<rparr>"

definition sizeOf :: "audit_item list \<Rightarrow> nat" where
  "sizeOf items = sum_list (map (\<lambda>(_, body). length body + 2) items)"

text \<open>\<open>encode\<close> is the event as JSON; \<^const>\<open>None\<close> is its error. \<open>sk_wake\<close> is the one-place channel.\<close>

definition is_full :: "audit_sink \<Rightarrow> bool" where
  "is_full s \<longleftrightarrow> length (sk_pending s) \<ge> maxItems \<or> sk_size s \<ge> maxSize"

text \<open>What \<open>Add\<close> does while it holds the lock, and whether it will wake the loop.\<close>

definition push_locked :: "audit_item \<Rightarrow> audit_sink \<Rightarrow> bool \<times> audit_sink" where
  "push_locked it s =
     (let pending = sk_pending s @ [it]; size = sk_size s + length (snd it) + 2;
          over = length pending - maxPending;
          s = (if length pending > maxPending
               then s\<lparr>sk_dropped := sk_dropped s + over, sk_pending := drop over pending,
                      sk_size := sizeOf (drop over pending)\<rparr>
               else s\<lparr>sk_pending := pending, sk_size := size\<rparr>)
      in (is_full s, s))"

definition kick :: "audit_sink \<Rightarrow> audit_sink" where
  "kick s = s\<lparr>sk_wake := True\<rparr>"

definition push_item :: "audit_item \<Rightarrow> audit_sink \<Rightarrow> audit_sink" where
  "push_item it s = (case push_locked it s of (full, s) \<Rightarrow> if full then kick s else s)"

definition sink_add ::
    "bool \<Rightarrow> (audit_event \<Rightarrow> string option) \<Rightarrow> string \<Rightarrow> request option \<Rightarrow> reply option \<Rightarrow> details \<Rightarrow>
     audit_sink \<Rightarrow> bool \<times> audit_sink" where
  "sink_add bus encode ts req rep det s =
     (case (bus, req, rep) of
        (True, Some q, Some r) \<Rightarrow>
          (case q_audit_subject q of
             None \<Rightarrow> (True, s)
           | Some subj \<Rightarrow>
               if subj = [] then (True, s)
               else (case encode (Build ts (Some q) (Some r) det) of
                       None \<Rightarrow> (False, s)
                     | Some body \<Rightarrow> (True, push_item (subj, body) s)))
      | _ \<Rightarrow> (True, s))"

definition flush_take :: "audit_sink \<Rightarrow> audit_item list \<times> audit_sink" where
  "flush_take s =
     (let n = min (length (sk_pending s)) maxItems
      in (take n (sk_pending s),
          s\<lparr>sk_pending := drop n (sk_pending s), sk_size := sizeOf (drop n (sk_pending s))\<rparr>))"

text \<open>The subjects in the order met, and the items of each.\<close>

fun group_order :: "string list \<Rightarrow> audit_item list \<Rightarrow> string list" where
  "group_order seen [] = seen"
| "group_order seen ((subj, body) # items) =
     group_order (if subj \<in> set seen then seen else seen @ [subj]) items"

definition groupBySubject :: "audit_item list \<Rightarrow> string list \<times> (string \<Rightarrow> audit_item list)" where
  "groupBySubject items = (group_order [] items, \<lambda>subj. filter (\<lambda>it. fst it = subj) items)"

definition publish_batch :: "audit_item list \<Rightarrow> (string \<times> audit_item list) list" where
  "publish_batch items =
     (if length items = 1 then [(fst (hd items), items)]
      else case groupBySubject items of (order, by_subject) \<Rightarrow> map (\<lambda>subj. (subj, by_subject subj)) order)"

text \<open>\<open>flush\<close> with nothing added meanwhile; each turn takes something, so it ends.\<close>

function sink_flush :: "audit_sink \<Rightarrow> (string \<times> audit_item list) list \<times> audit_sink" where
  "sink_flush s =
     (if sk_pending s = [] then ([], s)
      else case flush_take s of (items, s') \<Rightarrow>
        (case sink_flush s' of (msgs, s'') \<Rightarrow> (publish_batch items @ msgs, s'')))"
  by pat_completeness auto
termination
  by (relation "measure (\<lambda>s. length (sk_pending s))") (auto simp: flush_take_def Let_def)

declare sink_flush.simps [simp del]

section \<open>Counters\<close>

type_synonym counters = "(string, int) gomap"

definition stat_inc :: "string \<Rightarrow> counters \<Rightarrow> counters" where
  "stat_inc key c = AList.update key (i64 (map_get c key 0 + 1)) c"

definition stat_snapshot :: "counters \<Rightarrow> counters" where
  "stat_snapshot c = filter (\<lambda>(_, n). n \<noteq> 0) c"

definition stat_pairs :: "counters \<Rightarrow> (string \<times> int) list" where
  "stat_pairs c = (let snap = stat_snapshot c in map (\<lambda>k. (k, map_get snap k 0)) (sort (map fst snap)))"

section \<open>Lemmas\<close>

lemma sizeOf_append [simp]: "sizeOf (xs @ ys) = sizeOf xs + sizeOf ys"
  by (simp add: sizeOf_def)

lemma group_order_set: "set (group_order seen items) = set seen \<union> fst ` set items"
  by (induction seen items rule: group_order.induct) auto

lemma group_order_distinct: "distinct seen \<Longrightarrow> distinct (group_order seen items)"
  by (induction seen items rule: group_order.induct) auto

text \<open>A batch publishes each of its items once, on its own subject, in the order they were added.\<close>

lemma publish_subject:
  "concat (map snd (filter (\<lambda>m. fst m = subj) (publish_batch items))) = filter (\<lambda>it. fst it = subj) items"
proof (cases "length items = 1")
  case True
  then obtain it where "items = [it]" by (cases items) auto
  then show ?thesis by (simp add: publish_batch_def)
next
  case False
  have pick: "concat (map snd (filter (\<lambda>m. fst m = subj) (map (\<lambda>x. (x, f x)) xs))) =
      (if subj \<in> set xs then f subj else [])" if "distinct xs" for f :: "string \<Rightarrow> audit_item list" and xs
    using that by (induction xs) auto
  have "subj \<notin> fst ` set items \<Longrightarrow> filter (\<lambda>it. fst it = subj) items = []"
    by (auto simp: filter_empty_conv)
  then show ?thesis
    using False pick [OF group_order_distinct [of "[]" items]] group_order_set [of "[]" items]
    by (simp add: publish_batch_def groupBySubject_def)
qed

lemma publish_sound: "m \<in> set (publish_batch items) \<Longrightarrow> items \<noteq> [] \<Longrightarrow>
    snd m \<noteq> [] \<and> length (snd m) \<le> length items \<and> (\<forall>it \<in> set (snd m). fst it = fst m)"
proof -
  assume m: "m \<in> set (publish_batch items)" and ne: "items \<noteq> []"
  show ?thesis
  proof (cases "length items = 1")
    case True
    then obtain it where "items = [it]" by (cases items) auto
    with m show ?thesis by (simp add: publish_batch_def)
  next
    case False
    with m obtain subj where s: "subj \<in> fst ` set items" "m = (subj, filter (\<lambda>it. fst it = subj) items)"
      using group_order_set [of "[]" items] by (auto simp: publish_batch_def groupBySubject_def)
    then show ?thesis by (auto simp: filter_empty_conv)
  qed
qed

section \<open>The life of a sink\<close>

text \<open>What happens to a sink, and what was pushed and published so far.\<close>

datatype sink_event = Pushed audit_item | Flushed

fun sink_run :: "sink_event list \<Rightarrow> audit_sink \<Rightarrow> (string \<times> audit_item list) list \<times> audit_sink" where
  "sink_run [] s = ([], s)"
| "sink_run (Pushed it # es) s = sink_run es (push_item it s)"
| "sink_run (Flushed # es) s =
     (case sink_flush s of (msgs, s') \<Rightarrow> (case sink_run es s' of (rest, s'') \<Rightarrow> (msgs @ rest, s'')))"

definition pushed :: "sink_event list \<Rightarrow> audit_item list" where
  "pushed es = concat (map (\<lambda>e. case e of Pushed it \<Rightarrow> [it] | Flushed \<Rightarrow> []) es)"

lemma pushed_simps [simp]:
  "pushed [] = []" "pushed (Pushed it # es) = it # pushed es" "pushed (Flushed # es) = pushed es"
  by (simp_all add: pushed_def)

definition on_subject :: "string \<Rightarrow> audit_item list \<Rightarrow> audit_item list" where
  "on_subject subj items = filter (\<lambda>it. fst it = subj) items"

definition sent_on :: "string \<Rightarrow> (string \<times> audit_item list) list \<Rightarrow> audit_item list" where
  "sent_on subj msgs = concat (map snd (filter (\<lambda>m. fst m = subj) msgs))"

lemma sent_on_simps [simp]: "sent_on subj [] = []" "sent_on subj (a @ b) = sent_on subj a @ sent_on subj b"
  by (simp_all add: sent_on_def)

lemma sent_batch: "sent_on subj (publish_batch items) = on_subject subj items"
  by (simp add: sent_on_def on_subject_def publish_subject)

lemma flush_sends:
  "sent_on subj (fst (sink_flush s)) = on_subject subj (sk_pending s) \<and>
   sk_pending (snd (sink_flush s)) = [] \<and> sk_dropped (snd (sink_flush s)) = sk_dropped s \<and>
   (sk_size s = sizeOf (sk_pending s) \<longrightarrow> sk_size (snd (sink_flush s)) = 0) \<and>
   (\<forall>m \<in> set (fst (sink_flush s)). snd m \<noteq> [] \<and> length (snd m) \<le> maxItems \<and> (\<forall>it \<in> set (snd m). fst it = fst m))"
proof (induction s rule: sink_flush.induct)
  case (1 s)
  show ?case
  proof (cases "sk_pending s = []")
    case True
    then show ?thesis by (simp add: sink_flush.simps [of s] on_subject_def sizeOf_def)
  next
    case False
    obtain items s' where t: "flush_take s = (items, s')" by fastforce
    then have i: "items = take maxItems (sk_pending s)" "sk_pending s' = drop maxItems (sk_pending s)"
      "sk_dropped s' = sk_dropped s" "sk_size s' = sizeOf (sk_pending s')"
      by (auto simp: flush_take_def Let_def min_def)
    obtain msgs s'' where f: "sink_flush s' = (msgs, s'')" by fastforce
    have IH: "sent_on subj msgs = on_subject subj (sk_pending s')" "sk_pending s'' = []"
      "sk_dropped s'' = sk_dropped s'" "sk_size s'' = 0"
      "\<forall>m \<in> set msgs. snd m \<noteq> [] \<and> length (snd m) \<le> maxItems \<and> (\<forall>it \<in> set (snd m). fst it = fst m)"
      using "1.IH" [OF False t [symmetric]] f i(4) by auto
    have "on_subject subj items @ on_subject subj (sk_pending s') = on_subject subj (sk_pending s)"
      unfolding i on_subject_def filter_append [symmetric] append_take_drop_id ..
    moreover have "items \<noteq> []" "length items \<le> maxItems" using False i(1) by auto
    moreover have "sink_flush s = (publish_batch items @ msgs, s'')"
      using False t f by (simp add: sink_flush.simps [of s])
    ultimately show ?thesis
      using IH i(3) publish_sound [of _ items] by (fastforce simp: sent_batch)
  qed
qed

definition sink_ok :: "audit_sink \<Rightarrow> bool" where
  "sink_ok s \<longleftrightarrow> length (sk_pending s) \<le> maxPending \<and> sk_size s = sizeOf (sk_pending s)"

lemma sizeOf_one: "sizeOf [it] = length (snd it) + 2"
  by (simp add: sizeOf_def split: prod.split)

lemma push_locked_ok:
  assumes "sink_ok s" "push_locked it s = (full, s')"
  shows "sink_ok s' \<and> full = is_full s' \<and> sk_wake s' = sk_wake s \<and> sk_dropped s \<le> sk_dropped s' \<and>
     (\<exists>n. sk_pending s' = drop n (sk_pending s @ [it]) \<and> sk_dropped s' = sk_dropped s + n)"
proof (cases "length (sk_pending s @ [it]) > maxPending")
  case True
  let ?n = "length (sk_pending s @ [it]) - maxPending"
  have "sk_pending s' = drop ?n (sk_pending s @ [it])" "sk_dropped s' = sk_dropped s + ?n"
    "sk_size s' = sizeOf (drop ?n (sk_pending s @ [it]))" "sk_wake s' = sk_wake s" "full = is_full s'"
    using True assms(2) by (auto simp: push_locked_def Let_def)
  then show ?thesis using True by (intro conjI exI [of _ ?n]) (auto simp: sink_ok_def)
next
  case False
  then show ?thesis
    using assms by (auto simp: push_locked_def sink_ok_def Let_def sizeOf_one intro!: exI [of _ 0])
qed

lemma push_ok:
  assumes "sink_ok s"
  shows "sink_ok (push_item it s) \<and> sk_dropped s \<le> sk_dropped (push_item it s) \<and>
     (\<exists>n. sk_pending (push_item it s) = drop n (sk_pending s @ [it]) \<and>
       sk_dropped (push_item it s) = sk_dropped s + n)"
proof -
  obtain full s' where p: "push_locked it s = (full, s')" by fastforce
  show ?thesis using push_locked_ok [OF assms p] by (auto simp: push_item_def p kick_def sink_ok_def)
qed

lemma on_subject_append [simp]: "on_subject subj (a @ b) = on_subject subj a @ on_subject subj b"
  by (simp add: on_subject_def)

lemma on_subject_drop: "subseq (on_subject subj (drop n xs)) (on_subject subj xs)"
proof -
  have "subseq (drop n xs) xs" by (metis append_take_drop_id list_emb_append2 subseq_order.order_refl)
  then show ?thesis unfolding on_subject_def by (rule subseq_filter)
qed

lemma sink_run_ok:
  "sink_ok s \<Longrightarrow> sink_run es s = (msgs, s') \<Longrightarrow>
     sink_ok s' \<and> sk_dropped s \<le> sk_dropped s' \<and>
     subseq (sent_on subj msgs @ on_subject subj (sk_pending s')) (on_subject subj (sk_pending s @ pushed es)) \<and>
     (sk_dropped s' = sk_dropped s \<longrightarrow>
        sent_on subj msgs @ on_subject subj (sk_pending s') = on_subject subj (sk_pending s @ pushed es)) \<and>
     (\<forall>m \<in> set msgs. snd m \<noteq> [] \<and> length (snd m) \<le> maxItems \<and> (\<forall>it \<in> set (snd m). fst it = fst m))"
proof (induction es s arbitrary: msgs s' rule: sink_run.induct)
  case (1 s)
  then show ?case by simp
next
  case (2 it es s)
  let ?p = "push_item it s"
  obtain n where n: "sink_ok ?p" "sk_pending ?p = drop n (sk_pending s @ [it])" "sk_dropped ?p = sk_dropped s + n"
    using push_ok [OF 2(2), of it] by blast
  have ih: "sink_ok s' \<and> sk_dropped ?p \<le> sk_dropped s' \<and>
     subseq (sent_on subj msgs @ on_subject subj (sk_pending s')) (on_subject subj (sk_pending ?p @ pushed es)) \<and>
     (sk_dropped s' = sk_dropped ?p \<longrightarrow>
        sent_on subj msgs @ on_subject subj (sk_pending s') = on_subject subj (sk_pending ?p @ pushed es)) \<and>
     (\<forall>m \<in> set msgs. snd m \<noteq> [] \<and> length (snd m) \<le> maxItems \<and> (\<forall>it \<in> set (snd m). fst it = fst m))"
    using 2(1) [OF n(1)] 2(3) by simp
  have "subseq (on_subject subj (sk_pending ?p)) (on_subject subj (sk_pending s @ [it]))"
    unfolding n(2) by (rule on_subject_drop)
  from list_emb_append_mono [OF this subseq_order.order_refl [of "on_subject subj (pushed es)"]]
  have "subseq (on_subject subj (sk_pending ?p @ pushed es)) (on_subject subj (sk_pending s @ pushed (Pushed it # es)))"
    unfolding on_subject_append [symmetric] by simp
  moreover have "n = 0 \<Longrightarrow> sk_pending ?p @ pushed es = sk_pending s @ pushed (Pushed it # es)"
    using n(2) by simp
  ultimately show ?case
    using ih n(3) subseq_order.order_trans by fastforce
next
  case (3 es s)
  obtain m1 s1 where f: "sink_flush s = (m1, s1)" by fastforce
  obtain m2 where r: "sink_run es s1 = (m2, s')" "msgs = m1 @ m2"
    using 3(3) f by (auto split: prod.splits)
  have fl: "sent_on subj m1 = on_subject subj (sk_pending s)" "sk_pending s1 = []" "sk_dropped s1 = sk_dropped s"
    "sk_size s1 = 0"
    "\<forall>m \<in> set m1. snd m \<noteq> [] \<and> length (snd m) \<le> maxItems \<and> (\<forall>it \<in> set (snd m). fst it = fst m)"
    using flush_sends [of subj s] f 3(2) by (auto simp: sink_ok_def)
  have ok1: "sink_ok s1" using fl by (simp add: sink_ok_def sizeOf_def)
  note ih = 3(1) [OF f [symmetric] ok1 r(1)]
  show ?case
    using ih fl r(2) by (auto simp: on_subject_def intro: list_emb_append_mono)
qed

section \<open>Properties\<close>

text \<open>The audit loses nothing silently. Whatever is added and whenever the sink flushes, on every
  subject the events sent, followed by those still held, are the events added, in order and once
  each, as long as the drop counter has not moved; and when it has (more than 50000 held), what is
  left out is from the old end, the rest keeping its order. Every message carries between 1 and 256
  events of its own subject, and the size the sink accounts is the size it holds.\<close>

theorem audit_in_order:
  assumes "sink_run es NewSink = (msgs, s)"
  shows "subseq (sent_on subj msgs @ on_subject subj (sk_pending s)) (on_subject subj (pushed es)) \<and>
     (sk_dropped s = 0 \<longrightarrow>
        sent_on subj msgs @ on_subject subj (sk_pending s) = on_subject subj (pushed es)) \<and>
     (\<forall>m \<in> set msgs. snd m \<noteq> [] \<and> length (snd m) \<le> maxItems \<and> (\<forall>it \<in> set (snd m). fst it = fst m)) \<and>
     length (sk_pending s) \<le> maxPending \<and> sk_size s = sizeOf (sk_pending s)"
proof -
  have "sink_ok NewSink" by (simp add: sink_ok_def NewSink_def sizeOf_def)
  from sink_run_ok [OF this assms, of subj] show ?thesis by (simp add: sink_ok_def NewSink_def)
qed

theorem audit_in_order_witness:
  "\<exists>msgs s. sink_run [Pushed (''a'', ''1''), Pushed (''b'', ''2''), Flushed, Pushed (''a'', ''3'')] NewSink = (msgs, s) \<and>
     subseq (sent_on ''a'' msgs @ on_subject ''a'' (sk_pending s)) [(''a'', ''1''), (''a'', ''3'')]"
proof -
  let ?es = "[Pushed (''a'', ''1''), Pushed (''b'', ''2''), Flushed, Pushed (''a'', ''3'')]"
  obtain msgs s where r: "sink_run ?es NewSink = (msgs, s)" by fastforce
  have "on_subject ''a'' (pushed ?es) = [(''a'', ''1''), (''a'', ''3'')]" by (simp add: on_subject_def)
  with audit_in_order [OF r, of "''a''"] r show ?thesis by auto
qed

end
