(* ===== verification/Profiles.thy ===== *)
theory Profiles
  imports Validate Sha256
begin

text \<open>
  Package \<open>internal/config\<close>, file \<open>profiles.go\<close>: the snapshot of all profiles read from a directory,
  and the store that publishes it.

  The directory is data: its entries with what reading \<open>profile.yaml\<close> and \<open>captcha.html\<close> of each gives,
  and the walk the fingerprint takes. The YAML decoder and the template parser are parameters; a page
  that parses is represented by its text.
\<close>

datatype file_read = Missing | ReadError | Content string

record dir_entry =
  de_name :: string
  de_is_dir :: bool
  de_profile :: file_read
  de_page :: file_read

text \<open>A directory: \<open>os.ReadDir\<close>, and the files of \<open>filepath.WalkDir\<close> with path, size and time.\<close>

record conf_dir =
  cd_entries :: "dir_entry list option"
  cd_walk :: "(string \<times> int \<times> int) list option"

record snapshot =
  sn_gen :: int
  sn_fingerprint :: string
  sn_by_name :: "(string, profile) gomap"
  sn_by_path :: "(string, profile) gomap"
  sn_names :: "string list"
  sn_roster :: roster_cfg
  sn_limits :: limits

datatype read_error =
    DirError
  | FileError string
  | ParseError string
  | PageParse string
  | Invalid string profile_error
  | NoDefault
  | RosterDiffers string
  | LimitsDiffer string
  | WalkError

section \<open>Reading a snapshot\<close>

definition snap_profile :: "snapshot option \<Rightarrow> string \<Rightarrow> profile option" where
  "snap_profile s name =
     (case s of None \<Rightarrow> None
      | Some sn \<Rightarrow> map_of (sn_by_name sn) (if name = [] then DefaultName else name))"

definition ByPath :: "snapshot option \<Rightarrow> string \<Rightarrow> profile option" where
  "ByPath s uri = (case s of None \<Rightarrow> None | Some sn \<Rightarrow> map_of (sn_by_path sn) uri)"

definition All :: "snapshot option \<Rightarrow> profile list" where
  "All s = (case s of None \<Rightarrow> [] | Some sn \<Rightarrow> map (\<lambda>n. the (map_of (sn_by_name sn) n)) (sn_names sn))"

definition snap_names :: "snapshot option \<Rightarrow> string list" where
  "snap_names s = (case s of None \<Rightarrow> [] | Some sn \<Rightarrow> sn_names sn)"

definition attachPage :: "(string \<Rightarrow> bool) \<Rightarrow> profile \<Rightarrow> file_read \<Rightarrow> read_error + profile" where
  "attachPage parses p page =
     (case page of
        Missing \<Rightarrow> Inr p
      | ReadError \<Rightarrow> Inl (FileError (p_name p))
      | Content t \<Rightarrow> if parses t then Inr (p\<lparr>p_page := Some t\<rparr>) else Inl (PageParse (p_name p)))"

type_synonym decoder = "profile \<Rightarrow> string \<Rightarrow> profile option"

record loading =
  lo_by_name :: "(string, profile) gomap"
  lo_by_path :: "(string, profile) gomap"
  lo_names :: "string list"

definition add_profile :: "string \<Rightarrow> profile \<Rightarrow> loading \<Rightarrow> loading" where
  "add_profile name p lo =
     \<lparr>lo_by_name = AList.update name p (lo_by_name lo),
      lo_by_path = (if p_path p \<noteq> [] \<and> map_of (lo_by_path lo) (p_path p) = None
                    then AList.update (p_path p) p (lo_by_path lo) else lo_by_path lo),
      lo_names = lo_names lo @ [name]\<rparr>"

text \<open>One entry of the directory.\<close>

definition load_entry ::
    "decoder \<Rightarrow> (string \<Rightarrow> bool) \<Rightarrow> dir_entry \<Rightarrow> loading \<Rightarrow> read_error + loading" where
  "load_entry decode parses e lo =
     (if \<not> de_is_dir e then Inr lo
      else case de_profile e of
        Missing \<Rightarrow> Inr lo
      | ReadError \<Rightarrow> Inl (FileError (de_name e))
      | Content raw \<Rightarrow>
          (case ParseProfile decode (de_name e) raw of
             None \<Rightarrow> Inl (ParseError (de_name e))
           | Some p \<Rightarrow>
               (case attachPage parses p (de_page e) of
                  Inl err \<Rightarrow> Inl err
                | Inr p \<Rightarrow>
                    (case ValidateProfile p of
                       (Some err, _) \<Rightarrow> Inl (Invalid (de_name e) err)
                     | (None, p) \<Rightarrow> Inr (add_profile (de_name e) p lo)))))"

fun load_entries ::
    "decoder \<Rightarrow> (string \<Rightarrow> bool) \<Rightarrow> dir_entry list \<Rightarrow> loading \<Rightarrow> read_error + loading" where
  "load_entries decode parses [] lo = Inr lo"
| "load_entries decode parses (e # es) lo =
     (case load_entry decode parses e lo of
        Inl err \<Rightarrow> Inl err
      | Inr lo \<Rightarrow> load_entries decode parses es lo)"

definition fingerprint :: "conf_dir \<Rightarrow> string option" where
  "fingerprint d =
     (case cd_walk d of
        None \<Rightarrow> None
      | Some files \<Rightarrow>
          Some (hex_encode (take 8 (sha256 (concat (map (\<lambda>(rel, size, mtime).
            rel @ [CHR 0x00] @ format_int size @ [CHR 0x00] @ format_int mtime @ [CHR 0x00]) files))))))"

definition add_probe :: "profile \<Rightarrow> loading \<Rightarrow> loading" where
  "add_probe def lo =
     (if map_of (lo_by_name lo) ProbeName = None
      then lo\<lparr>lo_by_name := AList.update ProbeName (probeVariant def) (lo_by_name lo),
              lo_names := lo_names lo @ [ProbeName]\<rparr>
      else lo)"

definition read_snapshot ::
    "decoder \<Rightarrow> (string \<Rightarrow> bool) \<Rightarrow> conf_dir \<Rightarrow> int \<Rightarrow> read_error + snapshot" where
  "read_snapshot decode parses d gen =
     (case cd_entries d of
        None \<Rightarrow> Inl DirError
      | Some es \<Rightarrow>
          (case load_entries decode parses es \<lparr>lo_by_name = [], lo_by_path = [], lo_names = []\<rparr> of
             Inl err \<Rightarrow> Inl err
           | Inr lo \<Rightarrow>
               (case map_of (lo_by_name lo) DefaultName of
                  None \<Rightarrow> Inl NoDefault
                | Some def \<Rightarrow>
                    let lo = add_probe def lo;
                        at_name = (\<lambda>n. the (map_of (lo_by_name lo) n))
                    in case find (\<lambda>n. p_roster (at_name n) \<noteq> p_roster def) (lo_names lo) of
                         Some n \<Rightarrow> Inl (RosterDiffers n)
                       | None \<Rightarrow>
                           (case find (\<lambda>n. p_limits (at_name n) \<noteq> p_limits def) (lo_names lo) of
                              Some n \<Rightarrow> Inl (LimitsDiffer n)
                            | None \<Rightarrow>
                                (case fingerprint d of
                                   None \<Rightarrow> Inl WalkError
                                 | Some fp \<Rightarrow>
                                     Inr \<lparr>sn_gen = i64 (gen + 1), sn_fingerprint = fp,
                                          sn_by_name = lo_by_name lo, sn_by_path = lo_by_path lo,
                                          sn_names = sort (lo_names lo), sn_roster = p_roster def,
                                          sn_limits = p_limits def\<rparr>)))))"

section \<open>The store\<close>

record prof_store =
  ps_dir :: string
  ps_cur :: snapshot
  ps_gen :: int

text \<open>\<open>disk\<close> is the file system at the moment of the call.\<close>

definition LoadProfiles ::
    "decoder \<Rightarrow> (string \<Rightarrow> bool) \<Rightarrow> (string \<Rightarrow> conf_dir) \<Rightarrow> string \<Rightarrow> read_error + prof_store" where
  "LoadProfiles decode parses disk dir =
     (case read_snapshot decode parses (disk dir) 0 of
        Inl err \<Rightarrow> Inl err
      | Inr sn \<Rightarrow> Inr \<lparr>ps_dir = dir, ps_cur = sn, ps_gen = sn_gen sn\<rparr>)"

definition ReloadFrom ::
    "decoder \<Rightarrow> (string \<Rightarrow> bool) \<Rightarrow> (string \<Rightarrow> conf_dir) \<Rightarrow> string \<Rightarrow> prof_store \<Rightarrow>
     read_error option \<times> prof_store" where
  "ReloadFrom decode parses disk dir s =
     (case read_snapshot decode parses (disk dir) (ps_gen s) of
        Inl err \<Rightarrow> (Some err, s)
      | Inr sn \<Rightarrow> (None, \<lparr>ps_dir = dir, ps_cur = sn, ps_gen = sn_gen sn\<rparr>))"

definition Reload ::
    "decoder \<Rightarrow> (string \<Rightarrow> bool) \<Rightarrow> (string \<Rightarrow> conf_dir) \<Rightarrow> prof_store \<Rightarrow>
     (read_error + bool) \<times> prof_store" where
  "Reload decode parses disk s =
     (case fingerprint (disk (ps_dir s)) of
        None \<Rightarrow> (Inl WalkError, s)
      | Some fp \<Rightarrow>
          if sn_fingerprint (ps_cur s) = fp then (Inr False, s)
          else (case read_snapshot decode parses (disk (ps_dir s)) (ps_gen s) of
                  Inl err \<Rightarrow> (Inl err, s)
                | Inr sn \<Rightarrow> (Inr True, s\<lparr>ps_cur := sn, ps_gen := sn_gen sn\<rparr>)))"

section \<open>What a snapshot guarantees\<close>

definition loading_ok :: "loading \<Rightarrow> bool" where
  "loading_ok lo \<longleftrightarrow>
     (\<forall>n p. map_of (lo_by_name lo) n = Some p \<longrightarrow> ValidateProfile p = (None, p)) \<and>
     set (lo_names lo) = dom (map_of (lo_by_name lo)) \<and>
     (\<forall>u p. map_of (lo_by_path lo) u = Some p \<longrightarrow>
        p_path p = u \<and> u \<noteq> [] \<and> ValidateProfile p = (None, p))"

lemma add_profile_ok:
  "loading_ok lo \<Longrightarrow> ValidateProfile p = (None, p) \<Longrightarrow> loading_ok (add_profile name p lo)"
  by (auto simp: loading_ok_def add_profile_def update_conv' split: if_splits)

lemma load_entry_ok:
  assumes "loading_ok lo" "load_entry decode parses e lo = Inr lo'"
  shows "loading_ok lo'"
proof (cases "lo' = lo")
  case False
  with assms(2) obtain p q where "ValidateProfile p = (None, q)" "lo' = add_profile (de_name e) q lo"
    by (auto simp: load_entry_def split: if_splits file_read.splits option.splits sum.splits prod.splits)
  with assms(1) validated_self show ?thesis by (auto intro: add_profile_ok)
qed (use assms in simp)

lemma load_entries_ok:
  "loading_ok lo \<Longrightarrow> load_entries decode parses es lo = Inr lo' \<Longrightarrow> loading_ok lo'"
proof (induction es arbitrary: lo)
  case Nil
  then show ?case by simp
next
  case (Cons e es)
  then obtain lo1 where "load_entry decode parses e lo = Inr lo1" "load_entries decode parses es lo1 = Inr lo'"
    by (auto split: sum.splits)
  with Cons load_entry_ok show ?case by blast
qed

definition snapshot_ok :: "snapshot \<Rightarrow> bool" where
  "snapshot_ok sn \<longleftrightarrow>
     (\<forall>n p. map_of (sn_by_name sn) n = Some p \<longrightarrow>
        ValidateProfile p = (None, p) \<and> p_roster p = sn_roster sn \<and> p_limits p = sn_limits sn) \<and>
     map_of (sn_by_name sn) DefaultName \<noteq> None \<and> map_of (sn_by_name sn) ProbeName \<noteq> None \<and>
     set (sn_names sn) = dom (map_of (sn_by_name sn)) \<and> sorted (sn_names sn) \<and>
     (\<forall>u p. map_of (sn_by_path sn) u = Some p \<longrightarrow>
        p_path p = u \<and> u \<noteq> [] \<and> ValidateProfile p = (None, p))"

lemma add_probe_ok:
  assumes "loading_ok lo" "map_of (lo_by_name lo) DefaultName = Some def"
  shows "loading_ok (add_probe def lo) \<and> map_of (lo_by_name (add_probe def lo)) ProbeName \<noteq> None \<and>
     map_of (lo_by_name (add_probe def lo)) DefaultName = Some def"
proof -
  have v: "ValidateProfile def = (None, def)" using assms by (auto simp: loading_ok_def)
  have "ValidateProfile (probeVariant def) = (None, probeVariant def)"
    using probe_validates [OF v] by simp
  with assms show ?thesis
    by (auto simp: add_probe_def loading_ok_def update_conv')
qed

lemma read_snapshot_ok:
  assumes "read_snapshot decode parses d gen = Inr sn"
  shows "snapshot_ok sn \<and> sn_gen sn = i64 (gen + 1) \<and> fingerprint d = Some (sn_fingerprint sn)"
proof -
  obtain es lo def fp where
    lo: "load_entries decode parses es \<lparr>lo_by_name = [], lo_by_path = [], lo_names = []\<rparr> = Inr lo"
    and d: "map_of (lo_by_name lo) DefaultName = Some def" and fp: "fingerprint d = Some fp"
    and ro: "find (\<lambda>n. p_roster (the (map_of (lo_by_name (add_probe def lo)) n)) \<noteq> p_roster def)
        (lo_names (add_probe def lo)) = None"
    and li: "find (\<lambda>n. p_limits (the (map_of (lo_by_name (add_probe def lo)) n)) \<noteq> p_limits def)
        (lo_names (add_probe def lo)) = None"
    and sn: "sn = \<lparr>sn_gen = i64 (gen + 1), sn_fingerprint = fp, sn_by_name = lo_by_name (add_probe def lo),
        sn_by_path = lo_by_path (add_probe def lo), sn_names = sort (lo_names (add_probe def lo)),
        sn_roster = p_roster def, sn_limits = p_limits def\<rparr>"
    using assms
    by (auto simp: read_snapshot_def Let_def split: option.splits sum.splits)
  have "loading_ok \<lparr>lo_by_name = [], lo_by_path = [], lo_names = []\<rparr>" by (simp add: loading_ok_def)
  then have "loading_ok lo" using lo by (rule load_entries_ok)
  note ok = add_probe_ok [OF this d]
  have same: "p_roster p = p_roster def \<and> p_limits p = p_limits def"
    if "map_of (lo_by_name (add_probe def lo)) n = Some p" for n p
  proof -
    have "n \<in> set (lo_names (add_probe def lo))" using ok that by (auto simp: loading_ok_def)
    then show ?thesis using ro li that by (auto simp: find_None_iff)
  qed
  show ?thesis
    using ok same fp by (auto simp: sn snapshot_ok_def loading_ok_def)
qed

section \<open>The life of the store\<close>

datatype store_op = DoReload | DoReloadFrom string

text \<open>Each operation meets the file system as it is then.\<close>

fun store_step ::
    "decoder \<Rightarrow> (string \<Rightarrow> bool) \<Rightarrow> (string \<Rightarrow> conf_dir) \<times> store_op \<Rightarrow> prof_store \<Rightarrow> prof_store" where
  "store_step decode parses (disk, DoReload) s = snd (Reload decode parses disk s)"
| "store_step decode parses (disk, DoReloadFrom dir) s = snd (ReloadFrom decode parses disk dir s)"

definition store_run ::
    "decoder \<Rightarrow> (string \<Rightarrow> bool) \<Rightarrow> ((string \<Rightarrow> conf_dir) \<times> store_op) list \<Rightarrow> prof_store \<Rightarrow> prof_store" where
  "store_run decode parses ops s = fold (store_step decode parses) ops s"

lemma store_step_ok:
  "snapshot_ok (ps_cur s) \<Longrightarrow> snapshot_ok (ps_cur (store_step decode parses op s))"
  by (cases "(decode, parses, op, s)" rule: store_step.cases)
    (auto simp: Reload_def ReloadFrom_def dest: read_snapshot_ok split: option.split sum.split)

lemma store_run_ok:
  "snapshot_ok (ps_cur s) \<Longrightarrow> snapshot_ok (ps_cur (store_run decode parses ops s))"
  by (induction ops arbitrary: s) (simp_all add: store_run_def store_step_ok)

section \<open>Properties\<close>

definition store_ok :: "prof_store \<Rightarrow> bool" where
  "store_ok s \<longleftrightarrow> snapshot_ok (ps_cur s) \<and> sn_gen (ps_cur s) = ps_gen s"

lemma store_step_inv: "store_ok s \<Longrightarrow> store_ok (store_step decode parses op s)"
  by (cases "(decode, parses, op, s)" rule: store_step.cases)
    (auto simp: store_ok_def Reload_def ReloadFrom_def dest: read_snapshot_ok split: option.split sum.split)

lemma store_run_inv: "store_ok s \<Longrightarrow> store_ok (store_run decode parses ops s)"
  by (induction ops arbitrary: s) (simp_all add: store_run_def store_step_inv)

lemma load_ok: "LoadProfiles decode parses disk dir = Inr s \<Longrightarrow> store_ok s"
  by (auto simp: LoadProfiles_def store_ok_def dest: read_snapshot_ok split: sum.splits)

text \<open>C37: What the process serves from. After the first load, and after any sequence of reloads and changes
  of directory, each meeting whatever the disk then holds, the published snapshot has a default profile
  and a probe profile; every profile in it passes validation unchanged and shares the roster and the
  limits of the default one; a path leads only to a validated profile with that path; and the names
  are sorted and exactly those of the profiles.\<close>

theorem published_profiles:
  assumes "LoadProfiles decode parses disk dir = Inr s0"
    and "sn = ps_cur (store_run decode parses ops s0)"
  shows "snap_profile (Some sn) [] \<noteq> None \<and> snap_profile (Some sn) ProbeName \<noteq> None \<and>
    (\<forall>n p. snap_profile (Some sn) n = Some p \<longrightarrow>
       ValidateProfile p = (None, p) \<and> p_roster p = sn_roster sn \<and> p_limits p = sn_limits sn) \<and>
    (\<forall>u p. ByPath (Some sn) u = Some p \<longrightarrow> u \<noteq> [] \<and> p_path p = u \<and> ValidateProfile p = (None, p)) \<and>
    sorted (snap_names (Some sn)) \<and>
    (\<forall>n. n \<noteq> [] \<longrightarrow> n \<in> set (snap_names (Some sn)) \<longleftrightarrow> snap_profile (Some sn) n \<noteq> None)"
proof -
  have "snapshot_ok sn"
    using store_run_inv [OF load_ok [OF assms(1)]] by (simp add: store_ok_def assms(2))
  then show ?thesis
    by (simp add: snapshot_ok_def snap_profile_def ByPath_def snap_names_def set_eq_iff domIff)
qed

definition toy_decode :: decoder where
  "toy_decode def raw = (if raw = ''sample'' then Some sample_profile else None)"

definition toy_dir :: conf_dir where
  "toy_dir = \<lparr>cd_entries = Some [\<lparr>de_name = DefaultName, de_is_dir = True, de_profile = Content ''sample'',
                                   de_page = Missing\<rparr>],
              cd_walk = Some [(''sample'', 6, 0)]\<rparr>"

lemma toy_load:
  "\<exists>s. LoadProfiles toy_decode (\<lambda>_. True) (\<lambda>_. toy_dir) ''/etc'' = Inr s \<and>
     snap_profile (Some (ps_cur s)) [] = Some (fill_grace (sample_profile\<lparr>p_name := DefaultName\<rparr>))"
proof -
  let ?p = "sample_profile\<lparr>p_name := DefaultName\<rparr>"
  have "ParseProfile toy_decode DefaultName ''sample'' = Some ?p"
    by (simp add: ParseProfile_def toy_decode_def sample_profile_def defaults_def providerDefaults_def Let_def)
  then have "load_entries toy_decode (\<lambda>_. True) (the (cd_entries toy_dir))
      \<lparr>lo_by_name = [], lo_by_path = [], lo_names = []\<rparr> =
    Inr (add_profile DefaultName (fill_grace ?p) \<lparr>lo_by_name = [], lo_by_path = [], lo_names = []\<rparr>)"
    by (simp add: toy_dir_def load_entry_def attachPage_def sample_named_valid)
  then show ?thesis
    by (simp add: LoadProfiles_def read_snapshot_def toy_dir_def add_profile_def add_probe_def Let_def
        fingerprint_def snap_profile_def probeVariant_def update_conv')
qed

theorem published_profiles_witness:
  "\<exists>p. ValidateProfile p = (None, p) \<and> p_name p = DefaultName"
proof -
  obtain s where s: "LoadProfiles toy_decode (\<lambda>_. True) (\<lambda>_. toy_dir) ''/etc'' = Inr s"
    "snap_profile (Some (ps_cur s)) [] = Some (fill_grace (sample_profile\<lparr>p_name := DefaultName\<rparr>))"
    using toy_load by blast
  have "ps_cur s = ps_cur (store_run toy_decode (\<lambda>_. True) [] s)" by (simp add: store_run_def)
  from published_profiles [OF s(1) this] s(2)
  have "ValidateProfile (fill_grace (sample_profile\<lparr>p_name := DefaultName\<rparr>)) =
      (None, fill_grace (sample_profile\<lparr>p_name := DefaultName\<rparr>))" by blast
  then show ?thesis
    by (intro exI [of _ "fill_grace (sample_profile\<lparr>p_name := DefaultName\<rparr>)"])
      (simp add: fill_grace_def)
qed

text \<open>A file that changes between the reading of the profiles and the walk of the fingerprint: the snapshot
  has the old content under the new fingerprint, and no reload looks again while the files stay as they are.\<close>

lemma torn_read_sticks:
  assumes "read_snapshot decode parses (later\<lparr>cd_entries := cd_entries earlier\<rparr>) gen = Inr sn"
    and "ps_cur s = sn" "disk (ps_dir s) = later"
  shows "Reload decode parses disk s = (Inr False, s)"
proof -
  have "fingerprint (later\<lparr>cd_entries := cd_entries earlier\<rparr>) = Some (sn_fingerprint sn)"
    using read_snapshot_ok [OF assms(1)] by blast
  then have "fingerprint later = Some (sn_fingerprint sn)" by (simp add: fingerprint_def)
  with assms(2,3) show ?thesis by (simp add: Reload_def)
qed

end
