(* ===== verification/Handler.thy ===== *)
theory Handler
  imports Subjects Store AuditLog Profiles Queue
begin

text \<open>
  Package \<open>cmd/inspector\<close>, files \<open>handler.go\<close> and \<open>form.go\<close>: what the inspector does with one message,
  from the bytes to the reply: parsing, the pool, the store, the buckets, the decision, the form placed
  in the store, the rules that fire, the reply and its audit event.

  The record \<open>hand\<close> holds the handler's fields, with what the services behind them answer during the
  call (store, geo, form page, JSON, random bytes); one clock reading serves the whole call. The record
  \<open>world\<close> is the state the calls share: buckets, counters, audit sink, published replies, list writes and
  stored forms. Logging is left out. A panic is \<^const>\<open>None\<close> and is what \<open>recoverInto\<close> sees.
\<close>

abbreviation "codeUnsupportedVersion \<equiv> ''CAPTCHA_UNSUPPORTED_VERSION''"
abbreviation "codeMalformed \<equiv> ''CAPTCHA_MALFORMED_REQUEST''"
abbreviation "codeInternalError \<equiv> ''CAPTCHA_INTERNAL_ERROR''"

section \<open>State\<close>

text \<open>The request for the widget page. The HTTP client answers with an error, or with a status, the body
  or the error of reading it, and the \<open>Content-Type\<close> header. A URL that does not parse is an error too.\<close>

record form_request =
  fr_url :: string
  fr_cookie :: string
  fr_forwarded_for :: string
  fr_accept :: string
  fr_user_agent :: "string option"

record fetcher =
  ff_base :: string
  ff_do :: "form_request \<Rightarrow> string + int \<times> (string + string) \<times> string"

record 'info hand =
  ha_name :: string
  ha_versions :: "int list"
  ha_token :: token_key
  ha_snapshot :: snapshot
  ha_store :: "store_client option"
  ha_put :: "string \<Rightarrow> string \<Rightarrow> duration \<Rightarrow> string option"
  ha_backend :: backend
  ha_evict_order :: "string list"
  ha_bucket_prefix :: string
  ha_bucket_error :: string
  ha_revoked :: "revoked_fn option"
  ha_clearances :: "clearances_fn option"
  ha_geo :: "'info geo"
  ha_geo_error :: string
  ha_lists :: bool
  ha_forms :: "fetcher option"
  ha_rnd :: randomness
  ha_now :: go_time
  ha_elapsed :: duration
  ha_parse :: "string \<Rightarrow> request option"
  ha_order :: "string list"
  ha_marshal :: "reply \<Rightarrow> string option"
  ha_event :: "audit_event \<Rightarrow> string option"
  ha_ts :: string

record world =
  w_ledger :: ledger
  w_stats :: counters
  w_audit :: audit_sink
  w_sent :: "(string \<times> string) list"
  w_writes :: "list_write list"
  w_forms :: "(string \<times> string) list"

section \<open>Replies\<close>

definition Supports :: "int list \<Rightarrow> int \<Rightarrow> bool" where
  "Supports versions v \<longleftrightarrow> list_ex (\<lambda>known. known = v) versions"

definition toReply :: "request \<Rightarrow> result \<Rightarrow> reply" where
  "toReply req res =
     (let rep = NewReply req (r_verdict res);
          rep = (if r_code res \<noteq> [] then rep\<lparr>rp_reason := Some \<lparr>rn_code = r_code res, rn_class = []\<rparr>\<rparr> else rep)
      in if r_verdict res = VerdictAllow
         then foldl (\<lambda>rep (name, val). SetHeader rep name val) rep (r_headers res)
         else if r_verdict res = VerdictRedirect
         then rep\<lparr>rp_redirect := Some \<lparr>rd_url = r_redirect_url res, rd_status = r_redirect_status res\<rparr>,
                  rp_cookies := r_cookies res\<rparr>
         else if r_verdict res = VerdictDeny
         then rep\<lparr>rp_response := (if r_response res \<noteq> [] then Some (r_response res) else rp_response rep),
                  rp_cookies := r_cookies res\<rparr>
         else rep)"

text \<open>A failed \<open>Publish\<close> or \<open>Add\<close> is logged only; a reply that does not marshal is replaced.\<close>

definition send_payload ::
    "'info hand \<Rightarrow> string \<Rightarrow> reply \<Rightarrow> request option \<Rightarrow> details \<Rightarrow> string \<Rightarrow> world \<Rightarrow> world" where
  "send_payload h subj rep req det payload w =
     w\<lparr>w_sent := w_sent w @ [(subj, payload)],
       w_audit := snd (sink_add True (ha_event h) (ha_ts h) req (Some rep) det (w_audit w))\<rparr>"

definition send ::
    "'info hand \<Rightarrow> string \<Rightarrow> reply \<Rightarrow> request option \<Rightarrow> details \<Rightarrow> world \<Rightarrow> world" where
  "send h subj rep req det w =
     (if subj = [] then w
      else case Marshal (ha_marshal h) rep of
        Inr payload \<Rightarrow> send_payload h subj rep req det payload w
      | Inl _ \<Rightarrow>
          (case Marshal (ha_marshal h) (FallbackReply (rp_rid rep) (rp_inspector rep) codeInternalError) of
             Inl _ \<Rightarrow> w
           | Inr payload \<Rightarrow> send_payload h subj rep req det payload w))"

definition recoverInto :: "'info hand \<Rightarrow> string \<Rightarrow> string \<Rightarrow> world \<Rightarrow> world" where
  "recoverInto h subj rid w =
     (if subj \<noteq> [] then send h subj (FallbackReply rid (ha_name h) codeInternalError) None no_details w
      else w)"

section \<open>The form in place of a redirect\<close>

abbreviation "errNoHTTP \<equiv> ''WAF_CAPTCHA_HTTP_URL is empty''"
abbreviation "formSuffix \<equiv> ''form''"
abbreviation (input) formTTL :: duration where "formTTL \<equiv> 15 * Second"

definition formMax :: nat where
  "formMax = 1048576"

definition page_fetch :: "fetcher \<Rightarrow> string \<Rightarrow> string \<Rightarrow> string \<Rightarrow> string \<Rightarrow> string + string \<times> string" where
  "page_fetch f path cookie clientIP userAgent =
     (case ff_do f \<lparr>fr_url = ff_base f @ path, fr_cookie = cookie, fr_forwarded_for = clientIP,
                    fr_accept = ''text/html'',
                    fr_user_agent = (if userAgent \<noteq> [] then Some userAgent else None)\<rparr> of
        Inl err \<Rightarrow> Inl err
      | Inr (status, read, ctype) \<Rightarrow>
          if status \<noteq> 200 then Inl (''captcha-http answered '' @ format_int status)
          else (case read of
                  Inl err \<Rightarrow> Inl err
                | Inr all \<Rightarrow>
                    let body = take (formMax + 1) all
                    in if length body > formMax
                       then Inl (''page exceeds '' @ format_int (int formMax) @ '' bytes'')
                       else Inr (body, if ctype = [] \<or> contains_any ctype [CHR 0x0D, CHR 0x0A]
                                       then ''text/html; charset=utf-8'' else ctype)))"

fun cookieOf :: "cookie list \<Rightarrow> string \<Rightarrow> string" where
  "cookieOf [] name = []"
| "cookieOf (c # cs) name = (if ck_name c = name then ck_value c else cookieOf cs name)"

definition form_key :: "request \<Rightarrow> string" where
  "form_key req = q_node req @ '':'' @ q_rid req @ '':req:'' @ formSuffix"

text \<open>\<^const>\<open>None\<close> is the panic of \<open>Put\<close> on a nil store.\<close>

definition inlineForm ::
    "'info hand \<Rightarrow> request \<Rightarrow> profile \<Rightarrow> result \<Rightarrow> string \<Rightarrow> world \<Rightarrow> (string + rewrite) option \<times> world" where
  "inlineForm h req p res user_agent w =
     (case ha_forms h of
        None \<Rightarrow> (Some (Inl errNoHTTP), w)
      | Some f \<Rightarrow>
          let tick = cookieOf (r_cookies res) (ch_cookie (p_challenge p))
          in if tick = [] then (Some (Inl ''no ticket in the result''), w)
             else case page_fetch f (p_path p) (ch_cookie (p_challenge p) @ ''='' @ tick)
                         (client_ip (q_conn req)) user_agent of
               Inl err \<Rightarrow> (Some (Inl err), w)
             | Inr (body, ctype) \<Rightarrow>
                 (case ha_store h of
                    None \<Rightarrow> (None, w)
                  | Some _ \<Rightarrow>
                      (case ha_put h (form_key req) body formTTL of
                         Some err \<Rightarrow> (Some (Inl (''store put: '' @ err)), w)
                       | None \<Rightarrow>
                           (Some (Inr \<lparr>rw_body = Some \<lparr>rb_key = form_key req, rb_size = int (length body),
                                                       rb_sha256 = hex_encode (sha256 body)\<rparr>,
                                       rw_content_type = ctype\<rparr>),
                            w\<lparr>w_forms := w_forms w @ [(form_key req, body)]\<rparr>))))"

section \<open>One request\<close>

definition fault_details :: "string \<Rightarrow> string \<Rightarrow> string \<Rightarrow> details" where
  "fault_details name what why = no_details\<lparr>dt_engine := FaultEngine name what why\<rparr>"

definition base_input :: "'info hand \<Rightarrow> request \<Rightarrow> profile option \<Rightarrow> input" where
  "base_input h req p =
     \<lparr>i_profile = p, i_ask = rt_profile (q_route req), i_method = h_method (q_http req),
      i_uri = h_uri (q_http req), i_args = [], i_client_ip = client_ip (q_conn req), i_clearance = [],
      i_ticket = [], i_user_agent = [], i_accept = [], i_sec_fetch_dest = [], i_upgrade_insecure = False,
      i_asked = empty_asked, i_levels = [], i_store_unavailable = [], i_opened = None, i_now = ha_now h\<rparr>"

text \<open>What the store and the earlier inspectors add to the input; the error is the store's reason.\<close>

definition store_input ::
    "'info hand \<Rightarrow> request \<Rightarrow> profile \<Rightarrow> header list \<Rightarrow> string \<Rightarrow> string \<Rightarrow> input" where
  "store_input h req p pairs args why =
     (base_input h req (Some p))
       \<lparr>i_args := args, i_store_unavailable := why,
        i_clearance := header_cookie pairs (cc_cookie (p_clearance p)),
        i_ticket := header_cookie pairs (ch_cookie (p_challenge p)),
        i_user_agent := header_value pairs ''user-agent'',
        i_accept := header_value pairs ''accept'',
        i_sec_fetch_dest := header_value pairs ''sec-fetch-dest'',
        i_upgrade_insecure := (header_value pairs ''upgrade-insecure-requests'' = ''1''),
        i_asked := PriorAsk (q_prior req) (Some p)\<rparr>"

definition read_input :: "'info hand \<Rightarrow> request \<Rightarrow> profile \<Rightarrow> string + input" where
  "read_input h req p =
     (case Pair (ha_store h) (st_headers (q_store req)) (st_args (q_store req)) of
        (pairs, args, why, fault) \<Rightarrow>
          if fault then Inl why
          else let i = store_input h req p pairs args why
               in Inr (i\<lparr>i_opened := Some (Open_input i (ha_token h) (ha_revoked h) (ha_clearances h))\<rparr>))"

text \<open>The buckets: charged with the notes of earlier inspectors and read.\<close>

definition charge_input ::
    "'info hand \<Rightarrow> request \<Rightarrow> profile \<Rightarrow> input \<Rightarrow> world \<Rightarrow> level list option \<times> world" where
  "charge_input h req p i w =
     (if \<not> buckets_enabled (p_buckets p) then (Some [], w)
      else let subj = subjectsOf (ha_geo h) p (client_ip (q_conn req)) (i_clearance i);
               ts = tiersOf p;
               cleared = (case i_opened i of None \<Rightarrow> False | Some op \<Rightarrow> op_clearance op \<noteq> None)
           in case Apply f64 (ha_backend h) (ha_evict_order h) (ha_bucket_prefix h) (p_name p) ts
                     (chargesOf subj ts (as_notes (i_asked i))) (readsOf subj ts cleared) (ha_now h)
                     (w_ledger w) of
                (ls, lg) \<Rightarrow> (ls, w\<lparr>w_ledger := lg\<rparr>))"

definition gather ::
    "'info hand \<Rightarrow> request \<Rightarrow> profile option \<Rightarrow> world \<Rightarrow>
     (reply \<times> details + input \<times> level list) \<times> world" where
  "gather h req prof w =
     (case prof of
        None \<Rightarrow> (Inr (base_input h req None, []), w)
      | Some p \<Rightarrow>
          if p_mode p = ModeOff then (Inr (base_input h req (Some p), []), w)
          else case read_input h req p of
            Inl why \<Rightarrow>
              (Inl (ErrorReply req CodeStoreUnavailable, fault_details (p_name p) ''store'' why), w)
          | Inr i \<Rightarrow>
              (case charge_input h req p i w of
                 (None, w) \<Rightarrow>
                   (Inl (ErrorReply req CodeBucketsUnavailable,
                         fault_details (p_name p) ''buckets'' (ha_bucket_error h)), w)
               | (Some ls, w) \<Rightarrow>
                   (Inr (if buckets_enabled (p_buckets p) then i\<lparr>i_levels := percentsOf ls\<rparr> else i, ls), w)))"

text \<open>The result once the inline form was tried: the rewrite, or the redirect instead.\<close>

definition place_form ::
    "'info hand \<Rightarrow> request \<Rightarrow> profile option \<Rightarrow> string \<Rightarrow> result \<Rightarrow> world \<Rightarrow>
     (result \<times> rewrite option) option \<times> world" where
  "place_form h req prof userAgent res w =
     (if \<not> r_inline res then (Some (res, None), w)
      else case prof of
        None \<Rightarrow> (None, w)
      | Some p \<Rightarrow>
          (case inlineForm h req p res userAgent w of
             (None, w) \<Rightarrow> (None, w)
           | (Some (Inr rw), w) \<Rightarrow> (Some (res, Some rw), w)
           | (Some (Inl err), w) \<Rightarrow>
               (let w = w\<lparr>w_stats := stat_inc ''inline.fallback'' (w_stats w)\<rparr>
                in case r_engine res of
                     None \<Rightarrow> (None, w)
                   | Some e \<Rightarrow>
                       (Some (res\<lparr>r_verdict := VerdictRedirect, r_response := [], r_inline := False,
                                  r_engine := Some (e\<lparr>e_inline_fallback := err\<rparr>)\<rparr>, None), w))))"

definition settle_world :: "'info hand \<Rightarrow> profile \<Rightarrow> fired \<Rightarrow> world \<Rightarrow> world" where
  "settle_world h p fd w =
     w\<lparr>w_writes := w_writes w @ fd_writes fd,
       w_ledger := settle (ha_backend h) (ha_evict_order h) (ha_bucket_prefix h) p (ha_now h) fd (w_ledger w)\<rparr>"

text \<open>The three groups of rules, each only when the ones before it met no geo error.\<close>

definition fire_all ::
    "'info hand \<Rightarrow> request \<Rightarrow> profile option \<Rightarrow> input \<Rightarrow> level list \<Rightarrow> result \<Rightarrow> int \<Rightarrow> world \<Rightarrow>
     action list option \<times> world" where
  "fire_all h req prof i levels res fill w =
     (case prof of
        None \<Rightarrow> (Some [], w)
      | Some p \<Rightarrow>
          if p_mode p = ModeOff then (Some [], w)
          else let ip = client_ip (q_conn req); subj = subjectsOf (ha_geo h) p ip (i_clearance i);
                   full = fireBucketFull (ha_geo h) (ha_lists h) p subj ip levels (r_next res);
                   w = settle_world h p full w
               in if fd_geo_error full then (None, w)
                  else let client = (if r_event res = [] then no_fired
                                     else fireClient (ha_geo h) (ha_lists h) p subj ip (r_event res)
                                            (r_next res) (r_clearance res));
                           w = settle_world h p client w
                       in if fd_geo_error client then (None, w)
                          else let over = fireOverload (ha_geo h) (ha_lists h) p subj ip fill False;
                                   w = settle_world h p over w
                               in if fd_geo_error over then (None, w)
                                  else (Some (fd_actions full @ fd_actions client @ fd_actions over), w))"

definition count_result :: "profile option \<Rightarrow> string \<Rightarrow> string \<Rightarrow> counters \<Rightarrow> counters" where
  "count_result prof verdict trigger c =
     (let c = stat_inc (''verdict.'' @ verdict) c;
          c = (if trigger \<noteq> [] then stat_inc (''trigger.'' @ trigger) c else c)
      in case prof of
           None \<Rightarrow> c
         | Some p \<Rightarrow> if p_mode p = ModeObserve \<and> trigger \<noteq> [] then stat_inc (''would.'' @ trigger) c else c)"

text \<open>\<open>float64(d.Microseconds()) / 1000\<close>.\<close>

definition float_ms :: "duration \<Rightarrow> float64" where
  "float_ms d = f64 (f64 (of_int (quot d 1000)) / 1000)"

definition inspect ::
    "'info hand \<Rightarrow> request \<Rightarrow> int \<Rightarrow> world \<Rightarrow> (reply \<times> details) option \<times> world" where
  "inspect h req fill w =
     (let prof = snap_profile (Some (ha_snapshot h)) (rt_profile (q_route req))
      in case gather h req prof w of
           (Inl answer, w) \<Rightarrow> (Some answer, w)
         | (Inr (i, levels), w) \<Rightarrow>
             (case place_form h req prof (i_user_agent i)
                     (Check i (ha_token h) (ha_revoked h) (ha_clearances h) (ha_rnd h)) w of
                (None, w) \<Rightarrow> (None, w)
              | (Some (res, rw), w) \<Rightarrow>
                  (case fire_all h req prof i levels res fill w of
                     (None, w) \<Rightarrow>
                       (Some (ErrorReply req CodeGeoUnavailable,
                              fault_details (case prof of None \<Rightarrow> [] | Some p \<Rightarrow> p_name p) ''geo'' (ha_geo_error h)), w)
                   | (Some actions, w) \<Rightarrow>
                       let rep = toReply req res;
                           rep = rep\<lparr>rp_rewrite := rw, rp_actions := rp_actions rep @ actions\<rparr>
                       in (Some (rep, \<lparr>dt_engine_ms = float_ms (ha_elapsed h), dt_findings = r_findings res,
                                       dt_engine = (case r_engine res of None \<Rightarrow> NoEngine | Some e \<Rightarrow> CheckEngine e)\<rparr>),
                           w\<lparr>w_stats := count_result prof (rp_verdict rep) (r_trigger res) (w_stats w)\<rparr>))))"

section \<open>Shedding, evaluation and reception\<close>

text \<open>The reply, the geo error noted in the details, and the world.\<close>

definition overloadOnShed ::
    "'info hand \<Rightarrow> task \<Rightarrow> string \<Rightarrow> reply \<Rightarrow> world \<Rightarrow> reply \<times> string option \<times> world" where
  "overloadOnShed h t shed rep w =
     (let req = tk_req t
      in if shed \<noteq> ReasonQueueLimit \<or> q_phase req \<noteq> PhaseRequest then (rep, None, w)
         else case snap_profile (Some (ha_snapshot h)) (rt_profile (q_route req)) of
           None \<Rightarrow> (rep, None, w)
         | Some p \<Rightarrow>
             if p_mode p = ModeOff then (rep, None, w)
             else let ip = client_ip (q_conn req);
                      subj = (if chargesOnOverload p then subjectsOf (ha_geo h) p ip [] else no_subject);
                      over = fireOverload (ha_geo h) (ha_lists h) p subj ip (tk_fill t) True;
                      w = settle_world h p over w
                  in if fd_geo_error over then (rep, Some (ha_geo_error h), w)
                     else ((if fd_actions over \<noteq> [] then rep\<lparr>rp_actions := fd_actions over\<rparr> else rep), None, w))"

definition evaluate :: "'info hand \<Rightarrow> task \<Rightarrow> duration \<Rightarrow> string \<Rightarrow> world \<Rightarrow> world" where
  "evaluate h t left shed w =
     (if shed \<noteq> []
      then case overloadOnShed h t shed (ShedReply (tk_req t) shed) w of
        (rep, geo, w) \<Rightarrow>
          send h (tk_reply t) rep (Some (tk_req t))
            (no_details\<lparr>dt_engine := ShedEngine shed (float_ms left) geo\<rparr>) w
      else case inspect h (tk_req t) (tk_fill t) w of
        (Some (rep, det), w) \<Rightarrow> send h (tk_reply t) rep (Some (tk_req t)) det w
      | (None, w) \<Rightarrow> recoverInto h (tk_reply t) (q_rid (tk_req t)) w)"

text \<open>The task submitted to the pool, if any; the pool fills in the rest of it.\<close>

definition receive :: "'info hand \<Rightarrow> string \<Rightarrow> string \<Rightarrow> world \<Rightarrow> task option \<times> world" where
  "receive h reply_to payload w =
     (case Parse (ha_parse h) (ha_order h) payload of
        Inl e \<Rightarrow>
          (None, send h reply_to (FallbackReply (pe_rid e) (ha_name h) codeMalformed) None no_details w)
      | Inr req \<Rightarrow>
          if \<not> Supports (ha_versions h) (q_v req)
          then (None, send h reply_to ((ErrorReply req codeUnsupportedVersion)\<lparr>rp_v := Version\<rparr>)
                        (Some req) no_details w)
          else if q_phase req \<noteq> PhaseRequest
          then (None, send h reply_to (ErrorReply req CodeWrongPhase) (Some req) no_details w)
          else (Some \<lparr>tk_req = req, tk_reply = reply_to, tk_fill = 0, tk_enqueued = 0\<rparr>, w))"

section \<open>Lemmas\<close>

text \<open>Opening looks at neither the levels nor what was opened before.\<close>

lemma open_clearance_fields:
  "open_clearance (i\<lparr>i_opened := x\<rparr>) p key rv cl = open_clearance i p key rv cl"
  "open_clearance (i\<lparr>i_levels := ls\<rparr>) p key rv cl = open_clearance i p key rv cl"
proof -
  have a: "i_clearance (i\<lparr>i_opened := x\<rparr>) = i_clearance i" "i_now (i\<lparr>i_opened := x\<rparr>) = i_now i"
    "i_client_ip (i\<lparr>i_opened := x\<rparr>) = i_client_ip i" "i_user_agent (i\<lparr>i_opened := x\<rparr>) = i_user_agent i"
    "i_store_unavailable (i\<lparr>i_opened := x\<rparr>) = i_store_unavailable i"
    "i_clearance (i\<lparr>i_levels := ls\<rparr>) = i_clearance i" "i_now (i\<lparr>i_levels := ls\<rparr>) = i_now i"
    "i_client_ip (i\<lparr>i_levels := ls\<rparr>) = i_client_ip i" "i_user_agent (i\<lparr>i_levels := ls\<rparr>) = i_user_agent i"
    "i_store_unavailable (i\<lparr>i_levels := ls\<rparr>) = i_store_unavailable i" by simp_all
  show "open_clearance (i\<lparr>i_opened := x\<rparr>) p key rv cl = open_clearance i p key rv cl"
    unfolding open_clearance_def a ..
  show "open_clearance (i\<lparr>i_levels := ls\<rparr>) p key rv cl = open_clearance i p key rv cl"
    unfolding open_clearance_def a ..
qed

lemma open_input_fields [simp]:
  "Open_input (i\<lparr>i_opened := x\<rparr>) key rv cl = Open_input i key rv cl"
  "Open_input (i\<lparr>i_levels := ls\<rparr>) key rv cl = Open_input i key rv cl"
  by (cases "i_profile i"; simp add: Open_input_def open_clearance_fields)+

text \<open>What the input of \<open>Check\<close> is made of.\<close>

lemma read_input_cases:
  assumes "read_input h req p = Inr i"
  obtains pairs args why where
    "Pair (ha_store h) (st_headers (q_store req)) (st_args (q_store req)) = (pairs, args, why, False)"
    "i = (store_input h req p pairs args why)
       \<lparr>i_opened := Some (Open_input (store_input h req p pairs args why) (ha_token h) (ha_revoked h)
          (ha_clearances h))\<rparr>"
proof -
  obtain pairs args why fault where
    "Pair (ha_store h) (st_headers (q_store req)) (st_args (q_store req)) = (pairs, args, why, fault)"
    using prod_cases4 by blast
  with assms that show ?thesis by (auto simp: read_input_def Let_def split: if_splits)
qed

lemma store_input_fields [simp]:
  "i_profile (store_input h req p pairs args why) = Some p"
  "i_method (store_input h req p pairs args why) = h_method (q_http req)"
  "i_uri (store_input h req p pairs args why) = h_uri (q_http req)"
  "i_client_ip (store_input h req p pairs args why) = client_ip (q_conn req)"
  "i_now (store_input h req p pairs args why) = ha_now h"
  "i_clearance (store_input h req p pairs args why) = header_cookie pairs (cc_cookie (p_clearance p))"
  "i_user_agent (store_input h req p pairs args why) = header_value pairs ''user-agent''"
  "i_asked (store_input h req p pairs args why) = PriorAsk (q_prior req) (Some p)"
  by (simp_all add: store_input_def base_input_def)

lemma gather_cases:
  assumes "gather h req prof w = (Inr (i, ls), w')"
  shows "prof = None \<and> i = base_input h req None \<and> ls = [] \<and> w' = w \<or>
    (\<exists>p. prof = Some p \<and> p_mode p = ModeOff \<and> i = base_input h req (Some p) \<and> ls = [] \<and> w' = w) \<or>
    (\<exists>p i0. prof = Some p \<and> p_mode p \<noteq> ModeOff \<and> read_input h req p = Inr i0 \<and>
       charge_input h req p i0 w = (Some ls, w') \<and>
       i = (if buckets_enabled (p_buckets p) then i0\<lparr>i_levels := percentsOf ls\<rparr> else i0))"
  using assms by (auto simp: gather_def split: option.splits sum.splits if_splits prod.splits)

lemma charge_input_world:
  "charge_input h req p i w = (r, w') \<Longrightarrow>
     w_sent w' = w_sent w \<and> w_stats w' = w_stats w \<and> w_forms w' = w_forms w \<and> w_writes w' = w_writes w"
  by (auto simp: charge_input_def Let_def split: if_splits prod.splits)

lemma gather_profile: "gather h req prof w = (Inr (i, ls), w') \<Longrightarrow> i_profile i = prof"
  by (drule gather_cases) (auto simp: base_input_def elim: read_input_cases)

lemma gather_world:
  "gather h req prof w = (r, w') \<Longrightarrow> w_sent w' = w_sent w \<and> w_forms w' = w_forms w"
  by (auto simp: gather_def dest: charge_input_world split: option.splits sum.splits if_splits prod.splits)

text \<open>When \<open>Check\<close> asks for the form, the rest of the result is a complete redirect.\<close>

lemma challenge_inline:
  assumes "r_inline (challenge_result i p key rnd trigger code finding e)"
  shows "FormInline p \<and> navigational i p \<and>
     r_verdict (challenge_result i p key rnd trigger code finding e) = VerdictDeny \<and>
     r_response (challenge_result i p key rnd trigger code finding e) = g_deny_response (p_gate p) \<and>
     r_cookies (challenge_result i p key rnd trigger code finding e) = issueTicket i p key rnd (attemptOf i p key) \<and>
     issueTicket i p key rnd (attemptOf i p key) \<noteq> [] \<and>
     has_prefix (r_redirect_url (challenge_result i p key rnd trigger code finding e)) (p_path p) \<and>
     r_redirect_status (challenge_result i p key rnd trigger code finding e) = g_redirect_status (p_gate p) \<and>
     r_engine (challenge_result i p key rnd trigger code finding e) \<noteq> None"
  using assms
  by (auto simp: challenge_result_def redirect_result_def empty_result_def has_prefix_def Let_def split: if_splits)

lemma check_inline:
  assumes "r_inline (Check i key rv cl rnd)"
  obtains p where "i_profile i = Some p" "p_mode p \<noteq> ModeOff" "p_mode p \<noteq> ModeObserve" "FormInline p"
    "navigational i p" "r_verdict (Check i key rv cl rnd) = VerdictDeny"
    "r_response (Check i key rv cl rnd) = g_deny_response (p_gate p)"
    "r_cookies (Check i key rv cl rnd) = issueTicket i p key rnd (attemptOf i p key)"
    "issueTicket i p key rnd (attemptOf i p key) \<noteq> []"
    "has_prefix (r_redirect_url (Check i key rv cl rnd)) (p_path p)"
    "r_redirect_status (Check i key rv cl rnd) = g_redirect_status (p_gate p)"
    "r_engine (Check i key rv cl rnd) \<noteq> None"
proof -
  have inl: "r_inline (check_body i key rv cl rnd)" using assms by simp
  then obtain p where p: "i_profile i = Some p"
    by (cases "i_profile i") (simp_all add: check_body_def)
  obtain e where e: "check_body i key rv cl rnd = decide_opened i p key rnd (opened_of i key rv cl) e"
      "p_mode p \<noteq> ModeOff"
    using check_body_cases [OF p, of key rv cl rnd] inl by auto
  obtain tr code fi e' where c: "check_body i key rv cl rnd = challenge_result i p key rnd tr code fi e'"
      "p_mode p \<noteq> ModeObserve"
    using decide_opened_cases [of "opened_of i key rv cl" i p key rnd e] inl e(1) by auto
  have f: "r_response (Check i key rv cl rnd) = r_response (check_body i key rv cl rnd)"
    "r_redirect_status (Check i key rv cl rnd) = r_redirect_status (check_body i key rv cl rnd)"
    "r_engine (Check i key rv cl rnd) = r_engine (check_body i key rv cl rnd)"
    by (simp_all add: Check_def Let_def)
  have "r_inline (challenge_result i p key rnd tr code fi e')" using inl by (simp only: c)
  note challenge_inline [OF this]
  then show ?thesis
    by (intro that [of p]) (simp_all add: p e(2) c f)
qed

text \<open>A redirect is complete too: it leads to the profile's page and carries the ticket.\<close>

lemma challenge_redirect:
  assumes "r_verdict (challenge_result i p key rnd trigger code finding e) = VerdictRedirect"
  shows "r_cookies (challenge_result i p key rnd trigger code finding e) = issueTicket i p key rnd (attemptOf i p key) \<and>
     issueTicket i p key rnd (attemptOf i p key) \<noteq> [] \<and>
     has_prefix (r_redirect_url (challenge_result i p key rnd trigger code finding e)) (p_path p) \<and>
     r_redirect_status (challenge_result i p key rnd trigger code finding e) = g_redirect_status (p_gate p)"
  using assms
  by (auto simp: challenge_result_def redirect_result_def empty_result_def has_prefix_def Let_def split: if_splits)

lemma check_redirect:
  assumes "r_verdict (Check i key rv cl rnd) = VerdictRedirect"
  obtains p where "i_profile i = Some p" "r_cookies (Check i key rv cl rnd) = issueTicket i p key rnd (attemptOf i p key)"
    "issueTicket i p key rnd (attemptOf i p key) \<noteq> []"
    "has_prefix (r_redirect_url (Check i key rv cl rnd)) (p_path p)"
    "r_redirect_status (Check i key rv cl rnd) = g_redirect_status (p_gate p)"
proof -
  have vd: "r_verdict (check_body i key rv cl rnd) = VerdictRedirect" using assms by simp
  then obtain p where p: "i_profile i = Some p"
    by (cases "i_profile i") (simp_all add: check_body_def)
  obtain e where e: "check_body i key rv cl rnd = decide_opened i p key rnd (opened_of i key rv cl) e"
    using check_body_cases [OF p, of key rv cl rnd] vd by auto
  obtain tr code fi e' where c: "check_body i key rv cl rnd = challenge_result i p key rnd tr code fi e'"
    using decide_opened_cases [of "opened_of i key rv cl" i p key rnd e] vd e by auto
  have f: "r_redirect_status (Check i key rv cl rnd) = r_redirect_status (check_body i key rv cl rnd)"
    by (simp add: Check_def Let_def)
  have "r_verdict (challenge_result i p key rnd tr code fi e') = VerdictRedirect" using vd by (simp only: c)
  note challenge_redirect [OF this]
  then show ?thesis by (intro that [of p]) (simp_all add: p c f)
qed

lemma page_fetch_bounded: "page_fetch f path cookie ip ua = Inr (body, ctype) \<Longrightarrow> length body \<le> formMax"
  by (auto simp: page_fetch_def Let_def split: sum.splits if_splits prod.splits)

lemma inline_form_placed:
  assumes "inlineForm h req p res ua w = (Some (Inr rw), w')"
  obtains body ctype where "w_forms w' = w_forms w @ [(form_key req, body)]" "length body \<le> formMax"
    "rw = \<lparr>rw_body = Some \<lparr>rb_key = form_key req, rb_size = int (length body), rb_sha256 = hex_encode (sha256 body)\<rparr>,
           rw_content_type = ctype\<rparr>"
proof -
  let ?tick = "cookieOf (r_cookies res) (ch_cookie (p_challenge p))"
  obtain f where f: "ha_forms h = Some f" using assms by (cases "ha_forms h") (simp_all add: inlineForm_def)
  have t: "?tick \<noteq> []" using assms by (auto simp: inlineForm_def f Let_def)
  obtain r where r: "page_fetch f (p_path p) (ch_cookie (p_challenge p) @ ''='' @ ?tick) (client_ip (q_conn req)) ua = r"
    by blast
  obtain body ctype where b: "r = Inr (body, ctype)"
    using assms t r by (cases r) (auto simp: inlineForm_def f Let_def)
  obtain st where st: "ha_store h = Some st"
    using assms t r b by (cases "ha_store h") (simp_all add: inlineForm_def f Let_def)
  have put: "ha_put h (form_key req) body formTTL = None"
    using assms t r b st
    by (cases "ha_put h (form_key req) body formTTL") (simp_all add: inlineForm_def f Let_def)
  let ?rw = "\<lparr>rw_body = Some \<lparr>rb_key = form_key req, rb_size = int (length body), rb_sha256 = hex_encode (sha256 body)\<rparr>,
     rw_content_type = ctype\<rparr>"
  have "inlineForm h req p res ua w = (Some (Inr ?rw), w\<lparr>w_forms := w_forms w @ [(form_key req, body)]\<rparr>)"
    using t r b st put by (simp add: inlineForm_def f Let_def)
  then have "rw = ?rw" "w' = w\<lparr>w_forms := w_forms w @ [(form_key req, body)]\<rparr>"
    using assms by (simp_all only: prod.inject option.inject sum.inject)
  then show ?thesis
    using page_fetch_bounded [OF r [unfolded b]] by (intro that [of body ctype]) simp_all
qed

lemma inline_form_refused:
  "inlineForm h req p res ua w = (Some (Inl err), w') \<Longrightarrow> w' = w"
  by (auto simp: inlineForm_def Let_def split: option.splits sum.splits if_splits prod.splits)

lemma place_form_cases:
  assumes "place_form h req prof ua res w = (Some (res', rw), w')"
  obtains (plain) "\<not> r_inline res" "res' = res" "rw = None" "w' = w"
  | (placed) p rw0 where "r_inline res" "prof = Some p" "inlineForm h req p res ua w = (Some (Inr rw0), w')"
      "res' = res" "rw = Some rw0"
  | (refused) p err e where "r_inline res" "prof = Some p" "inlineForm h req p res ua w = (Some (Inl err), w)"
      "r_engine res = Some e" "rw = None" "w_forms w' = w_forms w"
      "res' = res\<lparr>r_verdict := VerdictRedirect, r_response := [], r_inline := False,
                  r_engine := Some (e\<lparr>e_inline_fallback := err\<rparr>)\<rparr>"
proof (cases "r_inline res")
  case False
  then have "(Some (res, None), w) = (Some (res', rw), w')" using assms by (simp only: place_form_def if_True simp_thms)
  then show thesis using False by (intro plain) simp_all
next
  case True
  with assms obtain p where p: "prof = Some p" by (cases prof) (simp_all add: place_form_def)
  obtain x w1 where x: "inlineForm h req p res ua w = (x, w1)" by fastforce
  show thesis
  proof (cases x)
    case None
    with assms True p x show thesis by (simp add: place_form_def)
  next
    case (Some y)
    show thesis
    proof (cases y)
      case (Inr rw0)
      have "place_form h req prof ua res w = (Some (res, Some rw0), w1)"
        using True p x Some Inr by (simp add: place_form_def)
      then have "res' = res" "rw = Some rw0" "w1 = w'"
        using assms by (simp_all only: prod.inject option.inject)
      then show thesis using True p x Some Inr by (intro placed) simp_all
    next
      case (Inl err)
      with x Some have same: "w1 = w" using inline_form_refused by blast
      obtain e where e: "r_engine res = Some e"
        using assms True p x Some Inl by (cases "r_engine res") (simp_all add: place_form_def Let_def)
      let ?res = "res\<lparr>r_verdict := VerdictRedirect, r_response := [], r_inline := False,
          r_engine := Some (e\<lparr>e_inline_fallback := err\<rparr>)\<rparr>"
      let ?w = "w\<lparr>w_stats := stat_inc ''inline.fallback'' (w_stats w)\<rparr>"
      have "place_form h req prof ua res w = (Some (?res, None), ?w)"
        using True p x Some Inl same e by (simp add: place_form_def Let_def)
      then have "res' = ?res" "rw = None" "w' = ?w"
        using assms by (simp_all only: prod.inject option.inject)
      then show thesis
        using True p x [unfolded Some Inl same] e by (intro refused [of p err e]) simp_all
    qed
  qed
qed

lemma inline_form_world:
  "inlineForm h req p res ua w = (r, w') \<Longrightarrow> w_sent w' = w_sent w"
  by (auto simp: inlineForm_def Let_def split: option.splits sum.splits if_splits prod.splits)

lemma inline_form_returns:
  "ha_store h \<noteq> None \<Longrightarrow> inlineForm h req p res ua w = (r, w') \<Longrightarrow> r \<noteq> None"
  by (auto simp: inlineForm_def Let_def split: option.splits sum.splits if_splits prod.splits)

lemma place_form_world:
  "place_form h req prof ua res w = (r, w') \<Longrightarrow> w_sent w' = w_sent w"
  by (auto simp: place_form_def Let_def dest: inline_form_world
      split: option.splits sum.splits if_splits prod.splits)

lemma place_form_returns:
  assumes "ha_store h \<noteq> None" "r_inline res \<Longrightarrow> prof \<noteq> None \<and> r_engine res \<noteq> None"
    "place_form h req prof ua res w = (r, w')"
  shows "r \<noteq> None"
proof (cases "r_inline res")
  case True
  then obtain p e where pe: "prof = Some p" "r_engine res = Some e" using assms(2) by auto
  obtain x w1 where x: "inlineForm h req p res ua w = (x, w1)" by fastforce
  then have "x \<noteq> None" using inline_form_returns assms(1) by blast
  then show ?thesis
    using assms(3) True pe x by (auto simp: place_form_def Let_def split: sum.splits)
qed (use assms(3) in \<open>auto simp: place_form_def\<close>)

lemma settle_world_sent [simp]:
  "w_sent (settle_world h p fd w) = w_sent w" "w_forms (settle_world h p fd w) = w_forms w"
  by (simp_all add: settle_world_def)

lemma fire_all_world: "fire_all h req prof i ls res fill w = (r, w') \<Longrightarrow> w_sent w' = w_sent w \<and> w_forms w' = w_forms w"
  by (auto simp: fire_all_def Let_def split: option.splits if_splits)

lemma set_headers_fields:
  fixes hs :: "(string \<times> string) list"
  shows "rp_rid (foldl (\<lambda>rep (n, v). SetHeader rep n v) rep hs) = rp_rid rep"
    "rp_v (foldl (\<lambda>rep (n, v). SetHeader rep n v) rep hs) = rp_v rep"
    "rp_inspector (foldl (\<lambda>rep (n, v). SetHeader rep n v) rep hs) = rp_inspector rep"
    "rp_verdict (foldl (\<lambda>rep (n, v). SetHeader rep n v) rep hs) = rp_verdict rep"
    "rp_score (foldl (\<lambda>rep (n, v). SetHeader rep n v) rep hs) = rp_score rep"
    "rp_reason (foldl (\<lambda>rep (n, v). SetHeader rep n v) rep hs) = rp_reason rep"
    "rp_redirect (foldl (\<lambda>rep (n, v). SetHeader rep n v) rep hs) = rp_redirect rep"
    "rp_cookies (foldl (\<lambda>rep (n, v). SetHeader rep n v) rep hs) = rp_cookies rep"
    "rp_actions (foldl (\<lambda>rep (n, v). SetHeader rep n v) rep hs) = rp_actions rep"
  by (induction hs arbitrary: rep) (auto simp: SetHeader_def Let_def)

lemma to_reply_fields [simp]:
  "rp_rid (toReply req res) = q_rid req" "rp_v (toReply req res) = q_v req"
  "rp_inspector (toReply req res) = q_inspector req" "rp_verdict (toReply req res) = r_verdict res"
  "rp_score (toReply req res) = None"
  by (simp_all add: toReply_def NewReply_def empty_reply_def set_headers_fields Let_def)

lemma to_reply_redirect:
  "r_verdict res = VerdictRedirect \<Longrightarrow>
     rp_redirect (toReply req res) = Some \<lparr>rd_url = r_redirect_url res, rd_status = r_redirect_status res\<rparr> \<and>
     rp_cookies (toReply req res) = r_cookies res"
  by (simp add: toReply_def Let_def)

lemma issue_ticket_one:
  "issueTicket i p key rnd n \<noteq> [] \<Longrightarrow> \<exists>c. issueTicket i p key rnd n = [c] \<and> ck_name c = ch_cookie (p_challenge p)"
  by (auto simp: issueTicket_def split: option.splits)

lemma error_reply_fields [simp]:
  "rp_rid (ErrorReply req code) = q_rid req" "rp_v (ErrorReply req code) = q_v req"
  "rp_inspector (ErrorReply req code) = q_inspector req" "rp_verdict (ErrorReply req code) = VerdictError"
  "rp_score (ErrorReply req code) = None"
  "rp_reason (ErrorReply req code) = Some \<lparr>rn_code = code, rn_class = []\<rparr>"
  "rp_rewrite (ErrorReply req code) = None"
  by (simp_all add: ErrorReply_def NewReply_def empty_reply_def)

lemma fallback_fields [simp]:
  "rp_rid (FallbackReply rid name code) = rid" "rp_v (FallbackReply rid name code) = Version"
  "rp_inspector (FallbackReply rid name code) = name" "rp_score (FallbackReply rid name code) = None"
  "rp_verdict (FallbackReply rid name code) = VerdictError"
  "rp_reason (FallbackReply rid name code) = Some \<lparr>rn_code = code, rn_class = []\<rparr>"
  by (simp_all add: FallbackReply_def empty_reply_def)

lemma shed_reply_fields [simp]:
  "rp_rid (ShedReply req code) = q_rid req" "rp_v (ShedReply req code) = q_v req"
  "rp_inspector (ShedReply req code) = q_inspector req" "rp_verdict (ShedReply req code) = VerdictError"
  "rp_score (ShedReply req code) = None"
  "rp_reason (ShedReply req code) = Some \<lparr>rn_code = code, rn_class = ClassOverload\<rparr>"
  by (simp_all add: ShedReply_def ErrorReply_def NewReply_def empty_reply_def Let_def)

text \<open>The ways one call of \<open>inspect\<close> can go.\<close>

lemma inspect_cases:
  assumes "inspect h req fill w = (out, w')"
  defines "prof \<equiv> snap_profile (Some (ha_snapshot h)) (rt_profile (q_route req))"
  obtains
    (failed) rep det where "gather h req prof w = (Inl (rep, det), w')" "out = Some (rep, det)"
  | (panic) i ls w1 where "gather h req prof w = (Inr (i, ls), w1)"
      "place_form h req prof (i_user_agent i) (Check i (ha_token h) (ha_revoked h) (ha_clearances h) (ha_rnd h)) w1 =
         (None, w')" "out = None"
  | (geo) i ls w1 res rw w2 det where "gather h req prof w = (Inr (i, ls), w1)"
      "place_form h req prof (i_user_agent i) (Check i (ha_token h) (ha_revoked h) (ha_clearances h) (ha_rnd h)) w1 =
         (Some (res, rw), w2)"
      "fire_all h req prof i ls res fill w2 = (None, w')" "out = Some (ErrorReply req CodeGeoUnavailable, det)"
  | (answered) i ls w1 res rw w2 actions w3 det where "gather h req prof w = (Inr (i, ls), w1)"
      "place_form h req prof (i_user_agent i) (Check i (ha_token h) (ha_revoked h) (ha_clearances h) (ha_rnd h)) w1 =
         (Some (res, rw), w2)"
      "fire_all h req prof i ls res fill w2 = (Some actions, w3)"
      "out = Some ((toReply req res)\<lparr>rp_rewrite := rw, rp_actions := rp_actions (toReply req res) @ actions\<rparr>, det)"
      "w_sent w' = w_sent w3" "w_forms w' = w_forms w3"
proof -
  obtain g w1 where g: "gather h req prof w = (g, w1)" by fastforce
  show thesis
  proof (cases g)
    case (Inl answer)
    then show thesis
      using assms(1) g failed by (cases answer) (simp add: inspect_def prof_def)
  next
    case (Inr il)
    obtain i ls where il: "il = (i, ls)" by fastforce
    let ?res = "Check i (ha_token h) (ha_revoked h) (ha_clearances h) (ha_rnd h)"
    obtain pf w2 where pf: "place_form h req prof (i_user_agent i) ?res w1 = (pf, w2)" by fastforce
    have g': "gather h req prof w = (Inr (i, ls), w1)" using g Inr il by simp
    show thesis
    proof (cases pf)
      case None
      then show thesis
        using assms(1) g' pf panic by (simp add: inspect_def prof_def)
    next
      case (Some rr)
      obtain res rw where rr: "rr = (res, rw)" by fastforce
      with Some pf have pf': "place_form h req prof (i_user_agent i) ?res w1 = (Some (res, rw), w2)" by simp
      obtain fa w3 where fa: "fire_all h req prof i ls res fill w2 = (fa, w3)" by fastforce
      show thesis
      proof (cases fa)
        case None
        then show thesis
          using assms(1) g' pf' fa geo [OF g' pf'] by (auto simp: inspect_def prof_def)
      next
        case (Some actions)
        then show thesis
          using assms(1) g' pf' fa answered [OF g' pf' fa [unfolded Some]]
          by (auto simp: inspect_def prof_def Let_def)
      qed
    qed
  qed
qed

lemma gather_error:
  "gather h req prof w = (Inl (rep, det), w') \<Longrightarrow>
     rep = ErrorReply req CodeStoreUnavailable \<or> rep = ErrorReply req CodeBucketsUnavailable"
  by (auto simp: gather_def split: option.splits sum.splits if_splits prod.splits)

lemma place_form_result:
  "place_form h req prof ua res w = (Some (res', rw), w') \<Longrightarrow>
     r_verdict res' = r_verdict res \<and> r_code res' = r_code res \<or> r_verdict res' = VerdictRedirect"
  by (auto simp: place_form_def Let_def split: option.splits sum.splits if_splits prod.splits)

text \<open>The reply belongs to the request.\<close>

lemma inspect_addressed:
  assumes "inspect h req fill w = (out, w')"
  shows "w_sent w' = w_sent w \<and> (ha_store h \<noteq> None \<longrightarrow> out \<noteq> None) \<and>
    (\<forall>rep det. out = Some (rep, det) \<longrightarrow> rp_rid rep = q_rid req \<and> rp_v rep = q_v req \<and>
       rp_inspector rep = q_inspector req \<and> rp_score rep = None)"
  using assms
proof (cases rule: inspect_cases)
  case (failed rep det)
  then show ?thesis using gather_error [OF failed(1)] gather_world [OF failed(1)] by auto
next
  case (panic i ls w1)
  have "ha_store h = None"
  proof (rule ccontr)
    assume st: "ha_store h \<noteq> None"
    have "r_inline (Check i (ha_token h) (ha_revoked h) (ha_clearances h) (ha_rnd h)) \<Longrightarrow>
        snap_profile (Some (ha_snapshot h)) (rt_profile (q_route req)) \<noteq> None \<and>
        r_engine (Check i (ha_token h) (ha_revoked h) (ha_clearances h) (ha_rnd h)) \<noteq> None"
      by (erule check_inline) (use gather_profile [OF panic(1)] in auto)
    from place_form_returns [OF st this panic(2)] show False by simp
  qed
  then show ?thesis
    using gather_world [OF panic(1)] place_form_world [OF panic(2)] panic(3) by auto
next
  case (geo i ls w1 res rw w2 det)
  then show ?thesis
    using gather_world [OF geo(1)] place_form_world [OF geo(2)] fire_all_world [OF geo(3)] by auto
next
  case (answered i ls w1 res rw w2 actions w3 det)
  then show ?thesis
    using gather_world [OF answered(1)] place_form_world [OF answered(2)] fire_all_world [OF answered(3)] by auto
qed

lemma send_replies:
  assumes "subj \<noteq> []" "\<forall>r. ha_marshal h r \<noteq> None" "rp_score rep = None"
  shows "w_sent (send h subj rep req det w) = w_sent w @ [(subj, the (ha_marshal h rep))]"
proof -
  obtain payload where "ha_marshal h rep = Some payload" using assms(2) by blast
  with assms(1,3) show ?thesis by (simp add: send_def Marshal_def send_payload_def)
qed

lemma overload_on_shed_fields:
  assumes "overloadOnShed h t shed rep w = (rep', geo, w')"
  shows "w_sent w' = w_sent w \<and> (\<exists>as. rep' = rep\<lparr>rp_actions := as\<rparr>)"
proof -
  have "rep' = rep \<or> (\<exists>as. rep' = rep\<lparr>rp_actions := as\<rparr>)" "w_sent w' = w_sent w"
    using assms by (auto simp: overloadOnShed_def Let_def split: if_splits option.splits)
  moreover have "rep = rep\<lparr>rp_actions := rp_actions rep\<rparr>" by simp
  ultimately show ?thesis by metis
qed

lemma evaluate_sends:
  assumes "tk_reply t \<noteq> []" "\<forall>r. ha_marshal h r \<noteq> None"
  shows "\<exists>rep. w_sent (evaluate h t left shed w) = w_sent w @ [(tk_reply t, the (ha_marshal h rep))] \<and>
     rp_rid rep = q_rid (tk_req t) \<and>
     (shed \<noteq> [] \<longrightarrow> rp_verdict rep = VerdictError \<and> rp_reason rep = Some \<lparr>rn_code = shed, rn_class = ClassOverload\<rparr>) \<and>
     (shed \<noteq> [] \<or> ha_store h \<noteq> None \<longrightarrow>
        rp_v rep = q_v (tk_req t) \<and> rp_inspector rep = q_inspector (tk_req t))"
proof (cases "shed = []")
  case False
  obtain rep geo w' where o: "overloadOnShed h t shed (ShedReply (tk_req t) shed) w = (rep, geo, w')"
    using prod_cases3 by blast
  then obtain as where r: "rep = (ShedReply (tk_req t) shed)\<lparr>rp_actions := as\<rparr>" and w: "w_sent w' = w_sent w"
    using overload_on_shed_fields by blast
  show ?thesis
    using False o w by (intro exI [of _ rep]) (simp add: evaluate_def send_replies [OF assms] r)
next
  case True
  obtain out w' where i: "inspect h (tk_req t) (tk_fill t) w = (out, w')" by fastforce
  note a = inspect_addressed [OF i]
  show ?thesis
  proof (cases out)
    case None
    then show ?thesis
      using True i a assms
      by (intro exI [of _ "FallbackReply (q_rid (tk_req t)) (ha_name h) codeInternalError"])
        (simp add: evaluate_def recoverInto_def send_replies [OF assms])
  next
    case (Some rd)
    obtain rep det where rd: "rd = (rep, det)" by fastforce
    with Some a have f: "rp_rid rep = q_rid (tk_req t)" "rp_v rep = q_v (tk_req t)"
      "rp_inspector rep = q_inspector (tk_req t)" "rp_score rep = None" by auto
    show ?thesis
      using True i Some rd a f by (intro exI [of _ rep]) (simp add: evaluate_def send_replies [OF assms])
  qed
qed

section \<open>Properties\<close>

text \<open>C8: Every task the pool hands back is answered once. Whatever the store, the geo resolver, the buckets
  and the form page do, and even when \<open>inspect\<close> panics, \<open>evaluate\<close> publishes exactly one reply, on the
  message's own subject and with the request's id; a shed task gets the overload error that names why,
  and wherever a store is configured the reply carries the request's version and inspector (so
  \<open>inspect\<close> does not panic).\<close>

theorem evaluate_answers:
  assumes "tk_reply t \<noteq> []" "\<forall>r. ha_marshal h r \<noteq> None"
  shows "\<exists>rep. w_sent (evaluate h t left shed w) = w_sent w @ [(tk_reply t, the (ha_marshal h rep))] \<and>
     rp_rid rep = q_rid (tk_req t) \<and>
     (shed \<noteq> [] \<longrightarrow> rp_verdict rep = VerdictError \<and> rp_reason rep = Some \<lparr>rn_code = shed, rn_class = ClassOverload\<rparr>) \<and>
     (shed \<noteq> [] \<or> ha_store h \<noteq> None \<longrightarrow>
        rp_v rep = q_v (tk_req t) \<and> rp_inspector rep = q_inspector (tk_req t))"
  using assms by (rule evaluate_sends)

text \<open>What \<open>receive\<close> does with a message that decodes.\<close>

lemma receive_refuses:
  assumes "reply_to \<noteq> []" "\<forall>r. ha_marshal h r \<noteq> None" "receive h reply_to payload w = (None, send h reply_to rep r no_details w)"
    "rp_verdict rep = VerdictError" "rp_rid rep = q_rid req" "rp_reason rep = Some \<lparr>rn_code = code, rn_class = []\<rparr>"
    "rp_score rep = None"
  shows "\<exists>rep r. receive h reply_to payload w = (None, send h reply_to rep r no_details w) \<and>
     w_sent (send h reply_to rep r no_details w) = w_sent w @ [(reply_to, the (ha_marshal h rep))] \<and>
     rp_verdict rep = VerdictError \<and> rp_rid rep = q_rid req \<and> rp_reason rep = Some \<lparr>rn_code = code, rn_class = []\<rparr>"
  using assms(3-6) send_replies [OF assms(1,2) assms(7), of r no_details w] by blast

lemma receive_decoded:
  assumes "reply_to \<noteq> []" "\<forall>r. ha_marshal h r \<noteq> None" "set (ha_order h) = {NeedHeaders, NeedArgs, NeedBody}"
    and req: "ha_parse h payload = Some req"
  shows "if request_ok req \<and> q_v req \<in> set (ha_versions h) \<and> q_phase req = PhaseRequest
       then receive h reply_to payload w = (Some \<lparr>tk_req = req, tk_reply = reply_to, tk_fill = 0, tk_enqueued = 0\<rparr>, w)
       else \<exists>rep r. receive h reply_to payload w = (None, send h reply_to rep r no_details w) \<and>
         w_sent (send h reply_to rep r no_details w) = w_sent w @ [(reply_to, the (ha_marshal h rep))] \<and>
         rp_verdict rep = VerdictError \<and> rp_rid rep = q_rid req \<and>
         rp_reason rep = Some
           \<lparr>rn_code = (if \<not> request_ok req then codeMalformed
                      else if q_v req \<notin> set (ha_versions h) then codeUnsupportedVersion else CodeWrongPhase),
            rn_class = []\<rparr>"
proof -
  note pc = parse_core [where unmarshal = "ha_parse h" and payload = payload and req = req, OF assms(3) req]
  note refuse = receive_refuses [OF assms(1,2)]
  have p: "request_ok req \<Longrightarrow> Parse (ha_parse h) (ha_order h) payload = Inr req" using pc by blast
  have sup: "Supports (ha_versions h) (q_v req) \<longleftrightarrow> q_v req \<in> set (ha_versions h)"
    by (auto simp: Supports_def list_ex_iff)
  consider (bad) "\<not> request_ok req" | (version) "request_ok req" "q_v req \<notin> set (ha_versions h)"
    | (phase) "request_ok req" "q_v req \<in> set (ha_versions h)" "q_phase req \<noteq> PhaseRequest"
    | (good) "request_ok req" "q_v req \<in> set (ha_versions h)" "q_phase req = PhaseRequest" by blast
  then show ?thesis
  proof cases
    case bad
    then obtain e where e: "Parse (ha_parse h) (ha_order h) payload = Inl e" "pe_rid e = q_rid req"
      using pc by (cases "Parse (ha_parse h) (ha_order h) payload") auto
    have "receive h reply_to payload w =
        (None, send h reply_to (FallbackReply (pe_rid e) (ha_name h) codeMalformed) None no_details w)"
      by (simp add: receive_def e)
    from refuse [OF this, of req codeMalformed] show ?thesis using bad e(2) by simp
  next
    case version
    then have "receive h reply_to payload w =
        (None, send h reply_to ((ErrorReply req codeUnsupportedVersion)\<lparr>rp_v := Version\<rparr>) (Some req) no_details w)"
      using p sup by (simp add: receive_def)
    from refuse [OF this, of req codeUnsupportedVersion] show ?thesis using version by simp
  next
    case phase
    then have "receive h reply_to payload w = (None, send h reply_to (ErrorReply req CodeWrongPhase) (Some req) no_details w)"
      using p sup by (simp add: receive_def)
    from refuse [OF this, of req CodeWrongPhase] show ?thesis using phase by simp
  next
    case good
    then show ?thesis using p sup by (simp add: receive_def)
  qed
qed

text \<open>C34: A message is answered or queued. \<open>receive\<close> hands the pool a task exactly for a well-formed request of
  a supported version in the request phase, and then publishes nothing; any other message gets one
  error reply at once, on its own subject, with the code that names what was wrong, and with the
  request's id wherever the message decodes.\<close>

theorem receive_answers:
  assumes "reply_to \<noteq> []" "\<forall>r. ha_marshal h r \<noteq> None" "set (ha_order h) = {NeedHeaders, NeedArgs, NeedBody}"
  shows "case ha_parse h payload of
     None \<Rightarrow> \<exists>rep. receive h reply_to payload w =
         (None, send h reply_to rep None no_details w) \<and>
       w_sent (send h reply_to rep None no_details w) = w_sent w @ [(reply_to, the (ha_marshal h rep))] \<and>
       rp_reason rep = Some \<lparr>rn_code = codeMalformed, rn_class = []\<rparr> \<and> rp_rid rep = sniffRID payload
   | Some req \<Rightarrow>
       if request_ok req \<and> q_v req \<in> set (ha_versions h) \<and> q_phase req = PhaseRequest
       then receive h reply_to payload w =
         (Some \<lparr>tk_req = req, tk_reply = reply_to, tk_fill = 0, tk_enqueued = 0\<rparr>, w)
       else \<exists>rep r. receive h reply_to payload w = (None, send h reply_to rep r no_details w) \<and>
         w_sent (send h reply_to rep r no_details w) = w_sent w @ [(reply_to, the (ha_marshal h rep))] \<and>
         rp_verdict rep = VerdictError \<and> rp_rid rep = q_rid req \<and>
         rp_reason rep = Some
           \<lparr>rn_code = (if \<not> request_ok req then codeMalformed
                      else if q_v req \<notin> set (ha_versions h) then codeUnsupportedVersion else CodeWrongPhase),
            rn_class = []\<rparr>"
proof (cases "ha_parse h payload")
  case None
  let ?rep = "FallbackReply (sniffRID payload) (ha_name h) codeMalformed"
  show ?thesis
    unfolding None option.case
    by (intro exI [of _ ?rep]) (simp add: None receive_def Parse_def send_replies [OF assms(1,2)])
next
  case (Some req)
  show ?thesis unfolding Some option.case by (rule receive_decoded [OF assms Some])
qed

text \<open>A result that carries all of a redirect of the profile, whatever its verdict.\<close>

definition ticketed :: "'info hand \<Rightarrow> profile option \<Rightarrow> input \<Rightarrow> result \<Rightarrow> bool" where
  "ticketed h prof i res \<longleftrightarrow>
     (\<exists>p. prof = Some p \<and> r_cookies res = issueTicket i p (ha_token h) (ha_rnd h) (attemptOf i p (ha_token h)) \<and>
        issueTicket i p (ha_token h) (ha_rnd h) (attemptOf i p (ha_token h)) \<noteq> [] \<and>
        has_prefix (r_redirect_url res) (p_path p) \<and> r_redirect_status res = g_redirect_status (p_gate p))"

lemma check_ticketed:
  assumes "res = Check i (ha_token h) rv cl (ha_rnd h)" "r_verdict res = VerdictRedirect \<or> r_inline res" "i_profile i = prof"
  shows "ticketed h prof i res"
  using assms(2)
proof
  assume "r_verdict res = VerdictRedirect"
  then show ?thesis using assms(3) unfolding assms(1) by (elim check_redirect) (auto simp: ticketed_def)
next
  assume "r_inline res"
  then show ?thesis using assms(3) unfolding assms(1) by (elim check_inline) (auto simp: ticketed_def)
qed

lemma ticketed_reply:
  assumes "ticketed h prof i res" "r_verdict res = VerdictRedirect"
  shows "\<exists>p rd c. prof = Some p \<and> rp_redirect (toReply req res) = Some rd \<and> has_prefix (rd_url rd) (p_path p) \<and>
    rd_status rd = g_redirect_status (p_gate p) \<and> rp_cookies (toReply req res) = [c] \<and> ck_name c = ch_cookie (p_challenge p)"
proof -
  obtain p where p: "prof = Some p" "r_cookies res = issueTicket i p (ha_token h) (ha_rnd h) (attemptOf i p (ha_token h))"
    "issueTicket i p (ha_token h) (ha_rnd h) (attemptOf i p (ha_token h)) \<noteq> []"
    "has_prefix (r_redirect_url res) (p_path p)" "r_redirect_status res = g_redirect_status (p_gate p)"
    using assms(1) unfolding ticketed_def by blast
  from issue_ticket_one [OF p(3)] obtain c where "r_cookies res = [c]" "ck_name c = ch_cookie (p_challenge p)"
    unfolding p(2) by blast
  then show ?thesis using to_reply_redirect [OF assms(2)] p(1,4,5) by simp
qed

text \<open>C9: A challenge never goes out half made. When the reply carries a rewrite, the form is in the store under the
  key the reply names, with the size and the hash it announces and at most one mebibyte of it, the verdict
  is deny and the profile asked for inline forms. When the form could not be had the reply is a redirect;
  and every redirect, that one included, names the profile's page and status and carries the ticket.
  A verdict without a rewrite leaves no form behind.\<close>

theorem inline_or_redirect:
  assumes "inspect h req fill w = (Some (rep, det), w')"
  shows "(\<forall>rw. rp_rewrite rep = Some rw \<longrightarrow> rp_verdict rep = VerdictDeny \<and>
       (\<exists>body ctype. w_forms w' = w_forms w @ [(form_key req, body)] \<and> length body \<le> formMax \<and>
         rw = \<lparr>rw_body = Some \<lparr>rb_key = form_key req, rb_size = int (length body),
                                rb_sha256 = hex_encode (sha256 body)\<rparr>, rw_content_type = ctype\<rparr>)) \<and>
     (rp_rewrite rep = None \<and> rp_verdict rep \<noteq> VerdictError \<longrightarrow> w_forms w' = w_forms w) \<and>
     (rp_verdict rep = VerdictRedirect \<longrightarrow> (\<exists>p rd c.
       snap_profile (Some (ha_snapshot h)) (rt_profile (q_route req)) = Some p \<and> rp_redirect rep = Some rd \<and>
       has_prefix (rd_url rd) (p_path p) \<and> rd_status rd = g_redirect_status (p_gate p) \<and>
       rp_cookies rep = [c] \<and> ck_name c = ch_cookie (p_challenge p)))"
  using assms
proof (cases rule: inspect_cases)
  case (failed rep' det')
  then show ?thesis using gather_error [OF failed(1)] by auto
next
  case (answered i ls w1 res rw w2 actions w3 det')
  let ?prof = "snap_profile (Some (ha_snapshot h)) (rt_profile (q_route req))"
  let ?res = "Check i (ha_token h) (ha_revoked h) (ha_clearances h) (ha_rnd h)"
  have rep: "rp_rewrite rep = rw" "rp_verdict rep = r_verdict res" "rp_redirect rep = rp_redirect (toReply req res)"
      "rp_cookies rep = rp_cookies (toReply req res)"
    using answered(4) by simp_all
  have forms: "w_forms w1 = w_forms w" "w_forms w3 = w_forms w2" "w_forms w' = w_forms w3"
    using gather_world [OF answered(1)] fire_all_world [OF answered(3)] answered(6) by simp_all
  have prof: "i_profile i = ?prof" by (rule gather_profile [OF answered(1)])
  from answered(2) show ?thesis
  proof (cases rule: place_form_cases)
    case plain
    have "ticketed h ?prof i res" if "r_verdict res = VerdictRedirect"
      using check_ticketed [OF plain(2) _ prof] that by blast
    with plain(3,4) forms rep ticketed_reply show ?thesis by auto
  next
    case (placed p rw0)
    from inline_form_placed [OF placed(3)] obtain body ctype where
      b: "w_forms w2 = w_forms w1 @ [(form_key req, body)]" "length body \<le> formMax"
      "rw0 = \<lparr>rw_body = Some \<lparr>rb_key = form_key req, rb_size = int (length body), rb_sha256 = hex_encode (sha256 body)\<rparr>,
              rw_content_type = ctype\<rparr>" by blast
    have "r_verdict res = VerdictDeny" using placed(1) unfolding placed(4) by (elim check_inline)
    then show ?thesis using b forms rep placed(5) by auto
  next
    case (refused p err e)
    have "ticketed h ?prof i ?res" using check_ticketed [OF refl _ prof] refused(1) by blast
    then have "ticketed h ?prof i res" by (simp add: refused(7) ticketed_def)
    with refused(5,6,7) forms rep ticketed_reply [of h ?prof i res req] show ?thesis by auto
  qed
qed auto

lemma entry_core:
  assumes prof: "snap_profile (Some (ha_snapshot h)) (rt_profile (q_route req)) = Some p" "p_mode p = ModeEnforce"
      "\<not> OwnPath p (h_uri (q_http req))"
    and asks: "ru_when (RuleFor p (h_method (q_http req)) (h_uri (q_http req))) = WhenAlways"
      "\<not> as_skip (PriorAsk (q_prior req) (Some p))"
    and out: "inspect h req fill w = (Some (rep, det), w')" "rp_verdict rep = VerdictAllow"
  shows "\<exists>pairs args why c.
     Pair (ha_store h) (st_headers (q_store req)) (st_args (q_store req)) = (pairs, args, why, False) \<and>
     OpenClearance (ha_token h) (header_cookie pairs (cc_cookie (p_clearance p))) (ha_now h)
       (want_bind p (client_ip (q_conn req)) (header_value pairs ''user-agent'')) = (Some c, None) \<and>
     unix (ha_now h) < c_expiry c \<and>
     (\<forall>rv. ha_revoked h = Some rv \<and> c_fp c \<noteq> [] \<longrightarrow> \<not> rv (''fp:'' @ c_fp c)) \<and>
     (ListEnabled (p_clearance p) \<and> ha_now h - from_unix (c_issued c) > cc_grace (p_clearance p) \<longrightarrow>
        (\<exists>f. ha_clearances h = Some f \<and> f (cc_list (p_clearance p)) (c_jti c) = (True, True)))"
  using out(1)
proof (cases rule: inspect_cases)
  case (failed rep' det')
  then show ?thesis using gather_error [OF failed(1)] out(2) by auto
next
  case (answered i ls w1 res rw w2 actions w3 det')
  have fetched: "gather h req (Some p) w = (Inr (i, ls), w1)" using answered(1) prof(1) by simp
  obtain i0 where i0: "read_input h req p = Inr i0"
    "i = (if buckets_enabled (p_buckets p) then i0\<lparr>i_levels := percentsOf ls\<rparr> else i0)"
    using gather_cases [OF fetched] prof(2) by auto
  from read_input_cases [OF i0(1)] obtain pairs args why where
    pr: "Pair (ha_store h) (st_headers (q_store req)) (st_args (q_store req)) = (pairs, args, why, False)" and
    i0': "i0 = (store_input h req p pairs args why)
       \<lparr>i_opened := Some (Open_input (store_input h req p pairs args why) (ha_token h) (ha_revoked h)
          (ha_clearances h))\<rparr>" .
  have f: "i_profile i = Some p" "i_method i = h_method (q_http req)" "i_uri i = h_uri (q_http req)"
    "i_client_ip i = client_ip (q_conn req)" "i_now i = ha_now h"
    "i_clearance i = header_cookie pairs (cc_cookie (p_clearance p))"
    "i_user_agent i = header_value pairs ''user-agent''" "i_asked i = PriorAsk (q_prior req) (Some p)"
    "i_opened i = Some (Open_input i (ha_token h) (ha_revoked h) (ha_clearances h))"
    by (simp_all add: i0(2) i0')
  have "r_verdict res = VerdictAllow" using answered(4) out(2) by simp
  with answered(2) have "r_verdict (Check i (ha_token h) (ha_revoked h) (ha_clearances h) (ha_rnd h)) = VerdictAllow"
    by (cases rule: place_form_cases) (auto elim: check_inline)
  from gate_core [OF f(1) prof(2) _ _ _ _ this] obtain c where
    c: "clearance_good i p (ha_token h) (ha_revoked h) (ha_clearances h) c" "unix (i_now i) < c_expiry c"
    using prof(3) asks f by auto
  show ?thesis
    using pr c f by (intro exI [of _ pairs] exI [of _ args] exI [of _ why] exI [of _ c])
      (auto simp: clearance_good_def)
qed (use out(2) in auto)

text \<open>C1: The gate, end to end. When a request comes in on a profile in enforce mode, on a path that always asks,
  outside the captcha's own pages and with no accepted skip, and the reply is allow, then the headers
  fetched from the store carried a clearance cookie that opens under the process's key for the client's
  address and user agent, unexpired, with a fingerprint the roster does not hold revoked and, where the
  profile keeps a list and the grace is over, an id the list holds.\<close>

theorem no_entry_without_clearance:
  assumes prof: "snap_profile (Some (ha_snapshot h)) (rt_profile (q_route req)) = Some p" "p_mode p = ModeEnforce"
      "\<not> OwnPath p (h_uri (q_http req))"
    and asks: "ru_when (RuleFor p (h_method (q_http req)) (h_uri (q_http req))) = WhenAlways"
      "\<not> as_skip (PriorAsk (q_prior req) (Some p))"
    and out: "inspect h req fill w = (Some (rep, det), w')" "rp_verdict rep = VerdictAllow"
  shows "\<exists>pairs args why c.
     Pair (ha_store h) (st_headers (q_store req)) (st_args (q_store req)) = (pairs, args, why, False) \<and>
     OpenClearance (ha_token h) (header_cookie pairs (cc_cookie (p_clearance p))) (ha_now h)
       (want_bind p (client_ip (q_conn req)) (header_value pairs ''user-agent'')) = (Some c, None) \<and>
     unix (ha_now h) < c_expiry c \<and>
     (\<forall>rv. ha_revoked h = Some rv \<and> c_fp c \<noteq> [] \<longrightarrow> \<not> rv (''fp:'' @ c_fp c)) \<and>
     (ListEnabled (p_clearance p) \<and> ha_now h - from_unix (c_issued c) > cc_grace (p_clearance p) \<longrightarrow>
        (\<exists>f. ha_clearances h = Some f \<and> f (cc_list (p_clearance p)) (c_jti c) = (True, True)))"
  by (rule entry_core [OF prof asks out])

section \<open>A sample run\<close>

definition toy_snapshot :: snapshot where
  "toy_snapshot = \<lparr>sn_gen = 1, sn_fingerprint = [], sn_by_name = [(DefaultName, cleared_profile)],
     sn_by_path = [], sn_names = [DefaultName], sn_roster = p_roster cleared_profile,
     sn_limits = p_limits cleared_profile\<rparr>"

definition toy_store :: store_client where
  "toy_store = \<lparr>sc_get = (\<lambda>k. if k = ''k'' then Got ''h'' else GotNil), sc_mget = (\<lambda>_. None),
     sc_json = (\<lambda>_. Some [(''Cookie'', cookie_line [(''waf_clr'', toy_raw)])])\<rparr>"

definition toy_hand :: "unit hand" where
  "toy_hand = \<lparr>ha_name = ''captcha'', ha_versions = [2], ha_token = toy_key, ha_snapshot = toy_snapshot,
     ha_store = Some toy_store, ha_put = (\<lambda>_ _ _. None), ha_backend = Local, ha_evict_order = [],
     ha_bucket_prefix = [], ha_bucket_error = [], ha_revoked = None, ha_clearances = None, ha_geo = no_geo,
     ha_geo_error = [], ha_lists = False, ha_forms = None, ha_rnd = sample_rnd, ha_now = from_unix 150,
     ha_elapsed = 0, ha_parse = (\<lambda>s. if s = ''ok'' then Some sample_request else None),
     ha_order = [NeedHeaders, NeedArgs, NeedBody], ha_marshal = (\<lambda>r. Some (rp_rid r @ rp_verdict r)),
     ha_event = (\<lambda>_. None), ha_ts = []\<rparr>"

definition toy_request :: request where
  "toy_request = sample_request
     \<lparr>q_store := \<lparr>st_headers = Some (sample_locator ''k''), st_args = None, st_body = None\<rparr>\<rparr>"

definition toy_world :: world where
  "toy_world = \<lparr>w_ledger = sample_ledger, w_stats = [], w_audit = NewSink, w_sent = [], w_writes = [], w_forms = []\<rparr>"

theorem receive_answers_witness:
  "receive toy_hand ''r'' ''ok'' toy_world =
     (Some \<lparr>tk_req = sample_request, tk_reply = ''r'', tk_fill = 0, tk_enqueued = 0\<rparr>, toy_world)"
proof -
  have a: "''r'' \<noteq> []" "\<forall>r. ha_marshal toy_hand r \<noteq> None" "set (ha_order toy_hand) = {NeedHeaders, NeedArgs, NeedBody}"
    by (simp_all add: toy_hand_def)
  have b: "request_ok sample_request \<and> q_v sample_request \<in> set (ha_versions toy_hand) \<and>
      q_phase sample_request = PhaseRequest"
    by (simp add: request_ok_def sample_request_def locator_ok_def toy_hand_def)
  have c: "ha_parse toy_hand ''ok'' = Some sample_request" by (simp add: toy_hand_def)
  show ?thesis
    using receive_answers [OF a, of "''ok''" toy_world] by (simp only: c option.case b if_True simp_thms)
qed

theorem evaluate_answers_witness:
  "\<exists>rep. w_sent (evaluate toy_hand sample_task 0 ReasonQueueLimit toy_world) =
     [(''_INBOX'', the (ha_marshal toy_hand rep))] \<and> rp_verdict rep = VerdictError"
proof -
  have a: "tk_reply sample_task \<noteq> []" "\<forall>r. ha_marshal toy_hand r \<noteq> None" by (simp_all add: toy_hand_def sample_task_def)
  show ?thesis
    using evaluate_answers [OF a, of 0 ReasonQueueLimit toy_world]
    by (auto simp: toy_world_def sample_task_def)
qed

lemma toy_profile:
  "snap_profile (Some (ha_snapshot toy_hand)) (rt_profile (q_route toy_request)) = Some cleared_profile"
  by (simp add: snap_profile_def toy_hand_def toy_snapshot_def toy_request_def sample_request_def)

lemma cleared_profile_quiet:
  "p_rules cleared_profile = []" "\<not> buckets_enabled (p_buckets cleared_profile)"
  "p_mode cleared_profile \<noteq> ModeOff" "cc_cookie (p_clearance cleared_profile) = ''waf_clr''"
  "ch_cookie (p_challenge cleared_profile) = ''waf_cap''" "tg_prior (p_trigger cleared_profile) = []"
  by (simp_all add: cleared_profile_def sample_profile_def defaults_def Let_def buckets_enabled_def
      tier_enabled_def zero_tier_def)

lemma no_rules_no_fire:
  assumes "p_rules p = []"
  shows "fire_all h req (Some p) i ls res fill w = (Some [], w)"
proof -
  have a: "fireBucketFull g writer p subj ip ls nxt = no_fired"
    "fireClient g writer p subj ip on nxt clr = no_fired" "fireOverload g writer p subj ip fill shed = no_fired"
    for g :: "'a geo" and writer subj ip nxt on clr shed
    using assms by (simp_all add: fireBucketFull_def fireClient_def fireOverload_def RulesFor_def)
  have b: "settle_world h p no_fired w = w" for w :: world
    by (simp add: settle_world_def no_fired_def settle_def)
  show ?thesis by (simp add: fire_all_def a b Let_def) (simp add: no_fired_def)
qed

lemma toy_raw_cookie: "header_cookie [(''Cookie'', cookie_line [(''waf_clr'', toy_raw)])] ''waf_clr'' = toy_raw"
proof -
  have "cookie_ok (''waf_clr'', toy_raw)" unfolding toy_raw_def by code_simp
  then have "cookieFrom (cookie_line [(''waf_clr'', toy_raw)]) ''waf_clr'' = toy_raw"
    using cookie_search [of "[(''waf_clr'', toy_raw)]" "[]" "''waf_clr''"] by simp
  moreover have "equal_fold ''Cookie'' ''cookie''" by code_simp
  ultimately show ?thesis by (simp add: toy_raw_nonempty)
qed

lemma toy_pair:
  "Pair (ha_store toy_hand) (st_headers (q_store toy_request)) (st_args (q_store toy_request)) =
     ([(''Cookie'', cookie_line [(''waf_clr'', toy_raw)])], [], [], False)"
  by (simp add: Pair_def toy_hand_def toy_request_def Headers_def sample_locator_def toy_store_def store_get_def
      argsOf_def Let_def)

lemma toy_inspect:
  "\<exists>rep det w'. inspect (toy_hand\<lparr>ha_clearances := cl\<rparr>) toy_request 0 toy_world = (Some (rep, det), w') \<and>
     rp_verdict rep = VerdictAllow"
proof -
  let ?h = "toy_hand\<lparr>ha_clearances := cl\<rparr>"
  let ?pairs = "[(''Cookie'', cookie_line [(''waf_clr'', toy_raw)])]"
  let ?i0 = "store_input ?h toy_request cleared_profile ?pairs [] []"
  let ?i = "?i0\<lparr>i_opened := Some (Open_input ?i0 toy_key None cl)\<rparr>"
  have h: "ha_token ?h = toy_key" "ha_revoked ?h = None" "ha_clearances ?h = cl"
    "ha_now ?h = from_unix 150"
    by (simp_all add: toy_hand_def)
  have s: "ha_store ?h = ha_store toy_hand" by simp
  note toy_pair
  then have ri: "read_input ?h toy_request cleared_profile = Inr ?i"
    by (simp add: read_input_def h s Let_def)
  have g: "gather ?h toy_request (Some cleared_profile) toy_world = (Inr (?i, []), toy_world)"
    using cleared_profile_quiet by (simp add: gather_def ri charge_input_def)
  have f: "i_profile ?i = Some cleared_profile" "i_clearance ?i = toy_raw" "i_now ?i = from_unix 150"
    "i_uri ?i = ''/''"
    using toy_raw_cookie cleared_profile_quiet(4)
    by (simp_all add: h) (simp add: toy_request_def sample_request_def)
  have good: "clearance_good ?i0 cleared_profile toy_key None cl toy_clearance"
    using f by (simp add: clearance_good_def cleared_want toy_opens cleared_profile_facts)
  have op: "opened_of ?i toy_key None cl = Open_input ?i0 toy_key None cl"
    by (simp add: opened_of_def)
  have clr: "op_clearance (Open_input ?i0 toy_key None cl) = Some toy_clearance"
    using open_clearance_good [of ?i0 cleared_profile toy_key None cl toy_clearance] good f(2)
      open_input_clearance(1) [of ?i0 cleared_profile toy_key None cl] toy_raw_nonempty by simp
  have "op_code (Open_input ?i0 toy_key None cl) \<noteq> CodeListUnavailable"
    using open_clearance_list [of ?i0 cleared_profile toy_key None cl]
      open_input_clearance(2) [of ?i0 cleared_profile toy_key None cl] cleared_profile_facts(6) by auto
  then have v: "r_verdict (Check ?i toy_key None cl sample_rnd) = VerdictAllow"
    unfolding decision_table [OF f(1)] op
    using clr by (simp add: verdict_spec_def passes_clearance_def bucketFull_def cleared_profile_facts Let_def)
  have ni: "\<not> r_inline (Check ?i toy_key None cl sample_rnd)"
  proof
    assume "r_inline (Check ?i toy_key None cl sample_rnd)"
    then show False by (rule check_inline) (use v in simp)
  qed
  have rnd: "ha_rnd ?h = sample_rnd" by (simp add: toy_hand_def)
  have sn: "ha_snapshot ?h = ha_snapshot toy_hand" by simp
  show ?thesis
    unfolding inspect_def sn toy_profile g Let_def
    using ni v by (simp add: place_form_def h rnd no_rules_no_fire cleared_profile_quiet)
qed

lemma toy_asked:
  "h_uri (q_http toy_request) = ''/''" "q_prior toy_request = []" "\<not> OwnPath cleared_profile ''/''"
  by (simp_all add: toy_request_def sample_request_def)
    (simp add: OwnPath_def cleared_profile_def sample_profile_def defaults_def trim_right_def has_prefix_def Let_def)

theorem no_entry_without_clearance_witness:
  "\<exists>c. OpenClearance toy_key toy_raw (from_unix 150) \<lparr>b_net = [], b_ua = []\<rparr> = (Some c, None) \<and>
     150 < c_expiry c"
proof -
  obtain rep det w' where out: "inspect toy_hand toy_request 0 toy_world = (Some (rep, det), w')"
    "rp_verdict rep = VerdictAllow" using toy_inspect [of None] by (auto simp: toy_hand_def)
  have h: "ha_token toy_hand = toy_key" "ha_now toy_hand = from_unix 150" by (simp_all add: toy_hand_def)
  show ?thesis
    using no_entry_without_clearance [OF toy_profile cleared_profile_facts(1) _ cleared_profile_facts(3) _ out]
    by (simp add: toy_asked PriorAsk_def empty_asked_def toy_pair h cleared_want cleared_profile_quiet(4) toy_raw_cookie
        del: header_cookie.simps) blast
qed

text \<open>The same hand with a form page, for a profile that wants the form inline.\<close>

definition inline_profile :: profile where
  "inline_profile = cleared_profile\<lparr>p_gate := (p_gate cleared_profile)\<lparr>g_inline := True\<rparr>\<rparr>"

definition form_hand :: "unit hand" where
  "form_hand = toy_hand
     \<lparr>ha_snapshot := toy_snapshot\<lparr>sn_by_name := [(DefaultName, inline_profile)]\<rparr>,
      ha_store := Some (toy_store\<lparr>sc_json := \<lambda>_. Some [(''Accept'', ''text/html'')]\<rparr>),
      ha_forms := Some \<lparr>ff_base = [], ff_do = \<lambda>_. Inr (200, Inr ''form'', ''text/html'')\<rparr>\<rparr>"

lemma check_asks_inline:
  assumes p: "i_profile i = Some p" "p_mode p = ModeEnforce" "\<not> OwnPath p (i_uri i)" "FormInline p" "navigational i p"
    and o: "opened_of i key rv cl = \<lparr>op_clearance = None, op_code = CodeRequired, op_findings = []\<rparr>"
    and w: "ru_when (RuleFor p (i_method i) (i_uri i)) = WhenAlways" "\<not> as_skip (i_asked i)"
    and t: "issueTicket i p key rnd (attemptOf i p key) \<noteq> []"
  shows "r_inline (Check i key rv cl rnd)"
proof -
  have tr: "trigger_of i p (opened_of i key rv cl) \<noteq> []"
    using w o by (simp add: trigger_of_def required_def)
  obtain e where e: "check_body i key rv cl rnd = decide_opened i p key rnd (opened_of i key rv cl) e"
    using check_body_cases [OF p(1), of key rv cl rnd] p(2,3) by auto
  obtain tg code fi e' where "decide_opened i p key rnd (opened_of i key rv cl) e =
      challenge_result i p key rnd tg code fi e'"
    using decide_opened_cases [of "opened_of i key rv cl" i p key rnd e] o tr p(2)
    by (auto simp: passes_clearance_def)
  then have "check_body i key rv cl rnd = challenge_result i p key rnd tg code fi e'" using e by simp
  then show ?thesis using p(4,5) t by (simp add: challenge_result_def Let_def)
qed

lemma form_page:
  "page_fetch \<lparr>ff_base = [], ff_do = \<lambda>_. Inr (200, Inr ''form'', ''text/html'')\<rparr> path cookie ip ua =
     Inr (''form'', ''text/html'')"
  by (simp add: page_fetch_def formMax_def contains_any_def)

definition form_input :: input where
  "form_input =
     (let i = store_input form_hand toy_request inline_profile [(''Accept'', ''text/html'')] [] []
      in i\<lparr>i_opened := Some (Open_input i toy_key None None)\<rparr>)"

lemma form_hand_facts:
  "ha_token form_hand = toy_key" "ha_revoked form_hand = None" "ha_clearances form_hand = None"
  "ha_rnd form_hand = sample_rnd"
  "ha_forms form_hand = Some \<lparr>ff_base = [], ff_do = \<lambda>_. Inr (200, Inr ''form'', ''text/html'')\<rparr>"
  "ha_put form_hand k v d = None" "ha_store form_hand = Some (toy_store\<lparr>sc_json := \<lambda>_. Some [(''Accept'', ''text/html'')]\<rparr>)"
  "snap_profile (Some (ha_snapshot form_hand)) (rt_profile (q_route toy_request)) = Some inline_profile"
  by (simp_all add: form_hand_def toy_hand_def snap_profile_def toy_snapshot_def toy_request_def sample_request_def)

lemma inline_profile_facts:
  "p_rules inline_profile = []" "\<not> buckets_enabled (p_buckets inline_profile)" "p_mode inline_profile = ModeEnforce"
  "cc_cookie (p_clearance inline_profile) = ''waf_clr''" "ch_cookie (p_challenge inline_profile) = ''waf_cap''"
  "FormInline inline_profile" "RuleFor inline_profile = RuleFor cleared_profile"
  using cleared_profile_quiet cleared_profile_facts(1) by (simp_all add: inline_profile_def FormInline_def RuleFor_def fun_eq_iff)

lemma form_gather: "gather form_hand toy_request (Some inline_profile) toy_world = (Inr (form_input, []), toy_world)"
proof -
  have "Pair (ha_store form_hand) (st_headers (q_store toy_request)) (st_args (q_store toy_request)) =
      ([(''Accept'', ''text/html'')], [], [], False)"
    by (simp add: Pair_def form_hand_def toy_hand_def toy_request_def Headers_def sample_locator_def toy_store_def
        store_get_def argsOf_def Let_def)
  then have "read_input form_hand toy_request inline_profile = Inr form_input"
    by (simp add: read_input_def form_hand_facts form_input_def Let_def)
  then show ?thesis using inline_profile_facts(1,2,3) by (simp add: gather_def charge_input_def)
qed

lemma form_input_facts:
  "i_profile form_input = Some inline_profile" "i_clearance form_input = []" "i_uri form_input = ''/''"
  "i_method form_input = ''GET''" "i_accept form_input = ''text/html''" "i_sec_fetch_dest form_input = []"
  "i_store_unavailable form_input = []" "\<not> as_skip (i_asked form_input)"
proof -
  have eq: "\<not> equal_fold ''Accept'' ''cookie''" "equal_fold ''Accept'' ''accept''"
    "\<not> equal_fold ''Accept'' ''sec-fetch-dest''" by code_simp+
  show "i_profile form_input = Some inline_profile" "i_clearance form_input = []" "i_uri form_input = ''/''"
    "i_method form_input = ''GET''" "i_accept form_input = ''text/html''" "i_sec_fetch_dest form_input = []"
    "i_store_unavailable form_input = []" "\<not> as_skip (i_asked form_input)"
    by (simp_all add: form_input_def Let_def inline_profile_facts eq)
       (simp_all add: store_input_def base_input_def toy_request_def sample_request_def eq PriorAsk_def empty_asked_def)
qed

lemma form_check:
  "r_inline (Check form_input toy_key None None sample_rnd)"
  "r_cookies (Check form_input toy_key None None sample_rnd) =
     issueTicket form_input inline_profile toy_key sample_rnd (attemptOf form_input inline_profile toy_key)"
proof -
  note f = form_input_facts
  have op: "opened_of form_input toy_key None None = \<lparr>op_clearance = None, op_code = CodeRequired, op_findings = []\<rparr>"
    using f(2,7) by (simp add: form_input_def Let_def opened_of_def Open_input_def open_clearance_def)
  have nav: "navigational form_input inline_profile"
    unfolding navigational_def f showsPage_def
    by (simp add: RedirectsMethod_def inline_profile_def cleared_profile_def
        sample_profile_def defaults_def acceptsHTML_def has_prefix_def Let_def)
  show inl: "r_inline (Check form_input toy_key None None sample_rnd)"
  proof (rule check_asks_inline [OF f(1) _ _ _ nav op _ _ toy_ticket_sealed])
    show "p_mode inline_profile = ModeEnforce" "FormInline inline_profile" by (rule inline_profile_facts)+
    show "\<not> OwnPath inline_profile (i_uri form_input)" unfolding f(3)
      by (simp add: OwnPath_def inline_profile_def cleared_profile_def sample_profile_def defaults_def trim_right_def
          has_prefix_def Let_def)
    show "ru_when (RuleFor inline_profile (i_method form_input) (i_uri form_input)) = WhenAlways"
      using cleared_profile_facts(3) by (simp add: inline_profile_facts)
  qed (rule f)
  show "r_cookies (Check form_input toy_key None None sample_rnd) =
     issueTicket form_input inline_profile toy_key sample_rnd (attemptOf form_input inline_profile toy_key)"
    by (rule check_inline [OF inl]) (use f(1) in simp)
qed

lemma form_inspect:
  "\<exists>rep det w' rw. inspect form_hand toy_request 0 toy_world = (Some (rep, det), w') \<and> rp_rewrite rep = Some rw"
proof -
  let ?tick = "issueTicket form_input inline_profile toy_key sample_rnd (attemptOf form_input inline_profile toy_key)"
  have tk: "cookieOf ?tick ''waf_cap'' \<noteq> []"
    by (simp add: issueTicket_def SealTicket_def seal_token_def toy_key_def inline_profile_facts)
  obtain rw w2 where pf: "inlineForm form_hand toy_request inline_profile (Check form_input toy_key None None sample_rnd)
      (i_user_agent form_input) toy_world = (Some (Inr rw), w2)"
    using tk form_check(2) by (auto simp: inlineForm_def inline_profile_facts form_hand_facts form_page)
  show ?thesis
    unfolding inspect_def Let_def form_hand_facts(8) form_gather
    using form_check(1) pf by (simp add: place_form_def form_hand_facts no_rules_no_fire inline_profile_facts)
qed

theorem inline_or_redirect_witness:
  "\<exists>rep det w' body. inspect form_hand toy_request 0 toy_world = (Some (rep, det), w') \<and>
     w_forms w' = [(form_key toy_request, body)]"
proof -
  obtain rep det w' rw where out: "inspect form_hand toy_request 0 toy_world = (Some (rep, det), w')"
    "rp_rewrite rep = Some rw" using form_inspect by blast
  then show ?thesis using inline_or_redirect [OF out(1)] by (auto simp: toy_world_def)
qed

end
