(* ===== verification/Provider.thy ===== *)
theory Provider
  imports Decide Roster
begin

text \<open>
  Package \<open>internal/provider\<close>: the chain of challenge providers of a profile, the image challenge kept in
  the roster, and the external services that verify a token.

  The Go interface \<open>roster.Roster\<close> is the record \<open>'s roster\<close> of operations on a state \<open>'s\<close>, with
  \<open>memory_roster\<close> and \<open>redis_iface\<close> as its two values; \<^const>\<open>None\<close> (or \<open>False\<close>) is an error. Outside
  the repository are the drawing of the picture, the random text, the sound samples, the environment, the
  secret store, the HTTP client and the JSON decoder (record \<open>outside\<close>).
\<close>

section \<open>The roster interface\<close>

record 's roster =
  ro_revoked :: "go_time \<Rightarrow> string \<Rightarrow> 's \<Rightarrow> bool"
  ro_revoke :: "go_time \<Rightarrow> string \<Rightarrow> go_time \<Rightarrow> 's \<Rightarrow> bool \<times> 's"
  ro_burn :: "go_time \<Rightarrow> string \<Rightarrow> string \<Rightarrow> duration \<Rightarrow> 's \<Rightarrow> bool option \<times> 's"
  ro_fail :: "go_time \<Rightarrow> string \<Rightarrow> duration \<Rightarrow> 's \<Rightarrow> int option \<times> 's"
  ro_put :: "go_time \<Rightarrow> string \<Rightarrow> string \<Rightarrow> string \<Rightarrow> duration \<Rightarrow> 's \<Rightarrow> bool \<times> 's"
  ro_get :: "go_time \<Rightarrow> string \<Rightarrow> string \<Rightarrow> 's \<Rightarrow> (get_error + string) \<times> 's"
  ro_del :: "go_time \<Rightarrow> string \<Rightarrow> string \<Rightarrow> 's \<Rightarrow> bool \<times> 's"

definition memory_roster :: "memory roster" where
  "memory_roster =
     \<lparr>ro_revoked = Roster.Revoked,
      ro_revoke = (\<lambda>now sid till m. (True, Revoke sid till m)),
      ro_burn = (\<lambda>now kind rid ttl m. case Burn now kind rid ttl m of (b, m) \<Rightarrow> (Some b, m)),
      ro_fail = (\<lambda>now scope window m. case Fail now scope window m of (n, m) \<Rightarrow> (Some n, m)),
      ro_put = (\<lambda>now kind rid v ttl m. (True, Put now kind rid v ttl m)),
      ro_get = (\<lambda>now kind rid m. case Get now kind rid m of
         (None, m) \<Rightarrow> (Inl NotFound, m) | (Some v, m) \<Rightarrow> (Inr v, m)),
      ro_del = (\<lambda>now kind rid m. (True, Del kind rid m))\<rparr>"

definition redis_iface :: "'s redis_exec \<Rightarrow> (redis_roster \<times> 's) roster" where
  "redis_iface exec =
     \<lparr>ro_revoked = (\<lambda>now sid (r, s). redis_revoked sid r),
      ro_revoke = (\<lambda>now sid till (r, s). case redis_revoke exec sid till r s of (b, s) \<Rightarrow> (b, r, s)),
      ro_burn = (\<lambda>now kind rid ttl (r, s). case redis_burn exec kind rid ttl r s of (b, s) \<Rightarrow> (b, r, s)),
      ro_fail = (\<lambda>now scope window (r, s). case redis_fail exec scope window r s of (n, s) \<Rightarrow> (n, r, s)),
      ro_put = (\<lambda>now kind rid v ttl (r, s). case redis_put exec kind rid v ttl r s of (b, s) \<Rightarrow> (b, r, s)),
      ro_get = (\<lambda>now kind rid (r, s). case redis_get exec kind rid r s of (v, s) \<Rightarrow> (v, r, s)),
      ro_del = (\<lambda>now kind rid (r, s). case redis_del exec kind rid r s of (b, s) \<Rightarrow> (b, r, s))\<rparr>"

section \<open>Providers and the chain\<close>

abbreviation "imageKind \<equiv> ''img''"

datatype provider =
    PImage provider_ref image_config duration
  | PExternal string external_config

definition Kind :: "provider \<Rightarrow> string" where
  "Kind prv = (case prv of PImage _ _ _ \<Rightarrow> ProviderImage | PExternal kind _ \<Rightarrow> kind)"

datatype chain_error = NotImplemented string | NoProviders

definition new_provider :: "profile \<Rightarrow> provider_ref \<Rightarrow> chain_error + provider" where
  "new_provider p ref =
     (if pf_kind ref = ProviderImage
      then Inr (PImage ref (pc_image (p_provider_cfg p)) (ch_ttl (p_challenge p)))
      else if pf_kind ref \<in> {ProviderTurnstile, ProviderReCAPTCHA, ProviderHCaptcha, ProviderSmartCaptcha}
      then Inr (PExternal (pf_kind ref) (External p (pf_kind ref)))
      else Inl (NotImplemented (pf_kind ref)))"

fun new_providers :: "profile \<Rightarrow> provider_ref list \<Rightarrow> chain_error + provider list" where
  "new_providers p [] = Inr []"
| "new_providers p (ref # refs) =
     (case new_provider p ref of
        Inl e \<Rightarrow> Inl e
      | Inr prv \<Rightarrow> (case new_providers p refs of Inl e \<Rightarrow> Inl e | Inr ps \<Rightarrow> Inr (prv # ps)))"

definition chain_refs :: "profile \<Rightarrow> string \<Rightarrow> provider_ref list" where
  "chain_refs p primary =
     (if primary \<noteq> [] \<and> primary \<noteq> pf_kind (p_provider p)
      then (case ProviderRef p primary of
              None \<Rightarrow> Refs p
            | Some ref \<Rightarrow>
                (case p_fallback p of
                   Some f \<Rightarrow> if pf_kind f \<noteq> primary then [ref, f] else [ref, p_provider p]
                 | None \<Rightarrow> [ref, p_provider p]))
      else Refs p)"

definition Chain :: "profile \<Rightarrow> string \<Rightarrow> chain_error + provider list" where
  "Chain p primary =
     (case new_providers p (chain_refs p primary) of
        Inl e \<Rightarrow> Inl e
      | Inr out \<Rightarrow> if out = [] then Inl NoProviders else Inr out)"

definition ByKind :: "provider list \<Rightarrow> string \<Rightarrow> provider option" where
  "ByKind ps kind = find (\<lambda>prv. Kind prv = kind) ps"

section \<open>Issuing\<close>

text \<open>A reply of the HTTP client: the error of the transport, or the status and the body or the error
  of reading it. The requests are the two the code makes.\<close>

datatype verify_request =
    SiteVerify string "(string \<times> string) list"
  | SmartValidate "(string \<times> string) list"

type_synonym http_reply = "(int \<times> string option) option"

record outside =
  ou_text :: "string \<Rightarrow> int \<Rightarrow> string"
  ou_png :: "string \<Rightarrow> string"
  ou_samples :: "string \<Rightarrow> bool"
  ou_audio :: "string \<Rightarrow> string \<Rightarrow> string option"
  ou_getenv :: "string \<Rightarrow> string"
  ou_secrets :: "(string \<Rightarrow> string option) option"
  ou_request_ok :: "verify_request \<Rightarrow> bool"
  ou_do :: "verify_request \<Rightarrow> http_reply"
  ou_site_json :: "string \<Rightarrow> (bool \<times> float64) option"
  ou_smart_json :: "string \<Rightarrow> string option"

datatype challenge_data =
    ImageData string int bool
  | SiteKey string "string option"

record challenge_out =
  co_kind :: string
  co_data :: challenge_data
  co_needs_js :: bool

definition AudioEnabled :: "outside \<Rightarrow> provider_ref \<Rightarrow> image_config \<Rightarrow> bool" where
  "AudioEnabled o' ref cfg \<longleftrightarrow> pf_audio ref = Some True \<and> ou_samples o' (ic_audio_dir cfg)"

definition data_uri :: "string \<Rightarrow> string" where
  "data_uri png = ''data:image/png;base64,'' @ png"

text \<open>\<open>ou_png\<close> gives the picture in standard base64.\<close>

definition image_issue ::
    "outside \<Rightarrow> 's roster \<Rightarrow> go_time \<Rightarrow> provider_ref \<Rightarrow> image_config \<Rightarrow> duration \<Rightarrow> string \<Rightarrow> 's \<Rightarrow>
     challenge_out option \<times> 's" where
  "image_issue o' r now ref cfg ttl nonce s =
     (let text = ou_text o' (ic_alphabet cfg) (pf_length ref)
      in case ro_put r now imageKind nonce text ttl s of
           (False, s) \<Rightarrow> (None, s)
         | (True, s) \<Rightarrow>
             (Some \<lparr>co_kind = ProviderImage,
                    co_data = ImageData (data_uri (ou_png o' text)) (pf_length ref) (AudioEnabled o' ref cfg),
                    co_needs_js = False\<rparr>, s))"

definition external_issue :: "string \<Rightarrow> external_config \<Rightarrow> challenge_out" where
  "external_issue kind cfg =
     \<lparr>co_kind = kind,
      co_data = SiteKey (ex_sitekey cfg) (if kind = ProviderReCAPTCHA then Some (ex_version cfg) else None),
      co_needs_js = True\<rparr>"

definition Issue ::
    "outside \<Rightarrow> 's roster \<Rightarrow> go_time \<Rightarrow> provider \<Rightarrow> string \<Rightarrow> 's \<Rightarrow> challenge_out option \<times> 's" where
  "Issue o' r now prv nonce s =
     (case prv of
        PImage ref cfg ttl \<Rightarrow> image_issue o' r now ref cfg ttl nonce s
      | PExternal kind cfg \<Rightarrow> (Some (external_issue kind cfg), s))"

definition image_audio ::
    "outside \<Rightarrow> 's roster \<Rightarrow> go_time \<Rightarrow> image_config \<Rightarrow> string \<Rightarrow> 's \<Rightarrow> string option \<times> 's" where
  "image_audio o' r now cfg nonce s =
     (case ro_get r now imageKind nonce s of
        (Inl _, s) \<Rightarrow> (None, s)
      | (Inr want, s) \<Rightarrow> (ou_audio o' (ic_audio_dir cfg) want, s))"

section \<open>Verifying\<close>

datatype verdict = VOk | VWrong | VUnavailable

definition image_verify :: "'s roster \<Rightarrow> go_time \<Rightarrow> string \<Rightarrow> string \<Rightarrow> 's \<Rightarrow> verdict \<times> 's" where
  "image_verify r now nonce answer s =
     (case ro_get r now imageKind nonce s of
        (Inl NotFound, s) \<Rightarrow> (VWrong, s)
      | (Inl GetFailed, s) \<Rightarrow> (VUnavailable, s)
      | (Inr want, s) \<Rightarrow>
          if \<not> equal_fold (trim_space answer) want then (VWrong, s)
          else (VOk, snd (ro_del r now imageKind nonce s)))"

definition external_secret :: "outside \<Rightarrow> external_config \<Rightarrow> string option" where
  "external_secret o' cfg =
     (if ex_secret_env cfg \<noteq> []
      then (let v = ou_getenv o' (ex_secret_env cfg) in if v = [] then None else Some v)
      else case ou_secrets o' of
        None \<Rightarrow> None
      | Some get \<Rightarrow> get (ex_secret_store cfg))"

text \<open>\<open>do\<close>: the body that was read, when there is one to decode; at most 64 KiB of it.\<close>

definition external_do :: "outside \<Rightarrow> verify_request \<Rightarrow> string option" where
  "external_do o' req =
     (case ou_do o' req of
        None \<Rightarrow> None
      | Some (status, None) \<Rightarrow> None
      | Some (status, Some body) \<Rightarrow> if status \<ge> 500 then None else Some (take 65536 body))"

definition verifyURL :: "string \<Rightarrow> string" where
  "verifyURL kind =
     (if kind = ProviderTurnstile then ''https://challenges.cloudflare.com/turnstile/v0/siteverify''
      else if kind = ProviderReCAPTCHA then ''https://www.google.com/recaptcha/api/siteverify''
      else if kind = ProviderHCaptcha then ''https://api.hcaptcha.com/siteverify''
      else [])"

definition siteverify :: "outside \<Rightarrow> string \<Rightarrow> external_config \<Rightarrow> string \<Rightarrow> string \<Rightarrow> string \<Rightarrow> verdict" where
  "siteverify o' kind cfg secret answer clientIP =
     (let req = SiteVerify (verifyURL kind)
            ([(''secret'', secret), (''response'', answer)] @
             (if ex_remoteip cfg \<and> clientIP \<noteq> [] then [(''remoteip'', clientIP)] else []))
      in if \<not> ou_request_ok o' req then VUnavailable
         else case external_do o' req of
           None \<Rightarrow> VUnavailable
         | Some body \<Rightarrow>
             (case ou_site_json o' body of
                None \<Rightarrow> VUnavailable
              | Some (success, score) \<Rightarrow>
                  if \<not> success then VWrong
                  else if kind = ProviderReCAPTCHA \<and> ex_version cfg = ''v3'' \<and> score < ex_min_score cfg
                  then VWrong
                  else VOk))"

definition smartcaptcha :: "outside \<Rightarrow> external_config \<Rightarrow> string \<Rightarrow> string \<Rightarrow> string \<Rightarrow> verdict" where
  "smartcaptcha o' cfg secret answer clientIP =
     (let req = SmartValidate
            ([(''secret'', secret), (''token'', answer)] @
             (if ex_remoteip cfg \<and> clientIP \<noteq> [] then [(''ip'', clientIP)] else []))
      in if \<not> ou_request_ok o' req then VUnavailable
         else case external_do o' req of
           None \<Rightarrow> VUnavailable
         | Some body \<Rightarrow>
             (case ou_smart_json o' body of
                None \<Rightarrow> VUnavailable
              | Some status \<Rightarrow> if status \<noteq> ''ok'' then VWrong else VOk))"

definition external_verify :: "outside \<Rightarrow> string \<Rightarrow> external_config \<Rightarrow> string \<Rightarrow> string \<Rightarrow> verdict" where
  "external_verify o' kind cfg answer clientIP =
     (if answer = [] then VWrong
      else case external_secret o' cfg of
        None \<Rightarrow> VUnavailable
      | Some secret \<Rightarrow>
          if kind = ProviderSmartCaptcha then smartcaptcha o' cfg secret answer clientIP
          else siteverify o' kind cfg secret answer clientIP)"

definition Verify ::
    "outside \<Rightarrow> 's roster \<Rightarrow> go_time \<Rightarrow> provider \<Rightarrow> string \<Rightarrow> string \<Rightarrow> string \<Rightarrow> 's \<Rightarrow> verdict \<times> 's" where
  "Verify o' r now prv nonce answer clientIP s =
     (case prv of
        PImage _ _ _ \<Rightarrow> image_verify r now nonce answer s
      | PExternal kind cfg \<Rightarrow> (external_verify o' kind cfg answer clientIP, s))"

section \<open>A chain for every served profile\<close>

lemma new_providers_total:
  "\<forall>ref \<in> set refs. pf_kind ref \<in> {ProviderImage, ProviderTurnstile, ProviderReCAPTCHA, ProviderHCaptcha, ProviderSmartCaptcha}
     \<Longrightarrow> \<exists>ps. new_providers p refs = Inr ps \<and> map Kind ps = map pf_kind refs"
proof (induction refs)
  case Nil
  then show ?case by simp
next
  case (Cons ref refs)
  have "\<exists>prv. new_provider p ref = Inr prv \<and> Kind prv = pf_kind ref"
    using Cons.prems by (auto simp: new_provider_def Kind_def)
  with Cons show ?case by auto
qed

lemma validated_refs:
  assumes "ValidateProfile p0 = (None, p)"
  shows "\<forall>ref \<in> set (Refs p). pf_kind ref \<in> {ProviderImage, ProviderTurnstile, ProviderReCAPTCHA, ProviderHCaptcha, ProviderSmartCaptcha}"
    and "\<And>f. p_fallback p = Some f \<Longrightarrow> pf_kind f \<noteq> pf_kind (p_provider p)"
proof -
  have "validate_head p = None" using validated_self [OF assms] by (simp add: validate_success)
  then have v: "validateProviders p = None" by (simp add: validate_head_def)
  then show "\<forall>ref \<in> set (Refs p). pf_kind ref \<in> {ProviderImage, ProviderTurnstile, ProviderReCAPTCHA, ProviderHCaptcha, ProviderSmartCaptcha}"
    by (auto simp: validateProviders_def validate_ref_def check_each_None in_set_conv_nth split: if_splits)
  show "\<And>f. p_fallback p = Some f \<Longrightarrow> pf_kind f \<noteq> pf_kind (p_provider p)"
    using v by (simp add: validateProviders_def)
qed

text \<open>The references a chain is built from: one or two, of different kinds, the wanted one first.\<close>

lemma chain_refs_ok:
  assumes "\<And>f. p_fallback p = Some f \<Longrightarrow> pf_kind f \<noteq> pf_kind (p_provider p)"
  shows "set (chain_refs p primary) \<subseteq> set (Refs p) \<and> chain_refs p primary \<noteq> [] \<and>
     length (chain_refs p primary) \<le> 2 \<and> distinct (map pf_kind (chain_refs p primary)) \<and>
     (primary \<noteq> [] \<and> hasProvider p primary \<longrightarrow> pf_kind (hd (chain_refs p primary)) = primary) \<and>
     (primary = [] \<or> \<not> hasProvider p primary \<longrightarrow> hd (chain_refs p primary) = p_provider p)"
  using assms
  by (cases "p_fallback p")
    (auto simp: chain_refs_def Refs_def ProviderRef_def hasProvider_def)

section \<open>The value behind a picture\<close>

text \<open>What leaves a stored value alone: anything but storing or deleting under its key.\<close>

fun spares :: "string \<Rightarrow> mem_op \<Rightarrow> bool" where
  "spares key (OpPut kind rid v ttl) = (kind @ '':'' @ rid \<noteq> key)"
| "spares key (OpDel kind rid) = (kind @ '':'' @ rid \<noteq> key)"
| "spares key _ = True"

lemma value_step:
  assumes "mem_wf m" "map_of (m_values m) key = Some e" "now \<le> me_until e" "spares key op"
  shows "map_of (m_values (snd (mem_step now op m))) key = Some e"
proof (cases op)
  case OpRefresh
  with assms show ?thesis by (simp add: Refresh_def mem_wf_def Let_def map_of_filter)
next
  case (OpGet kind rid)
  with assms show ?thesis
    by (auto simp: Get_def Let_def delete_conv' split: option.split)
qed (use assms in \<open>auto simp: Revoke_def Burn_def Fail_def Clear_def Lock_def LockedFor_def Put_def
    Del_def Let_def update_conv' delete_conv' split: option.split\<close>)

lemma value_run:
  "mem_wf m \<Longrightarrow> map_of (m_values m) key = Some e \<Longrightarrow> \<forall>(t, op) \<in> set ops. t \<le> me_until e \<and> spares key op \<Longrightarrow>
     map_of (m_values (snd (mem_run ops m))) key = Some e"
proof (induction ops arbitrary: m)
  case Nil
  then show ?case by simp
next
  case (Cons top ops)
  obtain t op where top: "top = (t, op)" by (cases top)
  have "mem_wf (snd (mem_step t op m))" "map_of (m_values (snd (mem_step t op m))) key = Some e"
    using Cons.prems top mem_step_wf value_step by auto
  with Cons top show ?case by (simp add: case_prod_beta)
qed

lemma verify_stored:
  assumes "map_of (m_values m) (imageKind @ '':'' @ nonce) = Some e" "now \<le> me_until e"
  shows "image_verify memory_roster now nonce answer m =
    (if equal_fold (trim_space answer) (me_value e) then (VOk, Del imageKind nonce m) else (VWrong, m))"
  using assms by (auto simp: image_verify_def memory_roster_def Get_def Let_def)

lemma verify_absent:
  assumes "map_of (m_values m) (imageKind @ '':'' @ nonce) = None \<or>
    (\<exists>e. map_of (m_values m) (imageKind @ '':'' @ nonce) = Some e \<and> me_until e < now)"
  shows "fst (image_verify memory_roster now nonce answer m) = VWrong"
  using assms by (auto simp: image_verify_def memory_roster_def Get_def Let_def)

section \<open>Properties\<close>

text \<open>A served profile always has providers. Under a validated profile the chain is never an error: it holds
  one or two providers of different kinds, all of them configured in the profile, and the one the page asks
  for comes first when the profile has it, the profile's own provider otherwise.\<close>

theorem chain_total:
  assumes "ValidateProfile p0 = (None, p)"
  shows "\<exists>ps. Chain p primary = Inr ps \<and> ps \<noteq> [] \<and> length ps \<le> 2 \<and> distinct (map Kind ps) \<and>
     set (map Kind ps) \<subseteq> set (ProviderKinds p) \<and>
     Kind (hd ps) = (if primary \<noteq> [] \<and> hasProvider p primary then primary else pf_kind (p_provider p))"
proof -
  note refs = chain_refs_ok [OF validated_refs(2) [OF assms], of primary]
  obtain ps where ps: "new_providers p (chain_refs p primary) = Inr ps" "map Kind ps = map pf_kind (chain_refs p primary)"
    using new_providers_total [of "chain_refs p primary" p] validated_refs(1) [OF assms] refs by blast
  then have ne: "ps \<noteq> []" and len: "length ps = length (chain_refs p primary)"
    using refs by (auto dest: arg_cong [of _ _ length])
  have "Kind (hd ps) = hd (map Kind ps)" using ne by (simp add: hd_map)
  also have "\<dots> = pf_kind (hd (chain_refs p primary))" unfolding ps(2) using refs by (simp add: hd_map)
  finally have k: "Kind (hd ps) = pf_kind (hd (chain_refs p primary))" .
  have sub: "set (map Kind ps) \<subseteq> set (ProviderKinds p)" unfolding ps(2) ProviderKinds_def using refs by auto
  have dist: "distinct (map Kind ps)" unfolding ps(2) using refs by blast
  show ?thesis
    using ps(1) ne len k sub dist refs by (intro exI [of _ ps]) (auto simp: Chain_def)
qed

theorem chain_total_witness:
  "\<exists>ps. Chain (fill_grace sample_profile) ''turnstile'' = Inr ps \<and> Kind (hd ps) = ProviderImage"
proof -
  have "\<not> hasProvider (fill_grace sample_profile) ''turnstile''"
    "pf_kind (p_provider (fill_grace sample_profile)) = ProviderImage"
    by (simp_all add: hasProvider_def ProviderRef_def fill_grace_def sample_profile_def defaults_def Let_def)
  then show ?thesis using chain_total [OF sample_valid, of "''turnstile''"] by auto
qed

text \<open>C18: A picture is answered by its own text, once and in time. After an image challenge is issued for a nonce,
  and whatever the memory is used for meanwhile (other challenges, burns, counters, refreshes), an
  answer within the time to live is right exactly when it is the drawn text up to case and outer blanks;
  after a right answer every further answer is wrong, and so is any answer after the time to live.\<close>

theorem image_answered:
  assumes "mem_wf m" and issued: "m0 = snd (image_issue o' memory_roster t0 ref cfg ttl nonce m)"
    and ops: "\<forall>(t, op) \<in> set ops. t \<le> t0 + ttl \<and> spares (imageKind @ '':'' @ nonce) op"
    and m1: "m1 = snd (mem_run ops m0)"
  shows "(t1 \<le> t0 + ttl \<longrightarrow>
       (fst (image_verify memory_roster t1 nonce answer m1) = VOk \<longleftrightarrow>
          equal_fold (trim_space answer) (ou_text o' (ic_alphabet cfg) (pf_length ref))) \<and>
       fst (image_verify memory_roster t1 nonce answer m1) \<noteq> VUnavailable) \<and>
     (t0 + ttl < t1 \<longrightarrow> fst (image_verify memory_roster t1 nonce answer m1) = VWrong) \<and>
     (fst (image_verify memory_roster t1 nonce answer m1) = VOk \<longrightarrow>
        fst (image_verify memory_roster t2 nonce again (snd (image_verify memory_roster t1 nonce answer m1))) = VWrong)"
proof -
  let ?e = "\<lparr>me_value = ou_text o' (ic_alphabet cfg) (pf_length ref), me_until = t0 + ttl\<rparr>"
  have m0: "m0 = Put t0 imageKind nonce (ou_text o' (ic_alphabet cfg) (pf_length ref)) ttl m"
    by (simp add: issued image_issue_def memory_roster_def Let_def)
  have wf: "mem_wf m0" using mem_step_wf [OF assms(1), of t0 "OpPut imageKind nonce v ttl" for v] by (simp add: m0)
  have "map_of (m_values m0) (imageKind @ '':'' @ nonce) = Some ?e" by (simp add: m0 Put_def update_conv')
  then have e: "map_of (m_values m1) (imageKind @ '':'' @ nonce) = Some ?e"
    unfolding m1 using ops by (intro value_run [OF wf]) auto
  have gone: "fst (image_verify memory_roster t2 nonce again (Del imageKind nonce m1)) = VWrong"
    by (rule verify_absent) (simp add: Del_def delete_conv')
  show ?thesis
  proof (cases "t1 \<le> t0 + ttl")
    case True
    with verify_stored [OF e, of t1 answer] gone show ?thesis by simp
  next
    case False
    with verify_absent [of m1 nonce t1 answer] e show ?thesis by auto
  qed
qed

definition toy_outside :: outside where
  "toy_outside = \<lparr>ou_text = (\<lambda>_ _. ''AB12''), ou_png = id, ou_samples = (\<lambda>_. False), ou_audio = (\<lambda>_ _. None),
     ou_getenv = (\<lambda>_. []), ou_secrets = None, ou_request_ok = (\<lambda>_. True), ou_do = (\<lambda>_. None),
     ou_site_json = (\<lambda>_. None), ou_smart_json = (\<lambda>_. None)\<rparr>"

theorem image_answered_witness:
  "fst (image_verify memory_roster 9 ''n'' '' ab12''
     (snd (mem_run [(5, OpRefresh), (6, OpPut ''img'' ''other'' ''XY'' 1)]
        (snd (image_issue toy_outside memory_roster 1 (p_provider sample_profile) (pc_image (p_provider_cfg sample_profile))
           10 ''n'' NewMemory))))) = VOk"
proof -
  have ops: "\<forall>(t, op) \<in> set [(5 :: go_time, OpRefresh), (6, OpPut ''img'' ''other'' ''XY'' 1)].
      t \<le> 1 + 10 \<and> spares (imageKind @ '':'' @ ''n'') op" by simp
  have "equal_fold (trim_space '' ab12'') ''AB12''" by code_simp
  then show ?thesis
    using image_answered [where o' = toy_outside and ref = "p_provider sample_profile" and ?t1.0 = 9 and
        cfg = "pc_image (p_provider_cfg sample_profile)" and answer = "'' ab12''", OF new_mem_wf refl ops refl]
    by (simp add: toy_outside_def)
qed

end
