(* ===== verification/Http.thy ===== *)
theory Http
  imports Provider Profiles AuditLog Subjects
begin

text \<open>
  Package \<open>cmd/http\<close>, files \<open>server.go\<close>, \<open>verify.go\<close> and \<open>events.go\<close>, the part below the handlers: what a
  request says about its sender, the session behind its ticket, the check of an answer, the clearance it
  earns and the rules that fire.

  A request is what \<open>net/http\<close> hands the code: method, path, the \<open>rd\<close> parameter, cookies and headers in
  order, the address of the peer and the form values. The record \<open>web\<close> is the server with what the world
  answers during the call; \<open>site\<close> is the state requests share. One clock reading serves a call. Logging is
  left out.
\<close>

section \<open>Requests and state\<close>

record http_request =
  rq_method :: string
  rq_path :: string
  rq_rd :: string
  rq_cookies :: "(string \<times> string) list"
  rq_headers :: "(string \<times> string) list"
  rq_remote :: string
  rq_form_ok :: bool
  rq_form :: "(string \<times> string) list"
  rq_body :: string

record ('s, 'info) web =
  we_key :: token_key
  we_now :: go_time
  we_snapshot :: snapshot
  we_roster :: "'s roster"
  we_outside :: outside
  we_clearances :: "clearances_fn option"
  we_list :: bool
  we_geo_write :: "string \<Rightarrow> string \<Rightarrow> string list option"
  we_geo :: "'info geo"
  we_backend :: backend
  we_evict_order :: "string list"
  we_bucket_prefix :: string
  we_secure :: bool
  we_real_ip :: string
  we_jti :: string
  we_cid :: string
  we_nonce :: string

record 's site =
  si_roster :: 's
  si_ledger :: ledger
  si_stats :: counters
  si_writes :: "list_write list"

text \<open>\<open>http.Header\<close> compares names without case; a missing header or value is empty.\<close>

definition header_values :: "http_request \<Rightarrow> string \<Rightarrow> string list" where
  "header_values r name = map snd (filter (\<lambda>(n, _). to_lower n = to_lower name) (rq_headers r))"

definition header_get :: "http_request \<Rightarrow> string \<Rightarrow> string" where
  "header_get r name = (case header_values r name of [] \<Rightarrow> [] | v # _ \<Rightarrow> v)"

definition form_value :: "http_request \<Rightarrow> string \<Rightarrow> string" where
  "form_value r name = (case map_of (rq_form r) name of None \<Rightarrow> [] | Some v \<Rightarrow> v)"

definition cookieValue :: "http_request \<Rightarrow> string \<Rightarrow> string" where
  "cookieValue r name = (case map_of (rq_cookies r) name of None \<Rightarrow> [] | Some v \<Rightarrow> v)"

section \<open>Who asks\<close>

text \<open>\<open>net.ParseIP\<close>: an address without a zone.\<close>

definition parses_ip :: "string \<Rightarrow> bool" where
  "parses_ip s \<longleftrightarrow> ParseAddr s \<noteq> None \<and> CHR ''%'' \<notin> set s"

text \<open>\<open>strings.LastIndexByte\<close> as a split: what comes before and after the last separator.\<close>

definition cut_last :: "string \<Rightarrow> char \<Rightarrow> (string \<times> string) option" where
  "cut_last s c =
     (if c \<notin> set s then None
      else let n = length (takeWhile (\<lambda>x. x \<noteq> c) (rev s))
           in Some (take (length s - n - 1) s, drop (length s - n) s))"

text \<open>The host of \<open>net.SplitHostPort\<close>.\<close>

definition split_host :: "string \<Rightarrow> string option" where
  "split_host hp =
     (case cut_last hp (CHR '':'') of
        None \<Rightarrow> None
      | Some (before, port) \<Rightarrow>
          if hd hp = CHR ''[''
          then (case cut (tl hp) (CHR '']'') of
                  (host, after, found) \<Rightarrow>
                    if \<not> found \<or> after \<noteq> CHR '':'' # port \<or> CHR ''['' \<in> set (host @ after) \<or> CHR '']'' \<in> set after
                    then None else Some host)
          else if CHR '':'' \<in> set before \<or> CHR ''['' \<in> set hp \<or> CHR '']'' \<in> set hp then None
          else Some before)"

definition forwardedAddr :: "string list \<Rightarrow> string \<Rightarrow> string" where
  "forwardedAddr values remote =
     (let peer = (case split_host remote of None \<Rightarrow> remote | Some host \<Rightarrow> host)
      in if values = [] then peer
         else let lst = (case cut_last (last values) (CHR '','') of None \<Rightarrow> last values | Some (_, a) \<Rightarrow> a);
                  ip = trim_space lst
              in if parses_ip ip then ip else peer)"

definition clientIP :: "('s, 'info) web \<Rightarrow> http_request \<Rightarrow> string" where
  "clientIP s r = forwardedAddr (header_values r (we_real_ip s)) (rq_remote r)"

definition subnet_of :: "('s, 'info) web \<Rightarrow> http_request \<Rightarrow> profile \<Rightarrow> string" where
  "subnet_of s r p = Subnet (clientIP s r) (cc_v4 (p_clearance p)) (cc_v6 (p_clearance p))"

definition bindOf :: "('s, 'info) web \<Rightarrow> http_request \<Rightarrow> profile \<Rightarrow> bind" where
  "bindOf s r p =
     \<lparr>b_net = (if BindsNet p then (case NetBits p of (v4, v6) \<Rightarrow> Subnet (clientIP s r) v4 v6) else []),
      b_ua = (if BindsUA p then Fingerprint (header_get r ''User-Agent'') else [])\<rparr>"

definition localPath :: "string \<Rightarrow> string" where
  "localPath raw =
     (if raw = [] \<or> hd raw \<noteq> CHR ''/'' \<or> has_prefix raw ''//'' \<or> length raw > 1024 then []
      else if list_ex (\<lambda>c. byte_of c < 0x21 \<or> byte_of c > 0x7e \<or> byte_of c = 0x5c) raw then []
      else raw)"

definition backTo :: "http_request \<Rightarrow> ticket option \<Rightarrow> string" where
  "backTo r t =
     (case t of
        Some tk \<Rightarrow> if t_return tk \<noteq> [] then t_return tk
                   else (let back = localPath (rq_rd r) in if back \<noteq> [] then back else ''/'')
      | None \<Rightarrow> (let back = localPath (rq_rd r) in if back \<noteq> [] then back else ''/''))"

definition lang_code :: "string \<Rightarrow> string" where
  "lang_code part = (case cut (trim_space part) (CHR '';'') of (code, _, _) \<Rightarrow>
     (case cut code (CHR ''-'') of (code, _, _) \<Rightarrow> code))"

definition lang :: "http_request \<Rightarrow> profile \<Rightarrow> string" where
  "lang r p =
     (case find (\<lambda>code. code \<in> set (p_languages p))
             (map lang_code (split_on (CHR '','') (to_lower (header_get r ''Accept-Language'')))) of
        Some code \<Rightarrow> code
      | None \<Rightarrow> (case p_languages p of [] \<Rightarrow> ''en'' | l # _ \<Rightarrow> l))"

section \<open>Routes and sessions\<close>

abbreviation (input) "actionPage \<equiv> []::string"
abbreviation "actionAPI \<equiv> ''api''"
abbreviation "actionVerify \<equiv> ''verify''"
abbreviation "actionStatus \<equiv> ''status''"
abbreviation "actionScript \<equiv> ''c.js''"
abbreviation "actionAudio \<equiv> ''audio''"
abbreviation "actionHealth \<equiv> ''healthz''"

definition page_prefix :: "profile \<Rightarrow> string" where
  "page_prefix p = trim_right (p_path p) ''/'' @ ''/''"

fun route_in :: "profile list \<Rightarrow> string \<Rightarrow> (profile \<times> string) option" where
  "route_in [] uri = None"
| "route_in (p # ps) uri =
     (if p_path p = [] then route_in ps uri
      else if uri = p_path p then Some (p, actionPage)
      else if has_prefix uri (page_prefix p) then Some (p, trim_prefix uri (page_prefix p))
      else route_in ps uri)"

definition http_route :: "snapshot \<Rightarrow> string \<Rightarrow> (profile \<times> string) option" where
  "http_route sn uri = route_in (All (Some sn)) uri"

datatype session_error = ErrNoTicket | ErrBindMismatch

definition session ::
    "('s, 'info) web \<Rightarrow> http_request \<Rightarrow> profile \<Rightarrow> profile \<times> ticket option \<times> session_error option" where
  "session s r fallback =
     (let raw = cookieValue r (ch_cookie (p_challenge fallback))
      in if raw = [] then (fallback, None, Some ErrNoTicket)
         else case OpenTicket (we_key s) raw (we_now s) of
           (Some t, None) \<Rightarrow>
             (case snap_profile (Some (we_snapshot s)) (t_profile t) of
                None \<Rightarrow> (fallback, None, Some ErrNoTicket)
              | Some p \<Rightarrow>
                  let want = bindOf s r p
                  in if b_net want \<noteq> [] \<and> t_net t \<noteq> [] \<and> b_net want \<noteq> t_net t \<or>
                        b_ua want \<noteq> [] \<and> t_ua t \<noteq> [] \<and> b_ua want \<noteq> t_ua t
                     then (p, Some t, Some ErrBindMismatch)
                     else (p, Some t, None))
         | _ \<Rightarrow> (fallback, None, Some ErrNoTicket))"

section \<open>Counters and bans\<close>

definition count_stat :: "string \<Rightarrow> 's site \<Rightarrow> 's site" where
  "count_stat key st = st\<lparr>si_stats := stat_inc key (si_stats st)\<rparr>"

definition within_limit ::
    "('s, 'info) web \<Rightarrow> rate \<Rightarrow> string \<Rightarrow> string \<Rightarrow> 's site \<Rightarrow> bool \<times> 's site" where
  "within_limit s rate kind subnet st =
     (if \<not> rate_enabled rate then (True, st)
      else case ro_fail (we_roster s) (we_now s) (kind @ '':'' @ subnet) (ra_per rate) (si_roster st) of
        (None, m) \<Rightarrow> (True, st\<lparr>si_roster := m\<rparr>)
      | (Some n, m) \<Rightarrow> (n \<le> ra_n rate, st\<lparr>si_roster := m\<rparr>))"

definition fp_char :: "char \<Rightarrow> bool" where
  "fp_char c \<longleftrightarrow> c \<in> set ''0123456789abcdef''"

definition fpHash :: "string \<Rightarrow> string" where
  "fpHash raw =
     (let raw = to_lower (trim_space raw)
      in if length raw \<noteq> 32 then [] else if list_ex (\<lambda>c. \<not> fp_char c) raw then [] else raw)"

definition alive :: "('s, 'info) web \<Rightarrow> profile \<Rightarrow> clearance \<Rightarrow> bool" where
  "alive s p clr =
     (if \<not> ListEnabled (p_clearance p) then True
      else if we_now s - from_unix (c_issued clr) \<le> cc_grace (p_clearance p) then True
      else case we_clearances s of
        None \<Rightarrow> False
      | Some contains \<Rightarrow>
          (case contains (cc_list (p_clearance p)) (c_jti clr) of (listed, ready) \<Rightarrow> ready \<and> listed))"

section \<open>Rules that fire\<close>

definition sessKeyOf :: "string \<Rightarrow> string" where
  "sessKeyOf sealed = (if sealed = [] then [] else hex_encode (take 8 (sha256 sealed)))"

text \<open>The writes of one rule. An unknown address or a geo error writes nothing.\<close>

definition http_write_list ::
    "('s, 'info) web \<Rightarrow> event_rule \<Rightarrow> string \<Rightarrow> string \<Rightarrow> string \<Rightarrow> list_write list" where
  "http_write_list s r on ip cid =
     (if \<not> we_list s then []
      else let write = er_write r;
               values = (if write = WriteCID then (if cid \<noteq> [] then [cid] else [])
                         else if write \<in> {WriteNet, WriteNetAll, WriteASN}
                         then (case we_geo_write s write ip of None \<Rightarrow> [] | Some vs \<Rightarrow> vs)
                         else if ip \<noteq> [] then [ip] else [])
           in if values = [] then []
              else [\<lparr>lw_set = er_list r, lw_values = values, lw_ttl = er_ttl r,
                     lw_reason = (if er_code r = [] then ''CAPTCHA_'' @ on else er_code r)\<rparr>])"

definition event_key :: "string \<Rightarrow> string \<Rightarrow> string \<times> string \<Rightarrow> string \<Rightarrow> string" where
  "event_key ip sealed nets kind =
     (if kind = KindIP then IPKey ip
      else if kind = KindSess then sessKeyOf sealed
      else if kind = KindNet then fst nets
      else if kind = KindRouter then snd nets
      else [])"

definition event_charges :: "profile \<Rightarrow> event_rule list \<Rightarrow> (string \<Rightarrow> string) \<Rightarrow> charge list" where
  "event_charges p rules key =
     map (\<lambda>r. \<lparr>cg_ref = (er_charge r, key (er_charge r)),
               cg_add = percent_of (er_percent r) (tier_of (tiersOf p) (er_charge r))\<rparr>)
       (filter (\<lambda>r. er_charge r \<noteq> [] \<and> key (er_charge r) \<noteq> [] \<and>
          bucket_enabled (tier_of (tiersOf p) (er_charge r))) rules)"

definition http_fired ::
    "('s, 'info) web \<Rightarrow> profile \<Rightarrow> string \<Rightarrow> string \<Rightarrow> string \<Rightarrow> string \<Rightarrow> 's site \<Rightarrow> 's site" where
  "http_fired s p on ip sealed cid st =
     (let rules = RulesFor p on [] []
      in if rules = [] then st
         else let nets = (if list_ex (\<lambda>r. er_charge r = KindNet \<or> er_charge r = KindRouter) rules
                          then ge_resolve (we_geo s) ip else ([], []));
                  charges = event_charges p rules (event_key ip sealed nets);
                  writes = concat (map (\<lambda>r. http_write_list s r on ip cid)
                             (filter (\<lambda>r. er_charge r = [] \<and> er_list r \<noteq> []) rules));
                  st = st\<lparr>si_writes := si_writes st @ writes\<rparr>
              in if charges = [] then st
                 else st\<lparr>si_ledger := snd (Apply f64 (we_backend s) (we_evict_order s) (we_bucket_prefix s)
                           (p_name p) (tiersOf p) charges [] (we_now s) (si_ledger st))\<rparr>)"

section \<open>Checking an answer\<close>

record check_result =
  cr_ok :: bool
  cr_status :: int
  cr_code :: string
  cr_msg :: string
  cr_provider :: string
  cr_fp :: string
  cr_flag :: string
  cr_skip :: string

abbreviation "msgWrong \<equiv> ''The answer was not accepted. Please try again.''"
abbreviation "msgExpired \<equiv> ''The challenge has expired. Go back to the site and try again.''"
abbreviation "msgBanned \<equiv> ''Too many attempts. Please wait and try again later.''"
abbreviation "msgLimit \<equiv> ''Too many requests. Please wait and try again later.''"
abbreviation "msgNoTicket \<equiv> ''There is no challenge. Go back to the site and open the page again.''"
abbreviation "msgProvider \<equiv> ''The check is unavailable. Try another way.''"

definition refused :: "int \<Rightarrow> string \<Rightarrow> string \<Rightarrow> check_result" where
  "refused status code msg =
     \<lparr>cr_ok = False, cr_status = status, cr_code = code, cr_msg = msg, cr_provider = [], cr_fp = [],
      cr_flag = [], cr_skip = []\<rparr>"

definition passed :: "string \<Rightarrow> string \<Rightarrow> string \<Rightarrow> check_result" where
  "passed prv fp flag =
     \<lparr>cr_ok = True, cr_status = 0, cr_code = [], cr_msg = [], cr_provider = prv, cr_fp = fp,
      cr_flag = flag, cr_skip = []\<rparr>"

definition http_chain :: "profile \<Rightarrow> ticket option \<Rightarrow> chain_error + provider list" where
  "http_chain p t =
     (let primary = (case t of
            None \<Rightarrow> []
          | Some tk \<Rightarrow>
              if t_return tk = [] then []
              else (case cut (t_return tk) (CHR ''?'') of (uri, _, _) \<Rightarrow> ru_provider (RuleFor p ''GET'' uri)))
      in Chain p primary)"

text \<open>An empty answer is looked for under the name of each provider of the chain.\<close>

fun answer_in_form :: "http_request \<Rightarrow> provider list \<Rightarrow> (string \<times> string) option" where
  "answer_in_form r [] = None"
| "answer_in_form r (cand # ps) =
     (let v = trim_space (form_value r (''answer_'' @ Kind cand))
      in if v \<noteq> [] then Some (Kind cand, v) else answer_in_form r ps)"

definition burn_nonce ::
    "('s, 'info) web \<Rightarrow> profile \<Rightarrow> ticket \<Rightarrow> 's site \<Rightarrow> bool option \<times> 's site" where
  "burn_nonce s p t st =
     (case ro_burn (we_roster s) (we_now s) ''nonce'' (t_nonce t) (ch_ttl (p_challenge p)) (si_roster st) of
        (b, m) \<Rightarrow> (b, st\<lparr>si_roster := m\<rparr>))"

text \<open>What follows the provider's word.\<close>

definition after_verify ::
    "('s, 'info) web \<Rightarrow> profile \<Rightarrow> ticket \<Rightarrow> provider \<Rightarrow> string \<Rightarrow> string \<Rightarrow> verdict \<Rightarrow> 's site \<Rightarrow>
     check_result \<times> 's site" where
  "after_verify s p t prv ip fp v st =
     (case v of
        VUnavailable \<Rightarrow>
          (let st = count_stat (''provider.'' @ Kind prv @ ''.down'') st;
               onError = (case prv of PExternal _ cfg \<Rightarrow> ex_on_error cfg | PImage _ _ _ \<Rightarrow> OnErrorFallback)
           in if onError = OnErrorAllow
              then (case burn_nonce s p t st of
                      (Some True, st) \<Rightarrow> (passed (Kind prv) (fpHash fp) ''provider_down'', st)
                    | (_, st) \<Rightarrow> (refused 403 ''replay'' msgExpired, st))
              else if onError = OnErrorDeny then (refused 502 ''provider_down'' msgProvider, st)
              else ((refused 502 ''provider_down'' msgProvider)\<lparr>cr_skip := Kind prv\<rparr>, st))
      | VWrong \<Rightarrow>
          (refused 400 ''wrong'' msgWrong,
           http_fired s p OnFail ip [] [] (count_stat (''provider.'' @ Kind prv @ ''.failed'') st))
      | VOk \<Rightarrow>
          (case burn_nonce s p t st of
             (None, st) \<Rightarrow> (refused 500 ''internal'' msgProvider, st)
           | (Some False, st) \<Rightarrow> (refused 403 ''replay'' msgExpired, st)
           | (Some True, st) \<Rightarrow>
               (passed (Kind prv) (fpHash fp) [], count_stat (''provider.'' @ Kind prv @ ''.solved'') st)))"

definition check_answer ::
    "('s, 'info) web \<Rightarrow> http_request \<Rightarrow> profile \<Rightarrow> ticket \<Rightarrow> string \<Rightarrow> string \<Rightarrow> string \<Rightarrow> 's site \<Rightarrow>
     check_result \<times> 's site" where
  "check_answer s r p t answer kind fp st =
     (let kind = (if kind = [] then form_value r ''provider'' else kind);
          fp = (if fp = [] then form_value r ''fp'' else fp)
      in case within_limit s (li_verify (p_limits p)) ''verify'' (subnet_of s r p) st of
           (False, st) \<Rightarrow> (refused 429 ''rate_limited'' msgLimit, st)
         | (True, st) \<Rightarrow>
             if fpHash fp \<noteq> [] \<and> ro_revoked (we_roster s) (we_now s) (''fp:'' @ fpHash fp) (si_roster st)
             then (refused 429 ''banned'' msgBanned, st)
             else case http_chain p (Some t) of
               Inl _ \<Rightarrow> (refused 500 ''internal'' msgProvider, st)
             | Inr chain \<Rightarrow>
                 (let (kind, answer) = (if answer = []
                        then (case answer_in_form r chain of None \<Rightarrow> (kind, answer) | Some ka \<Rightarrow> ka)
                        else (kind, answer));
                      prv = (case ByKind chain kind of None \<Rightarrow> hd chain | Some prv \<Rightarrow> prv);
                      ip = clientIP s r
                  in case Verify (we_outside s) (we_roster s) (we_now s) prv (t_nonce t) answer ip (si_roster st) of
                       (v, m) \<Rightarrow> after_verify s p t prv ip fp v (st\<lparr>si_roster := m\<rparr>)))"

section \<open>Granting a clearance\<close>

record set_cookie =
  sc_name :: string
  sc_value :: string
  sc_path :: string
  sc_max_age :: int
  sc_secure :: bool

text \<open>\<open>HttpOnly\<close> and \<open>SameSite=Lax\<close> are the same for every cookie.\<close>

definition setCookie :: "('s, 'info) web \<Rightarrow> string \<Rightarrow> string \<Rightarrow> string \<Rightarrow> duration \<Rightarrow> set_cookie" where
  "setCookie s name val path ttl =
     \<lparr>sc_name = name, sc_value = val, sc_path = path, sc_max_age = float_to_int (seconds_of f64 ttl),
      sc_secure = we_secure s\<rparr>"

definition clearCookie :: "('s, 'info) web \<Rightarrow> string \<Rightarrow> string \<Rightarrow> set_cookie" where
  "clearCookie s name path =
     \<lparr>sc_name = name, sc_value = [], sc_path = path, sc_max_age = -1, sc_secure = we_secure s\<rparr>"

definition new_clearance :: "('s, 'info) web \<Rightarrow> http_request \<Rightarrow> profile \<Rightarrow> check_result \<Rightarrow> clearance" where
  "new_clearance s r p res =
     \<lparr>c_jti = NewID (we_jti s), c_cid = NewID (we_cid s), c_issued = unix (we_now s),
      c_expiry = unix (we_now s + cc_ttl (p_clearance p)), c_profile = p_name p,
      c_provider = cr_provider res, c_net = b_net (bindOf s r p), c_ua = b_ua (bindOf s r p),
      c_fp = cr_fp res, c_flags = (if cr_flag res \<noteq> [] then [cr_flag res] else [])\<rparr>"

text \<open>A fingerprint that earns clearances too often within the window is revoked.\<close>

definition count_farm :: "('s, 'info) web \<Rightarrow> profile \<Rightarrow> string \<Rightarrow> 's site \<Rightarrow> 's site" where
  "count_farm s p fp st =
     (if fp \<noteq> [] \<and> fc_farm_at (p_fingerprint p) > 0
      then (case ro_fail (we_roster s) (we_now s) (''fp:'' @ fp) (fc_window (p_fingerprint p)) (si_roster st) of
              (Some n, m) \<Rightarrow>
                if n \<ge> fc_farm_at (p_fingerprint p)
                then st\<lparr>si_roster := snd (ro_revoke (we_roster s) (we_now s) (''fp:'' @ fp)
                          (we_now s + cc_ttl (p_clearance p)) m)\<rparr>
                else st\<lparr>si_roster := m\<rparr>
            | (None, m) \<Rightarrow> st\<lparr>si_roster := m\<rparr>)
      else st)"

text \<open>\<^const>\<open>None\<close> is the internal error when the clearance cannot be sealed.\<close>

definition grant ::
    "('s, 'info) web \<Rightarrow> http_request \<Rightarrow> profile \<Rightarrow> check_result \<Rightarrow> 's site \<Rightarrow> set_cookie list option \<times> 's site" where
  "grant s r p res st =
     (let clr = new_clearance s r p res;
          st = count_farm s p (cr_fp res) st;
          ttl = cc_ttl (p_clearance p)
      in case SealClearance (we_key s) (we_nonce s) clr of
           None \<Rightarrow> (None, st)
         | Some sealed \<Rightarrow>
             let st = (if ListEnabled (p_clearance p) \<and> we_list s
                       then st\<lparr>si_writes := si_writes st @
                         [\<lparr>lw_set = cc_list (p_clearance p), lw_values = [c_jti clr], lw_ttl = ttl,
                           lw_reason = ''CAPTCHA_PASS '' @ clientIP s r\<rparr>]\<rparr>
                       else st);
                 st = http_fired s p OnPass (clientIP s r) sealed (c_cid clr) st
             in (Some [setCookie s (cc_cookie (p_clearance p)) sealed ''/'' ttl,
                       setCookie s (cc_id_cookie (p_clearance p)) (c_cid clr) ''/'' ttl,
                       clearCookie s (ch_cookie (p_challenge p)) (p_path p)],
                 count_stat ''clearance.issued'' st))"

text \<open>What the status page tells: whether the clearance stands, its provider and its end.\<close>

definition http_status :: "('s, 'info) web \<Rightarrow> http_request \<Rightarrow> profile \<Rightarrow> (string \<times> int) option" where
  "http_status s r p =
     (let raw = cookieValue r (cc_cookie (p_clearance p))
      in if raw = [] then None
         else case OpenClearance (we_key s) raw (we_now s) (bindOf s r p) of
           (Some clr, None) \<Rightarrow> if alive s p clr then Some (c_provider clr, c_expiry clr) else None
         | _ \<Rightarrow> None)"

end
