(* ===== verification/Web.thy ===== *)
theory Web
  imports Http
begin

text \<open>
  Package \<open>cmd/http\<close>, files \<open>server.go\<close> and \<open>verify.go\<close>, the handlers: the page, the form, the JSON
  interface, the status, the sound and the dispatch of \<open>ServeHTTP\<close>.

  A response is the status, the cookies in the order they were set and the body as data: templates and
  JSON encoders receive a value and their output is left out. A panic is \<^const>\<open>None\<close>. The decoder of the
  verify body, \<open>url.Parse\<close> and the page script are parameters.
\<close>

section \<open>Responses\<close>

record widget =
  wi_kind :: string
  wi_data :: challenge_data
  wi_needs_js :: bool
  wi_primary :: bool
  wi_image :: string
  wi_audio :: bool

record view =
  vi_title :: string
  vi_note :: string
  vi_action :: string
  vi_script_url :: string
  vi_nonce :: string
  vi_error :: string
  vi_attempt :: int
  vi_return_to :: string
  vi_lang :: string
  vi_collect :: bool
  vi_canvas :: bool
  vi_widgets :: "widget list"
  vi_no_ticket :: bool

datatype body =
    Empty
  | PlainError string
  | Page "string option" view
  | Script string
  | Wav string
  | JsonError string
  | JsonStatus "(string \<times> int) option"
  | JsonChallenge string int string "widget list"
  | RedirectTo string

record response =
  re_status :: int
  re_cookies :: "set_cookie list"
  re_body :: body

record verify_body =
  vb_nonce :: string
  vb_provider :: string
  vb_answer :: string
  vb_fp :: string

record front =
  fr_script :: string
  fr_verify_json :: "string \<Rightarrow> verify_body option"
  fr_url_refused :: "string \<Rightarrow> bool"

definition respond :: "int \<Rightarrow> body \<Rightarrow> response" where
  "respond status b = \<lparr>re_status = status, re_cookies = [], re_body = b\<rparr>"

definition empty_view :: view where
  "empty_view = \<lparr>vi_title = [], vi_note = [], vi_action = [], vi_script_url = [], vi_nonce = [],
     vi_error = [], vi_attempt = 0, vi_return_to = [], vi_lang = [], vi_collect = False, vi_canvas = False,
     vi_widgets = [], vi_no_ticket = False\<rparr>"

definition render :: "profile \<Rightarrow> view \<Rightarrow> int \<Rightarrow> response" where
  "render p v status =
     respond status (Page (p_page p)
       (v\<lparr>vi_title := p_title p, vi_note := p_note p, vi_action := p_path p,
          vi_script_url := page_prefix p @ actionScript, vi_collect := fc_collect (p_fingerprint p),
          vi_canvas := fc_canvas (p_fingerprint p),
          vi_lang := (if vi_lang v = [] then ''en'' else vi_lang v)\<rparr>))"

definition http_fail :: response where
  "http_fail = respond 500 (PlainError ''internal error'')"

text \<open>\<open>http.Redirect\<close> to a path of the site; \<open>fr_url_refused\<close> is a parse error or an absolute URL.\<close>

definition redirectBack :: "front \<Rightarrow> set_cookie list \<Rightarrow> string \<Rightarrow> response" where
  "redirectBack f cookies back =
     \<lparr>re_status = 303, re_cookies = cookies,
      re_body = RedirectTo (if fr_url_refused f back then ''/'' else back)\<rparr>"

section \<open>Widgets\<close>

definition widget_of :: "nat \<Rightarrow> challenge_out \<Rightarrow> widget" where
  "widget_of i c =
     \<lparr>wi_kind = co_kind c, wi_data = co_data c, wi_needs_js = co_needs_js c, wi_primary = (i = 0),
      wi_image = (case co_data c of ImageData img _ _ \<Rightarrow> img | SiteKey _ _ \<Rightarrow> []),
      wi_audio = (case co_data c of ImageData _ _ audio \<Rightarrow> audio | SiteKey _ _ \<Rightarrow> False)\<rparr>"

text \<open>A provider that cannot issue is left out; \<open>i\<close> is its place in the chain.\<close>

fun issue_widgets ::
    "('s, 'info) web \<Rightarrow> string \<Rightarrow> nat \<Rightarrow> provider list \<Rightarrow> 's site \<Rightarrow> widget list \<times> 's site" where
  "issue_widgets s nonce i [] st = ([], st)"
| "issue_widgets s nonce i (prv # ps) st =
     (case Issue (we_outside s) (we_roster s) (we_now s) prv nonce (si_roster st) of
        (out, m) \<Rightarrow>
          (case issue_widgets s nonce (Suc i) ps (st\<lparr>si_roster := m\<rparr>) of
             (ws, st) \<Rightarrow> ((case out of None \<Rightarrow> ws | Some c \<Rightarrow> widget_of i c # ws), st)))"

text \<open>\<^const>\<open>None\<close> is the error: no chain, or no provider could issue.\<close>

definition widgets :: "('s, 'info) web \<Rightarrow> profile \<Rightarrow> ticket \<Rightarrow> 's site \<Rightarrow> widget list option \<times> 's site" where
  "widgets s p t st =
     (case http_chain p (Some t) of
        Inl _ \<Rightarrow> (None, st)
      | Inr chain \<Rightarrow>
          (case issue_widgets s (t_nonce t) 0 chain st of
             (out, st) \<Rightarrow> (if out = [] then None else Some out, st)))"

text \<open>Without the provider to skip; the first of the rest becomes the primary one, or the code panics.\<close>

definition skip_widget :: "string \<Rightarrow> widget list \<Rightarrow> widget list option" where
  "skip_widget skip ws =
     (if skip \<noteq> [] \<and> length ws > 1
      then (case filter (\<lambda>w. wi_kind w \<noteq> skip) ws of
              [] \<Rightarrow> None
            | w # kept \<Rightarrow> Some (w\<lparr>wi_primary := True\<rparr> # kept))
      else Some ws)"

section \<open>Handlers\<close>

definition pageSkipping ::
    "('s, 'info) web \<Rightarrow> http_request \<Rightarrow> profile \<Rightarrow> string \<Rightarrow> string \<Rightarrow> 's site \<Rightarrow> response option \<times> 's site" where
  "pageSkipping s r fallback msg skip st =
     (case session s r fallback of
        (p, Some t, None) \<Rightarrow>
          (case within_limit s (li_issue (p_limits p)) ''issue'' (subnet_of s r p) (count_stat ''page.shown'' st) of
             (False, st) \<Rightarrow>
               (Some (render p (empty_view\<lparr>vi_error := msgLimit, vi_lang := lang r p,
                                            vi_return_to := backTo r (Some t)\<rparr>) 429), st)
           | (True, st) \<Rightarrow>
               (case widgets s p t st of
                  (None, st) \<Rightarrow> (Some http_fail, st)
                | (Some ws, st) \<Rightarrow>
                    (case skip_widget skip ws of
                       None \<Rightarrow> (None, st)
                     | Some ws \<Rightarrow>
                         (Some (render p (empty_view\<lparr>vi_nonce := t_nonce t, vi_error := msg,
                                  vi_attempt := t_attempt t, vi_return_to := backTo r (Some t),
                                  vi_lang := lang r p, vi_widgets := ws\<rparr>) (if msg \<noteq> [] then 400 else 200)), st))))
      | (p, _, _) \<Rightarrow>
          (Some (render p (empty_view\<lparr>vi_no_ticket := True, vi_error := msgNoTicket, vi_lang := lang r p,
                                       vi_return_to := backTo r None\<rparr>) 403), st))"

definition page ::
    "('s, 'info) web \<Rightarrow> http_request \<Rightarrow> profile \<Rightarrow> string \<Rightarrow> 's site \<Rightarrow> response option \<times> 's site" where
  "page s r fallback msg st = pageSkipping s r fallback msg [] st"

text \<open>When the clearance cannot be sealed the status of the error is already on its way.\<close>

definition submit ::
    "('s, 'info) web \<Rightarrow> front \<Rightarrow> http_request \<Rightarrow> profile \<Rightarrow> 's site \<Rightarrow> response option \<times> 's site" where
  "submit s f r fallback st =
     (if \<not> rq_form_ok r then (Some (respond 400 (PlainError ''bad form'')), st)
      else case session s r fallback of
        (p, Some t, None) \<Rightarrow>
          if form_value r ''csrf'' \<noteq> t_nonce t then page s r p msgExpired st
          else (case check_answer s r p t (trim_space (form_value r ''answer'')) [] [] st of
             (res, st) \<Rightarrow>
               if cr_ok res
               then (case grant s r p res st of
                       (None, st) \<Rightarrow> (Some http_fail, st)
                     | (Some cookies, st) \<Rightarrow> (Some (redirectBack f cookies (backTo r (Some t))), st))
               else if cr_status res = 429
               then (Some (render p (empty_view\<lparr>vi_error := cr_msg res, vi_lang := lang r p,
                                                vi_return_to := backTo r (Some t)\<rparr>) (cr_status res)), st)
               else pageSkipping s r p (cr_msg res) (cr_skip res) st)
      | (p, _, _) \<Rightarrow> page s r p [] st)"

definition api :: "('s, 'info) web \<Rightarrow> http_request \<Rightarrow> profile \<Rightarrow> 's site \<Rightarrow> response \<times> 's site" where
  "api s r fallback st =
     (case session s r fallback of
        (p, Some t, None) \<Rightarrow>
          (case within_limit s (li_issue (p_limits p)) ''issue'' (subnet_of s r p) st of
             (False, st) \<Rightarrow> (respond 429 (JsonError ''rate_limited''), st)
           | (True, st) \<Rightarrow>
               (case widgets s p t st of
                  (None, st) \<Rightarrow> (http_fail, st)
                | (Some ws, st) \<Rightarrow>
                    (respond 200 (JsonChallenge (t_nonce t) (t_attempt t) (page_prefix p @ actionVerify) ws), st)))
      | _ \<Rightarrow> (respond 403 (JsonError ''no_ticket''), st))"

definition verify ::
    "('s, 'info) web \<Rightarrow> front \<Rightarrow> http_request \<Rightarrow> profile \<Rightarrow> 's site \<Rightarrow> response \<times> 's site" where
  "verify s f r fallback st =
     (case fr_verify_json f (rq_body r) of
        None \<Rightarrow> (respond 400 (JsonError ''bad_json''), st)
      | Some b \<Rightarrow>
          (case session s r fallback of
             (p, Some t, None) \<Rightarrow>
               if vb_nonce b \<noteq> t_nonce t then (respond 403 (JsonError ''expired''), st)
               else (case check_answer s r p t (trim_space (vb_answer b)) (vb_provider b) (vb_fp b) st of
                  (res, st) \<Rightarrow>
                    if \<not> cr_ok res then (respond (cr_status res) (JsonError (cr_code res)), st)
                    else (case grant s r p res st of
                            (None, st) \<Rightarrow> (http_fail, st)
                          | (Some cookies, st) \<Rightarrow>
                              (\<lparr>re_status = 204, re_cookies = cookies, re_body = Empty\<rparr>, st)))
           | _ \<Rightarrow> (respond 403 (JsonError ''no_ticket''), st)))"

definition audio :: "('s, 'info) web \<Rightarrow> http_request \<Rightarrow> profile \<Rightarrow> 's site \<Rightarrow> response \<times> 's site" where
  "audio s r fallback st =
     (case session s r fallback of
        (p, Some t, None) \<Rightarrow>
          (case http_chain p (Some t) of
             Inl _ \<Rightarrow> (http_fail, st)
           | Inr chain \<Rightarrow>
               (case ByKind chain ProviderImage of
                  Some (PImage ref cfg ttl) \<Rightarrow>
                    if \<not> AudioEnabled (we_outside s) ref cfg then (respond 404 (PlainError ''404 page not found''), st)
                    else (case image_audio (we_outside s) (we_roster s) (we_now s) cfg (t_nonce t) (si_roster st) of
                            (None, m) \<Rightarrow> (respond 404 (PlainError ''no challenge''), st\<lparr>si_roster := m\<rparr>)
                          | (Some wav, m) \<Rightarrow>
                              (respond 200 (Wav wav), count_stat ''provider.image.audio'' (st\<lparr>si_roster := m\<rparr>)))
                | _ \<Rightarrow> (respond 404 (PlainError ''404 page not found''), st)))
      | _ \<Rightarrow> (respond 403 (PlainError ''no ticket''), st))"

definition not_allowed :: response where
  "not_allowed = respond 405 (PlainError ''method not allowed'')"

definition ServeHTTP ::
    "('s, 'info) web \<Rightarrow> front \<Rightarrow> http_request \<Rightarrow> 's site \<Rightarrow> response option \<times> 's site" where
  "ServeHTTP s f r st =
     (case http_route (we_snapshot s) (rq_path r) of
        None \<Rightarrow> (Some (respond 404 (PlainError ''404 page not found'')), st)
      | Some (p, action) \<Rightarrow>
          if action = actionHealth then (Some (respond 204 Empty), st)
          else if action = actionScript then (Some (respond 200 (Script (fr_script f))), st)
          else if action = actionPage
          then if rq_method r \<in> {''GET'', ''HEAD''} then page s r p [] st
               else if rq_method r = ''POST'' then submit s f r p st
               else (Some not_allowed, st)
          else if action = actionAPI
          then if rq_method r \<noteq> ''GET'' then (Some not_allowed, st) else map_prod Some id (api s r p st)
          else if action = actionVerify
          then if rq_method r \<noteq> ''POST'' then (Some not_allowed, st) else map_prod Some id (verify s f r p st)
          else if action = actionStatus then (Some (respond 200 (JsonStatus (http_status s r p))), st)
          else if action = actionAudio then map_prod Some id (audio s r p st)
          else (Some (respond 404 (PlainError ''404 page not found'')), st))"

end
