(* ===== verification/Passes.thy ===== *)
theory Passes
  imports Web
begin

lemma site_roster_fields [simp]:
  "si_roster (count_stat key st) = si_roster st" "si_roster (http_fired s p on ip sealed cid st) = si_roster st"
  by (simp_all add: count_stat_def http_fired_def Let_def)

lemma session_cases:
  obtains (opened) p t where "session s rq p0 = (p, Some t, None)"
  | (shut) p e where "session s rq p0 = (p, None, e)"
  | (bad) p t e where "session s rq p0 = (p, Some t, Some e)"
  by (metis not_Some_eq prod_cases3)

section \<open>What a pass takes\<close>

definition answered :: "verdict \<Rightarrow> provider \<Rightarrow> bool" where
  "answered v prv \<longleftrightarrow> v = VOk \<or>
     v = VUnavailable \<and> (\<exists>kind cfg. prv = PExternal kind cfg \<and> ex_on_error cfg = OnErrorAllow)"

lemma after_verify_ok:
  assumes "after_verify s p t prv ip fp v st = (res, st')" "cr_ok res"
  shows "answered v prv \<and> cr_provider res = Kind prv \<and> cr_fp res = fpHash fp \<and>
    (\<exists>m. ro_burn (we_roster s) (we_now s) ''nonce'' (t_nonce t) (ch_ttl (p_challenge p)) (si_roster st) =
            (Some True, m) \<and> si_roster st' = m)"
  using assms
  by (cases prv)
    (auto simp: after_verify_def burn_nonce_def answered_def Let_def passed_def refused_def
      split: verdict.splits if_splits option.splits bool.splits prod.splits)

lemma chain_not_empty: "http_chain p t = Inr chain \<Longrightarrow> chain \<noteq> []"
  by (auto simp: http_chain_def Let_def Chain_def split: option.splits if_splits sum.splits prod.splits)

lemma by_kind_in: "ByKind chain kind = Some prv \<Longrightarrow> prv \<in> set chain"
  by (auto simp: ByKind_def find_Some_iff)

lemma picked_in: "chain \<noteq> [] \<Longrightarrow> (case ByKind chain kind of None \<Rightarrow> hd chain | Some prv \<Rightarrow> prv) \<in> set chain"
  by (auto simp: by_kind_in split: option.split)

definition checks_out ::
    "('s, 'info) web \<Rightarrow> http_request \<Rightarrow> profile \<Rightarrow> ticket \<Rightarrow> check_result \<Rightarrow> 's site \<Rightarrow> 's site \<Rightarrow> bool" where
  "checks_out s rq p t res st st' \<longleftrightarrow>
     (\<exists>st1 chain prv ans v m.
        within_limit s (li_verify (p_limits p)) ''verify'' (subnet_of s rq p) st = (True, st1) \<and>
        (cr_fp res = [] \<or> \<not> ro_revoked (we_roster s) (we_now s) (''fp:'' @ cr_fp res) (si_roster st1)) \<and>
        http_chain p (Some t) = Inr chain \<and> prv \<in> set chain \<and> cr_provider res = Kind prv \<and>
        Verify (we_outside s) (we_roster s) (we_now s) prv (t_nonce t) ans (clientIP s rq) (si_roster st1) = (v, m) \<and>
        answered v prv \<and>
        ro_burn (we_roster s) (we_now s) ''nonce'' (t_nonce t) (ch_ttl (p_challenge p)) m =
          (Some True, si_roster st'))"

lemma check_ok:
  assumes c: "check_answer s rq p t answer kind fp st = (res, st')" and ok: "cr_ok res"
  shows "checks_out s rq p t res st st'"
proof -
  define f where "f = (if fp = [] then form_value rq ''fp'' else fp)"
  define k where "k = (if kind = [] then form_value rq ''provider'' else kind)"
  obtain w st1 where w: "within_limit s (li_verify (p_limits p)) ''verify'' (subnet_of s rq p) st = (w, st1)"
    by fastforce
  have w1: w and nb: "\<not> (fpHash f \<noteq> [] \<and> ro_revoked (we_roster s) (we_now s) (''fp:'' @ fpHash f) (si_roster st1))"
    using c ok by (auto simp: check_answer_def Let_def w refused_def f_def split: bool.splits if_splits)
  obtain chain where ch: "http_chain p (Some t) = Inr chain"
    using c ok w w1 nb
    by (cases "http_chain p (Some t)") (auto simp: check_answer_def Let_def refused_def f_def [symmetric])
  obtain k2 a2 where ka: "(if answer = [] then (case answer_in_form rq chain of None \<Rightarrow> (k, answer) | Some ka \<Rightarrow> ka)
      else (k, answer)) = (k2, a2)" by fastforce
  let ?prv = "case ByKind chain k2 of None \<Rightarrow> hd chain | Some prv \<Rightarrow> prv"
  obtain v m where vm: "Verify (we_outside s) (we_roster s) (we_now s) ?prv (t_nonce t) a2 (clientIP s rq)
      (si_roster st1) = (v, m)" by fastforce
  have av: "after_verify s p t ?prv (clientIP s rq) f v (st1\<lparr>si_roster := m\<rparr>) = (res, st')"
    using c w1 nb
    by (simp only: check_answer_def Let_def f_def [symmetric] k_def [symmetric] w w1 prod.case bool.case
        if_False ch sum.case ka vm)
  from after_verify_ok [OF av ok] show ?thesis
    unfolding checks_out_def using w w1 nb ch vm picked_in [OF chain_not_empty [OF ch], of k2]
    by (intro exI [of _ st1] exI [of _ chain] exI [of _ ?prv] exI [of _ a2] exI [of _ v] exI [of _ m]) auto
qed

lemma no_cookies [simp]:
  "re_cookies (respond c b) = []" "re_cookies http_fail = []" "re_cookies (render p v c) = []"
  "re_cookies not_allowed = []"
  by (simp_all add: respond_def http_fail_def render_def not_allowed_def)

lemma page_no_cookies: "pageSkipping s rq p0 msg skip st = (Some resp, st') \<Longrightarrow> re_cookies resp = []"
  by (auto simp: pageSkipping_def split: prod.splits option.splits session_error.splits bool.splits)

lemma api_no_cookies: "api s rq p0 st = (resp, st') \<Longrightarrow> re_cookies resp = []"
  by (auto simp: api_def split: prod.splits option.splits session_error.splits bool.splits)

lemma audio_no_cookies: "audio s rq p0 st = (resp, st') \<Longrightarrow> re_cookies resp = []"
  by (auto simp: audio_def split: prod.splits option.splits session_error.splits sum.splits
      provider.splits if_splits)

definition earns ::
    "('s, 'info) web \<Rightarrow> http_request \<Rightarrow> profile \<Rightarrow> ticket \<Rightarrow> set_cookie list \<Rightarrow> 's site \<Rightarrow> 's site \<Rightarrow> bool" where
  "earns s rq p t cookies st st' \<longleftrightarrow>
     (\<exists>res st1. cr_ok res \<and> checks_out s rq p t res st st1 \<and> grant s rq p res st1 = (Some cookies, st'))"

lemma earnsI [intro]:
  "cr_ok res \<Longrightarrow> checks_out s rq p t res st st1 \<Longrightarrow> grant s rq p res st1 = (Some cookies, st') \<Longrightarrow>
     earns s rq p t cookies st st'"
  by (auto simp: earns_def)

lemma grant_cookies:
  assumes "grant s rq p res st = (Some cookies, st')"
  obtains sealed where "SealClearance (we_key s) (we_nonce s) (new_clearance s rq p res) = Some sealed"
    "cookies = [setCookie s (cc_cookie (p_clearance p)) sealed ''/'' (cc_ttl (p_clearance p)),
       setCookie s (cc_id_cookie (p_clearance p)) (NewID (we_cid s)) ''/'' (cc_ttl (p_clearance p)),
       clearCookie s (ch_cookie (p_challenge p)) (p_path p)]"
proof -
  obtain sealed where sl: "SealClearance (we_key s) (we_nonce s) (new_clearance s rq p res) = Some sealed"
    using assms by (cases "SealClearance (we_key s) (we_nonce s) (new_clearance s rq p res)") (auto simp: grant_def Let_def)
  have "c_cid (new_clearance s rq p res) = NewID (we_cid s)" by (simp add: new_clearance_def)
  with sl assms that show ?thesis by (simp add: grant_def Let_def)
qed

lemma submit_cookies:
  assumes "submit s f rq p0 st = (Some resp, st')" "re_cookies resp \<noteq> []"
  shows "\<exists>p t. session s rq p0 = (p, Some t, None) \<and> form_value rq ''csrf'' = t_nonce t \<and>
     earns s rq p t (re_cookies resp) st st'"
proof -
  have form: "rq_form_ok rq" using assms by (cases "rq_form_ok rq") (auto simp: submit_def)
  show ?thesis
  proof (cases rule: session_cases [of s rq p0])
    case (opened p t)
    obtain res st1 where c: "check_answer s rq p t (trim_space (form_value rq ''answer'')) [] [] st = (res, st1)"
      by fastforce
    have csrf: "form_value rq ''csrf'' = t_nonce t" and ok: "cr_ok res"
      using assms form opened c by (auto simp: submit_def page_def dest: page_no_cookies split: if_splits)
    obtain g st2 where g: "grant s rq p res st1 = (g, st2)" by fastforce
    show ?thesis
      using assms form opened c csrf ok g check_ok [OF c ok]
      by (cases g) (auto simp: submit_def redirectBack_def)
  qed (use assms form in \<open>auto simp: submit_def page_def dest: page_no_cookies\<close>)
qed

lemma verify_cookies:
  assumes "verify s f rq p0 st = (resp, st')" "re_cookies resp \<noteq> []"
  shows "\<exists>b p t. fr_verify_json f (rq_body rq) = Some b \<and> session s rq p0 = (p, Some t, None) \<and>
     vb_nonce b = t_nonce t \<and> earns s rq p t (re_cookies resp) st st'"
proof -
  obtain b where b: "fr_verify_json f (rq_body rq) = Some b"
    using assms by (cases "fr_verify_json f (rq_body rq)") (auto simp: verify_def)
  show ?thesis
  proof (cases rule: session_cases [of s rq p0])
    case (opened p t)
    obtain res st1 where c: "check_answer s rq p t (trim_space (vb_answer b)) (vb_provider b) (vb_fp b) st = (res, st1)"
      by fastforce
    have n: "vb_nonce b = t_nonce t" and ok: "cr_ok res"
      using assms b opened c by (auto simp: verify_def split: if_splits)
    obtain g st2 where g: "grant s rq p res st1 = (g, st2)" by fastforce
    show ?thesis
      using assms b opened c n ok g check_ok [OF c ok]
      by (cases g) (auto simp: verify_def)
  qed (use assms b in \<open>auto simp: verify_def\<close>)
qed

lemma serve_cookies:
  assumes "ServeHTTP s f rq st = (Some resp, st')" "re_cookies resp \<noteq> []"
  shows "\<exists>p0 act p t. http_route (we_snapshot s) (rq_path rq) = Some (p0, act) \<and> rq_method rq = ''POST'' \<and>
     session s rq p0 = (p, Some t, None) \<and>
     (act = actionPage \<and> form_value rq ''csrf'' = t_nonce t \<or>
      act = actionVerify \<and> (\<exists>b. fr_verify_json f (rq_body rq) = Some b \<and> vb_nonce b = t_nonce t)) \<and>
     earns s rq p t (re_cookies resp) st st'"
proof -
  obtain p0 act where r: "http_route (we_snapshot s) (rq_path rq) = Some (p0, act)"
    using assms by (auto simp: ServeHTTP_def split: option.splits)
  consider (form) "act = actionPage" "rq_method rq = ''POST''" "submit s f rq p0 st = (Some resp, st')"
    | (json) "act = actionVerify" "rq_method rq = ''POST''" "verify s f rq p0 st = (resp, st')"
    using assms r
    by (auto simp: ServeHTTP_def page_def map_prod_def dest: page_no_cookies api_no_cookies audio_no_cookies
        split: if_splits prod.splits)
  then show ?thesis
  proof cases
    case form
    from submit_cookies [OF form(3) assms(2)] form r show ?thesis by auto
  next
    case json
    from verify_cookies [OF json(3) assms(2)] json r show ?thesis by auto
  qed
qed

section \<open>A nonce is spent once\<close>

fun serve_all ::
    "(('s, 'info) web \<times> front \<times> http_request) list \<Rightarrow> 's site \<Rightarrow> response option list \<times> 's site" where
  "serve_all [] st = ([], st)"
| "serve_all ((s, f, rq) # reqs) st =
     (case ServeHTTP s f rq st of (resp, st) \<Rightarrow>
        (case serve_all reqs st of (resps, st) \<Rightarrow> (resp # resps, st)))"

definition request_session :: "('s, 'info) web \<Rightarrow> http_request \<Rightarrow> (profile \<times> ticket) option" where
  "request_session s rq =
     (case http_route (we_snapshot s) (rq_path rq) of
        None \<Rightarrow> None
      | Some (p0, _) \<Rightarrow> (case session s rq p0 of (p, Some t, None) \<Rightarrow> Some (p, t) | _ \<Rightarrow> None))"

text \<open>What the handlers rely on: \<open>Burn\<close> says yes only when the mark is not live and leaves one until the end it
  names, and no operation of the roster touches a mark that is still live.\<close>

inductive_set roster_moves :: "'s roster \<Rightarrow> go_time \<Rightarrow> 's \<Rightarrow> 's set"
  for r :: "'s roster" and now :: go_time and m :: 's where
  burn: "snd (ro_burn r now k n ttl m) \<in> roster_moves r now m"
| fail: "snd (ro_fail r now sc w m) \<in> roster_moves r now m"
| revoke: "snd (ro_revoke r now sid till m) \<in> roster_moves r now m"
| put: "snd (ro_put r now k n v ttl m) \<in> roster_moves r now m"
| get: "snd (ro_get r now k n m) \<in> roster_moves r now m"
| del: "snd (ro_del r now k n m) \<in> roster_moves r now m"

locale nonce_roster =
  fixes r :: "'s roster"
    and spent :: "'s \<Rightarrow> string \<Rightarrow> go_time option"
    and good :: "'s \<Rightarrow> bool"
  assumes burn_yes: "good m \<Longrightarrow> ro_burn r now ''nonce'' n ttl m = (Some True, m') \<Longrightarrow>
      \<not> (\<exists>u. spent m n = Some u \<and> now < u) \<and> spent m' n = Some (now + ttl)"
    and moves_keep: "good m \<Longrightarrow> m' \<in> roster_moves r now m \<Longrightarrow>
      good m' \<and> (spent m n = Some u \<and> now < u \<longrightarrow> spent m' n = Some u)"
begin

definition kept :: "go_time \<Rightarrow> 's \<Rightarrow> 's \<Rightarrow> bool" where
  "kept now m m' \<longleftrightarrow> (good m \<longrightarrow> good m' \<and> (\<forall>n u. spent m n = Some u \<and> now < u \<longrightarrow> spent m' n = Some u))"

lemma kept_refl [simp]: "kept now m m"
  by (simp add: kept_def)

lemma kept_trans: "kept now m m' \<Longrightarrow> kept now m' m'' \<Longrightarrow> kept now m m''"
  by (auto simp: kept_def)

lemma kept_move: "m' \<in> roster_moves r now m \<Longrightarrow> kept now m m'"
  using moves_keep by (auto simp: kept_def)

lemma kept_moves [simp]:
  "kept now m (snd (ro_burn r now k n ttl m))" "kept now m (snd (ro_fail r now sc w m))"
  "kept now m (snd (ro_revoke r now sid till m))" "kept now m (snd (ro_put r now k n v ttl m))"
  "kept now m (snd (ro_get r now k n m))" "kept now m (snd (ro_del r now k n m))"
  by (simp_all add: kept_move roster_moves.intros)

lemma kept_pair:
  assumes "ro_burn r now k n ttl m = (b, m')" shows "kept now m m'"
  using kept_moves(1) [of now m k n ttl] assms by simp

lemma kept_fail:
  assumes "ro_fail r now sc w m = (c, m')" shows "kept now m m'"
  using kept_moves(2) [of now m sc w] assms by simp

lemma kept_put:
  assumes "ro_put r now k n v ttl m = (d, m')" shows "kept now m m'"
  using kept_moves(4) [of now m k n v ttl] assms by simp

lemma kept_get:
  assumes "ro_get r now k n m = (g, m')" shows "kept now m m'"
  using kept_moves(5) [of now m k n] assms by simp

text \<open>Every step of the handlers keeps the marks.\<close>

lemma within_kept:
  assumes "we_roster s = r"
  shows "kept (we_now s) (si_roster st) (si_roster (snd (within_limit s rate kind sub st)))"
  by (simp add: within_limit_def assms kept_fail split: option.split prod.split)

lemma burn_kept:
  assumes "we_roster s = r"
  shows "kept (we_now s) (si_roster st) (si_roster (snd (burn_nonce s p t st)))"
  by (simp add: burn_nonce_def assms kept_pair split: prod.split)

lemma farm_kept:
  assumes "we_roster s = r"
  shows "kept (we_now s) (si_roster st) (si_roster (count_farm s p fp st))"
proof -
  obtain c m' where f: "ro_fail r (we_now s) (''fp:'' @ fp) (fc_window (p_fingerprint p)) (si_roster st) = (c, m')"
    by fastforce
  have "kept (we_now s) (si_roster st) m'" using f by (rule kept_fail)
  then have "kept (we_now s) (si_roster st) (snd (ro_revoke r (we_now s) (''fp:'' @ fp) till m'))" for till
    using kept_trans kept_moves(3) by blast
  then show ?thesis using f \<open>kept (we_now s) (si_roster st) m'\<close>
    by (simp add: count_farm_def assms split: option.split)
qed

lemma verify_kept: "kept now m (snd (Verify o' r now prv n ans ip m))"
proof (cases prv)
  case (PExternal kind cfg)
  then show ?thesis by (simp add: Verify_def)
next
  case (PImage ref cfg ttl)
  obtain g m1 where g: "ro_get r now imageKind n m = (g, m1)" by fastforce
  then have k: "kept now m m1" by (rule kept_get)
  then have "kept now m (snd (ro_del r now imageKind n m1))" using kept_trans kept_moves(6) by blast
  with k show ?thesis
    by (simp add: Verify_def PImage image_verify_def g split: sum.split get_error.split)
qed

lemma issue_kept: "kept now m (snd (Issue o' r now prv nonce m))"
  by (simp add: Issue_def image_issue_def Let_def kept_put split: provider.split prod.split bool.split)

lemma after_verify_kept:
  assumes "we_roster s = r"
  shows "kept (we_now s) (si_roster st) (si_roster (snd (after_verify s p t prv ip fp v st)))"
proof -
  have "kept (we_now s) (si_roster st) (si_roster (snd (burn_nonce s p t (count_stat key st))))" for key
    using burn_kept [OF assms, of "count_stat key st" p t] by simp
  note b = this burn_kept [OF assms, of st p t]
  show ?thesis
    using b(1) [of "''provider.'' @ Kind prv @ ''.down''"] b(2)
    by (simp add: after_verify_def Let_def case_prod_beta split: verdict.split option.split bool.split)
qed

lemma check_kept:
  assumes "we_roster s = r"
  shows "kept (we_now s) (si_roster st) (si_roster (snd (check_answer s rq p t ans kind fp st)))"
proof -
  obtain w st1 where w: "within_limit s (li_verify (p_limits p)) ''verify'' (subnet_of s rq p) st = (w, st1)"
    by fastforce
  then have k1: "kept (we_now s) (si_roster st) (si_roster st1)"
    using within_kept [OF assms, of st "li_verify (p_limits p)" "''verify''" "subnet_of s rq p"] by simp
  have k2: "kept (we_now s) (si_roster st)
      (si_roster (snd (after_verify s p t prv ip f v
         (st1\<lparr>si_roster := snd (Verify (we_outside s) r (we_now s) prv n a ip (si_roster st1))\<rparr>))))"
    for prv ip f v n a
    using kept_trans [OF kept_trans [OF k1 verify_kept]]
      after_verify_kept [OF assms, of "st1\<lparr>si_roster := snd (Verify (we_outside s) r (we_now s) prv n a ip (si_roster st1))\<rparr>" p t prv ip f v]
    by simp
  show ?thesis
    using k1 k2
    by (cases w) (simp_all add: check_answer_def Let_def w case_prod_beta assms split: sum.split)
qed

lemma grant_kept:
  assumes "we_roster s = r"
  shows "kept (we_now s) (si_roster st) (si_roster (snd (grant s rq p res st)))"
  using farm_kept [OF assms, of st p "cr_fp res"]
  by (simp add: grant_def Let_def split: option.split)

lemma issue_widgets_kept:
  assumes "we_roster s = r"
  shows "kept (we_now s) (si_roster st) (si_roster (snd (issue_widgets s nonce i ps st)))"
proof (induction ps arbitrary: i st)
  case (Cons prv ps)
  have "kept (we_now s) (si_roster st) (snd (Issue (we_outside s) r (we_now s) prv nonce (si_roster st)))"
    by (rule issue_kept)
  from kept_trans [OF this] show ?case
    using Cons.IH [of "st\<lparr>si_roster := snd (Issue (we_outside s) r (we_now s) prv nonce (si_roster st))\<rparr>" "Suc i"]
    by (simp add: case_prod_beta assms)
qed simp

lemma widgets_kept:
  assumes "we_roster s = r"
  shows "kept (we_now s) (si_roster st) (si_roster (snd (widgets s p t st)))"
  using issue_widgets_kept [OF assms] by (simp add: widgets_def case_prod_beta split: sum.split)

lemma page_kept:
  assumes "we_roster s = r"
  shows "kept (we_now s) (si_roster st) (si_roster (snd (pageSkipping s rq p0 msg skip st)))"
proof (cases rule: session_cases [of s rq p0])
  case (opened p t)
  obtain w st1 where w: "within_limit s (li_issue (p_limits p)) ''issue'' (subnet_of s rq p)
      (count_stat ''page.shown'' st) = (w, st1)" by fastforce
  then have k: "kept (we_now s) (si_roster st) (si_roster st1)"
    using within_kept [OF assms, of "count_stat ''page.shown'' st" "li_issue (p_limits p)" "''issue''"
        "subnet_of s rq p"] by simp
  then show ?thesis
    using kept_trans [OF k widgets_kept [OF assms, of st1 p t]] w opened
    by (cases w; cases "widgets s p t st1") (simp_all add: pageSkipping_def split: option.split)
qed (simp_all add: pageSkipping_def)

lemma api_kept:
  assumes "we_roster s = r"
  shows "kept (we_now s) (si_roster st) (si_roster (snd (api s rq p0 st)))"
proof (cases rule: session_cases [of s rq p0])
  case (opened p t)
  obtain w st1 where w: "within_limit s (li_issue (p_limits p)) ''issue'' (subnet_of s rq p) st = (w, st1)"
    by fastforce
  then have k: "kept (we_now s) (si_roster st) (si_roster st1)"
    using within_kept [OF assms, of st "li_issue (p_limits p)" "''issue''" "subnet_of s rq p"] by simp
  then show ?thesis
    using kept_trans [OF k widgets_kept [OF assms, of st1 p t]] w opened
    by (cases w; cases "widgets s p t st1") (simp_all add: api_def split: option.split)
qed (simp_all add: api_def)

lemma image_audio_kept: "kept now m (snd (image_audio o' r now cfg nonce m))"
  by (simp add: image_audio_def kept_get split: prod.split sum.split)

lemma audio_kept:
  assumes "we_roster s = r"
  shows "kept (we_now s) (si_roster st) (si_roster (snd (audio s rq p0 st)))"
proof (cases rule: session_cases [of s rq p0])
  case (opened p t)
  then show ?thesis
    using image_audio_kept [of "we_now s" "si_roster st" "we_outside s" _ "t_nonce t"]
    by (simp add: audio_def case_prod_beta assms split: sum.split option.split provider.split)
qed (simp_all add: audio_def)

lemma submit_kept:
  assumes "we_roster s = r"
  shows "kept (we_now s) (si_roster st) (si_roster (snd (submit s f rq p0 st)))"
proof (cases rule: session_cases [of s rq p0])
  case (opened p t)
  obtain res st1 where c: "check_answer s rq p t (trim_space (form_value rq ''answer'')) [] [] st = (res, st1)"
    by fastforce
  then have k: "kept (we_now s) (si_roster st) (si_roster st1)"
    using check_kept [OF assms, of st rq p t "trim_space (form_value rq ''answer'')" "[]" "[]"] by simp
  show ?thesis
    using page_kept [OF assms] k kept_trans [OF k grant_kept [OF assms, of st1 rq p res]]
      kept_trans [OF k page_kept [OF assms, of st1 rq p "cr_msg res" "cr_skip res"]] opened
    by (cases "grant s rq p res st1") (simp add: submit_def c page_def split: option.split)
qed (use page_kept [OF assms] in \<open>simp_all add: submit_def page_def\<close>)

lemma verify_handler_kept:
  assumes "we_roster s = r"
  shows "kept (we_now s) (si_roster st) (si_roster (snd (verify s f rq p0 st)))"
proof (cases "fr_verify_json f (rq_body rq)")
  case (Some b)
  show ?thesis
  proof (cases rule: session_cases [of s rq p0])
    case (opened p t)
    obtain res st1 where c: "check_answer s rq p t (trim_space (vb_answer b)) (vb_provider b) (vb_fp b) st = (res, st1)"
      by fastforce
    then have k: "kept (we_now s) (si_roster st) (si_roster st1)"
      using check_kept [OF assms, of st rq p t "trim_space (vb_answer b)" "vb_provider b" "vb_fp b"] by simp
    show ?thesis
      using k kept_trans [OF k grant_kept [OF assms, of st1 rq p res]] opened
      by (cases "grant s rq p res st1") (simp add: verify_def c Some split: option.split)
  qed (simp_all add: verify_def Some)
qed (simp add: verify_def)

lemma serve_kept:
  assumes "we_roster s = r"
  shows "kept (we_now s) (si_roster st) (si_roster (snd (ServeHTTP s f rq st)))"
  using page_kept [OF assms] submit_kept [OF assms] api_kept [OF assms] verify_handler_kept [OF assms]
    audio_kept [OF assms]
  by (simp add: ServeHTTP_def page_def split: option.split)

lemma earns_spends:
  assumes "we_roster s = r" "good (si_roster st)" "earns s rq p t cookies st st'"
  shows "\<exists>m. good m \<and> kept (we_now s) (si_roster st) m \<and>
     \<not> (\<exists>u. spent m (t_nonce t) = Some u \<and> we_now s < u) \<and>
     (0 < ch_ttl (p_challenge p) \<longrightarrow>
        good (si_roster st') \<and> spent (si_roster st') (t_nonce t) = Some (we_now s + ch_ttl (p_challenge p)))"
proof -
  obtain res st1 where e: "checks_out s rq p t res st st1" "grant s rq p res st1 = (Some cookies, st')"
    using assms(3) by (auto simp: earns_def)
  obtain st0 prv ans v m where
      w: "within_limit s (li_verify (p_limits p)) ''verify'' (subnet_of s rq p) st = (True, st0)"
    and ver: "Verify (we_outside s) r (we_now s) prv (t_nonce t) ans (clientIP s rq) (si_roster st0) = (v, m)"
    and b: "ro_burn r (we_now s) ''nonce'' (t_nonce t) (ch_ttl (p_challenge p)) m = (Some True, si_roster st1)"
    using e(1) unfolding checks_out_def assms(1) by blast
  have "kept (we_now s) (si_roster st) (si_roster st0)"
    using within_kept [OF assms(1), of st "li_verify (p_limits p)" "''verify''" "subnet_of s rq p"] w by simp
  moreover have "kept (we_now s) (si_roster st0) m"
    using verify_kept [of "we_now s" "si_roster st0"] ver by (metis snd_conv)
  ultimately have k: "kept (we_now s) (si_roster st) m" by (rule kept_trans)
  then have gm: "good m" using assms(2) by (simp add: kept_def)
  have k2: "kept (we_now s) (si_roster st1) (si_roster st')"
    using grant_kept [OF assms(1), of st1 rq p res] e(2) by simp
  have g1: "good (si_roster st1)" using kept_pair [OF b] gm by (simp add: kept_def)
  have fresh: "\<not> (\<exists>u. spent m (t_nonce t) = Some u \<and> we_now s < u)"
    and now: "spent (si_roster st1) (t_nonce t) = Some (we_now s + ch_ttl (p_challenge p))"
    using burn_yes [OF gm b] by simp_all
  have "good (si_roster st') \<and> spent (si_roster st') (t_nonce t) = Some (we_now s + ch_ttl (p_challenge p))"
    if "0 < ch_ttl (p_challenge p)"
    using k2 g1 now that by (simp add: kept_def)
  with fresh gm k show ?thesis by blast
qed

lemma run_kept:
  "\<forall>(s, f, rq) \<in> set reqs. we_roster s = r \<and> now \<le> we_now s \<and> we_now s < u \<Longrightarrow> good (si_roster st) \<Longrightarrow>
     spent (si_roster st) n = Some u \<Longrightarrow>
     good (si_roster (snd (serve_all reqs st))) \<and> spent (si_roster (snd (serve_all reqs st))) n = Some u"
proof (induction reqs arbitrary: st)
  case (Cons q reqs)
  obtain s f rq where q: "q = (s, f, rq)" by (cases q)
  have "kept (we_now s) (si_roster st) (si_roster (snd (ServeHTTP s f rq st)))"
    using Cons.prems q by (intro serve_kept) auto
  then have "good (si_roster (snd (ServeHTTP s f rq st)))" "spent (si_roster (snd (ServeHTTP s f rq st))) n = Some u"
    using Cons.prems q by (auto simp: kept_def)
  then show ?case using Cons.IH [of "snd (ServeHTTP s f rq st)"] Cons.prems(1) q by (simp add: case_prod_beta)
qed simp

end

section \<open>The roster kept in memory\<close>

definition mem_nonce :: "memory \<Rightarrow> string \<Rightarrow> go_time option" where
  "mem_nonce m n = mem_spent m ''nonce'' n"

lemma memory_move:
  "m' \<in> roster_moves memory_roster now m \<Longrightarrow> m' = m \<or> (\<exists>op. m' = snd (mem_step now op m))"
proof (induction rule: roster_moves.induct)
  case (burn k n ttl)
  show ?case by (rule disjI2, rule exI [of _ "OpBurn k n ttl"]) (simp add: memory_roster_def case_prod_beta)
next
  case (fail sc w)
  show ?case by (rule disjI2, rule exI [of _ "OpFail sc w"]) (simp add: memory_roster_def case_prod_beta)
next
  case (revoke sid till)
  show ?case by (rule disjI2, rule exI [of _ "OpRevoke sid till"]) (simp add: memory_roster_def)
next
  case (put k n v ttl)
  show ?case by (rule disjI2, rule exI [of _ "OpPut k n v ttl"]) (simp add: memory_roster_def)
next
  case (get k n)
  show ?case
    by (rule disjI2, rule exI [of _ "OpGet k n"]) (simp add: memory_roster_def case_prod_beta split: option.split prod.split)
next
  case (del k n)
  show ?case by (rule disjI2, rule exI [of _ "OpDel k n"]) (simp add: memory_roster_def)
qed

interpretation memory_nonces: nonce_roster memory_roster mem_nonce mem_wf
proof unfold_locales
  fix m now n ttl m'
  assume "ro_burn memory_roster now ''nonce'' n ttl m = (Some True, m')"
  then have b: "Burn now ''nonce'' n ttl m = (True, m')"
    by (simp add: memory_roster_def split: prod.splits)
  then show "\<not> (\<exists>u. mem_nonce m n = Some u \<and> now < u) \<and> mem_nonce m' n = Some (now + ttl)"
    using burn_burned [of now "''nonce''" n ttl m] burn_sets [of now "''nonce''" n ttl m] by (simp add: mem_nonce_def)
next
  fix m m' now n u
  assume wf: "mem_wf m" and mv: "m' \<in> roster_moves memory_roster now m"
  from memory_move [OF mv] wf show "mem_wf m' \<and> (mem_nonce m n = Some u \<and> now < u \<longrightarrow> mem_nonce m' n = Some u)"
    using mem_step_wf [OF wf] mem_step_keeps [OF wf] by (auto simp: mem_nonce_def)
qed

lemma later_instant: "unix a < e \<Longrightarrow> e \<le> unix b \<Longrightarrow> a < b"
  using unix_mono [of b a] by (cases "a < b") auto

lemma request_session_open:
  assumes "request_session s rq = Some (p, t)"
  shows "unix (we_now s) < t_expiry t \<and> (\<exists>p0 act. http_route (we_snapshot s) (rq_path rq) = Some (p0, act) \<and>
    session s rq p0 = (p, Some t, None))"
proof -
  obtain p0 act where r: "http_route (we_snapshot s) (rq_path rq) = Some (p0, act)"
    using assms by (auto simp: request_session_def split: option.splits)
  then have ses: "session s rq p0 = (p, Some t, None)"
    using assms by (auto simp: request_session_def split: prod.splits option.splits)
  then have "OpenTicket (we_key s) (cookieValue rq (ch_cookie (p_challenge p0))) (we_now s) = (Some t, None)"
    by (auto simp: session_def Let_def split: if_splits prod.splits option.splits)
  then have "unix (we_now s) < t_expiry t"
    by (auto simp: OpenTicket_def split: sum.splits if_splits)
  with r ses show ?thesis by blast
qed

lemma earned_session:
  assumes "ServeHTTP s f rq st = (Some resp, st')" "re_cookies resp \<noteq> []"
  shows "\<exists>p t. request_session s rq = Some (p, t) \<and> earns s rq p t (re_cookies resp) st st'"
  using serve_cookies [OF assms] by (auto simp: request_session_def)

section \<open>A sample visit\<close>

definition ticket_raw :: string where
  "ticket_raw = ticketPrefix @ ''.'' @ b64_encode (''0'' @ ad_seal toy_aead ''0'' ''n'' ticketPrefix)"

lemma ticket_opens:
  assumes "unix now < 200"
  shows "OpenTicket toy_key ticket_raw now = (Some toy_ticket, None)" "ticket_raw \<noteq> []"
proof -
  have a: "aead_correct (k_gcm toy_key)" by (simp add: toy_key_def toy_aead_correct)
  have n: "length ''0'' = ad_nonce_size (k_gcm toy_key)" "''0'' \<noteq> []"
    by (simp_all add: toy_key_def toy_aead_def)
  have st: "seal_token toy_key ''0'' ticketPrefix (Some ''n'') = Some ticket_raw"
    by (simp add: seal_token_def toy_key_def ticket_raw_def del: b64_encode_def)
  have "open_token toy_key ticketPrefix ticket_raw (dec_ticket (k_json toy_key)) = Inr toy_ticket"
    using open_sealed [OF _ n(1) a n(2) st, of "dec_ticket (k_json toy_key)"]
    by (simp add: toy_key_def)
  then show "OpenTicket toy_key ticket_raw now = (Some toy_ticket, None)"
    using assms by (simp add: OpenTicket_def toy_ticket_def)
  show "ticket_raw \<noteq> []" by (simp add: ticket_raw_def)
qed

definition visit_clearance :: clearance where
  "visit_clearance = \<lparr>c_jti = NewID ''j'', c_cid = NewID ''c'', c_issued = 150, c_expiry = 150 + 86400,
     c_profile = ''sample'', c_provider = ''image'', c_net = [], c_ua = [], c_fp = [], c_flags = []\<rparr>"

definition visit_key :: token_key where
  "visit_key = toy_key\<lparr>k_json := (k_json toy_key)
     \<lparr>enc_clearance := (\<lambda>c. if c = visit_clearance then Some ''v'' else None),
      dec_clearance := (\<lambda>b. if b = ''v'' then Some visit_clearance else None)\<rparr>\<rparr>"

lemma visit_ticket_opens:
  "unix now < 200 \<Longrightarrow> OpenTicket visit_key ticket_raw now = (Some toy_ticket, None)"
proof -
  have "k_gcm visit_key = k_gcm toy_key" "dec_ticket (k_json visit_key) = dec_ticket (k_json toy_key)"
    by (simp_all add: visit_key_def)
  then have "OpenTicket visit_key ticket_raw now = OpenTicket toy_key ticket_raw now"
    by (simp only: OpenTicket_def open_token_def)
  then show "unix now < 200 \<Longrightarrow> OpenTicket visit_key ticket_raw now = (Some toy_ticket, None)"
    by (simp only: ticket_opens(1))
qed

definition visit_web :: "go_time \<Rightarrow> (memory, unit) web" where
  "visit_web now =
     \<lparr>we_key = visit_key, we_now = now,
      we_snapshot = \<lparr>sn_gen = 1, sn_fingerprint = [], sn_by_name = [(''p'', cleared_profile)], sn_by_path = [],
        sn_names = [''p''], sn_roster = p_roster cleared_profile, sn_limits = p_limits cleared_profile\<rparr>,
      we_roster = memory_roster, we_outside = toy_outside, we_clearances = None, we_list = False,
      we_geo_write = (\<lambda>_ _. None), we_geo = no_geo, we_backend = Local, we_evict_order = [], we_bucket_prefix = [],
      we_secure = True, we_real_ip = ''X-Real-IP'', we_jti = ''j'', we_cid = ''c'', we_nonce = ''0''\<rparr>"

definition visit_front :: front where
  "visit_front = \<lparr>fr_script = [], fr_verify_json = (\<lambda>_. None), fr_url_refused = (\<lambda>_. False)\<rparr>"

definition visit_answer :: http_request where
  "visit_answer =
     \<lparr>rq_method = ''POST'', rq_path = ''/waf/captcha'', rq_rd = [], rq_cookies = [(''waf_cap'', ticket_raw)],
      rq_headers = [], rq_remote = ''10.0.0.1:5'', rq_form_ok = True,
      rq_form = [(''csrf'', ''n''), (''answer'', ''ab12'')], rq_body = []\<rparr>"

definition visit_site :: "memory site" where
  "visit_site = \<lparr>si_roster = Put 0 imageKind ''n'' ''AB12'' (300 * Second) NewMemory,
     si_ledger = \<lparr>lg_max = 4, lg_m = []\<rparr>, si_stats = [], si_writes = []\<rparr>"

lemma visit_route: "http_route (we_snapshot (visit_web now)) (rq_path visit_answer) = Some (cleared_profile, actionPage)"
  by (simp add: http_route_def All_def visit_web_def visit_answer_def cleared_profile_def sample_profile_def)

lemma visit_bind: "bindOf s r cleared_profile = \<lparr>b_net = [], b_ua = []\<rparr>"
  by (simp add: bindOf_def cleared_profile_facts)

lemma visit_session:
  assumes "unix now < 200"
  shows "session (visit_web now) visit_answer cleared_profile = (cleared_profile, Some toy_ticket, None)"
proof -
  have "ch_cookie (p_challenge cleared_profile) = ''waf_cap''"
    by (simp add: cleared_profile_def sample_profile_def defaults_def Let_def)
  then have "cookieValue visit_answer (ch_cookie (p_challenge cleared_profile)) = ticket_raw"
    by (simp add: cookieValue_def visit_answer_def)
  with visit_ticket_opens [OF assms] ticket_opens(2) [OF assms] show ?thesis
    by (simp add: session_def Let_def visit_bind visit_web_def snap_profile_def toy_ticket_def)
qed

lemma visit_request_session:
  "unix now < 200 \<Longrightarrow> request_session (visit_web now) visit_answer = Some (cleared_profile, toy_ticket)"
  by (simp add: request_session_def visit_route visit_session)

lemma visit_chain:
  "http_chain cleared_profile (Some toy_ticket) =
     Inr [PImage (p_provider cleared_profile) (pc_image (p_provider_cfg cleared_profile)) (300 * Second)]"
  by (simp add: http_chain_def toy_ticket_def RuleFor_def Chain_def chain_refs_def Refs_def new_provider_def
      cleared_profile_def sample_profile_def defaults_def Let_def)

definition visit_counted :: "go_time \<Rightarrow> memory" where
  "visit_counted now = (si_roster visit_site)\<lparr>m_fails :=
     [(''verify:'' @ subnet_of (visit_web now) visit_answer cleared_profile,
       \<lparr>ct_n = 1, ct_until = Some (now + 60 * Second)\<rparr>)]\<rparr>"

lemma visit_within:
  "within_limit (visit_web now) (li_verify (p_limits cleared_profile)) ''verify''
     (subnet_of (visit_web now) visit_answer cleared_profile) visit_site =
   (True, visit_site\<lparr>si_roster := visit_counted now\<rparr>)"
proof -
  have "li_verify (p_limits cleared_profile) = \<lparr>ra_n = 60, ra_per = 60 * Second\<rparr>"
    by (simp add: cleared_profile_def sample_profile_def defaults_def Let_def)
  moreover have "m_fails (si_roster visit_site) = []" by (simp add: visit_site_def Put_def NewMemory_def)
  moreover have "we_roster (visit_web now) = memory_roster" "we_now (visit_web now) = now"
    by (simp_all add: visit_web_def)
  ultimately show ?thesis
    by (simp add: within_limit_def rate_enabled_def memory_roster_def Fail_def map_get_def visit_counted_def i64_def)
qed

lemma visit_value:
  "map_of (m_values (visit_counted now)) (imageKind @ '':'' @ ''n'') =
     Some \<lparr>me_value = ''AB12'', me_until = 300 * Second\<rparr>"
  "m_burned (visit_counted now) = []"
  by (simp_all add: visit_counted_def visit_site_def Put_def NewMemory_def update_conv')

definition visit_burned :: "go_time \<Rightarrow> memory" where
  "visit_burned now = snd (Burn now ''nonce'' ''n'' (300 * Second) (Del imageKind ''n'' (visit_counted now)))"

lemma visit_check:
  assumes "now \<le> 300 * Second"
  shows "check_answer (visit_web now) visit_answer cleared_profile toy_ticket ''ab12'' [] [] visit_site =
     (passed ProviderImage [] [],
      visit_site\<lparr>si_roster := visit_burned now, si_stats := [(''provider.image.solved'', 1)]\<rparr>)"
proof -
  have fold: "equal_fold (trim_space ''ab12'') ''AB12''" by code_simp
  have form: "form_value visit_answer ''fp'' = []" "form_value visit_answer ''provider'' = []"
    by (simp_all add: form_value_def visit_answer_def)
  have fp: "fpHash [] = []" by code_simp
  have ver: "image_verify memory_roster now ''n'' ''ab12'' (visit_counted now) = (VOk, Del imageKind ''n'' (visit_counted now))"
    using verify_stored [OF visit_value(1) [of now], of now "''ab12''"] assms fold by simp
  have burn: "Burn now ''nonce'' ''n'' (300 * Second) (Del imageKind ''n'' (visit_counted now)) = (True, visit_burned now)"
    by (simp add: visit_burned_def Burn_def Del_def visit_value)
  have w: "we_roster (visit_web now) = memory_roster" "we_now (visit_web now) = now" by (simp_all add: visit_web_def)
  have stats: "si_stats visit_site = []" by (simp add: visit_site_def)
  have t: "t_nonce toy_ticket = ''n''" by (simp add: toy_ticket_def)
  have ttl: "ch_ttl (p_challenge cleared_profile) = 300 * Second"
    by (simp add: cleared_profile_def sample_profile_def defaults_def Let_def)
  have mb: "ro_burn memory_roster now ''nonce'' ''n'' (300 * Second) (Del imageKind ''n'' (visit_counted now)) =
      (Some True, visit_burned now)"
    using burn by (simp add: memory_roster_def)
  have pick: "(case ByKind [PImage ref cfg d] k of None \<Rightarrow> hd [PImage ref cfg d] | Some prv \<Rightarrow> prv) = PImage ref cfg d"
    for ref cfg d k by (simp add: ByKind_def)
  show ?thesis
    by (simp add: check_answer_def visit_within form fp visit_chain pick Verify_def w t ver after_verify_def burn_nonce_def
        mb [folded ttl] Kind_def count_stat_def stat_inc_def stats i64_def)
qed

lemma visit_new_clearance:
  "new_clearance (visit_web (from_unix 150)) visit_answer cleared_profile (passed ProviderImage [] []) = visit_clearance"
proof -
  have "cc_ttl (p_clearance cleared_profile) = 24 * Hour" "p_name cleared_profile = ''sample''"
    by (simp_all add: cleared_profile_def sample_profile_def defaults_def Let_def)
  then show ?thesis
    by (simp add: new_clearance_def visit_clearance_def visit_bind visit_web_def passed_def from_unix_def unix_def)
qed

lemma visit_grant:
  "\<exists>cookies st. grant (visit_web (from_unix 150)) visit_answer cleared_profile (passed ProviderImage [] []) st0 =
     (Some cookies, st) \<and> cookies \<noteq> [] \<and> si_roster st = si_roster st0"
proof -
  have r: "RulesFor cleared_profile on bucket nxt = []" for on bucket nxt
    by (simp add: RulesFor_def cleared_profile_def sample_profile_def defaults_def Let_def)
  have sl: "\<exists>raw. SealClearance (we_key (visit_web (from_unix 150))) nonce visit_clearance = Some raw" for nonce
    by (simp add: SealClearance_def seal_token_def visit_web_def visit_key_def)
  have fp: "cr_fp (passed ProviderImage [] []) = []" by (simp add: passed_def)
  show ?thesis
    unfolding grant_def Let_def visit_new_clearance
    using sl [of "we_nonce (visit_web (from_unix 150))"]
    by (auto simp: count_farm_def fp cleared_profile_facts http_fired_def r count_stat_def)
qed

lemma visit_served:
  "\<exists>resp st. ServeHTTP (visit_web (from_unix 150)) visit_front visit_answer visit_site = (Some resp, st) \<and>
     re_cookies resp \<noteq> [] \<and> si_roster st = visit_burned (from_unix 150)"
proof -
  let ?now = "from_unix 150"
  have u: "?now \<le> 300 * Second" "unix ?now < 200" by (simp add: from_unix_def) simp
  have csrf: "form_value visit_answer ''csrf'' = ''n''" "trim_space (form_value visit_answer ''answer'') = ''ab12''"
    "rq_form_ok visit_answer" "rq_method visit_answer = ''POST''"
    by (simp_all add: form_value_def visit_answer_def) code_simp
  have t: "t_nonce toy_ticket = ''n''" by (simp add: toy_ticket_def)
  obtain cookies st where g: "grant (visit_web ?now) visit_answer cleared_profile (passed ProviderImage [] [])
      (visit_site\<lparr>si_roster := visit_burned ?now, si_stats := [(''provider.image.solved'', 1)]\<rparr>) = (Some cookies, st)"
      "cookies \<noteq> []" "si_roster st = visit_burned ?now"
    using visit_grant [of "visit_site\<lparr>si_roster := visit_burned ?now, si_stats := [(''provider.image.solved'', 1)]\<rparr>"]
    by auto
  show ?thesis
    using g by (simp add: ServeHTTP_def visit_route csrf submit_def visit_session [OF u(2)] t visit_check [OF u(1)]
        redirectBack_def) (simp add: passed_def)
qed

section \<open>Properties\<close>


text \<open>C5: One ticket, one clearance. Once the server with its roster in memory has answered a ticket with
  clearance cookies, no later request with a ticket of the same nonce is, whatever requests are served
  in between, on a clock that never goes back, as long as the ticket ends no later than the burn mark:
  before its end the nonce is spent, after it the ticket no longer opens.\<close>

theorem ticket_earns_once:
  assumes memory: "\<forall>(q, _, _) \<in> set ((s, f, rq) # between @ [(s', f', rq')]). we_roster q = memory_roster"
    and clock: "sorted (map (\<lambda>(q, _, _). we_now q) ((s, f, rq) # between @ [(s', f', rq')]))"
    and wf: "mem_wf (si_roster st)"
    and first: "ServeHTTP s f rq st = (Some resp, st1)" "re_cookies resp \<noteq> []"
    and ticket: "request_session s rq = Some (p, t)" "t_nonce t' = t_nonce t"
      "t_expiry t' \<le> unix (we_now s + ch_ttl (p_challenge p))"
    and second: "request_session s' rq' = Some (p', t')"
      "fst (ServeHTTP s' f' rq' (snd (serve_all between st1))) = Some resp'"
  shows "re_cookies resp' = []"
proof (rule ccontr)
  assume c: "re_cookies resp' \<noteq> []"
  let ?u = "we_now s + ch_ttl (p_challenge p)"
  let ?st2 = "snd (serve_all between st1)"
  have live: "we_now s' < ?u"
    using request_session_open [OF second(1)] ticket(3) later_instant by blast
  have mem: "we_roster s = memory_roster" "we_roster s' = memory_roster" using memory by auto
  have order: "we_now s \<le> we_now s'" using clock by (auto simp: sorted_append)
  have e1: "earns s rq p t (re_cookies resp) st st1" using earned_session [OF first] ticket(1) by auto
  have b: "\<forall>(q, f, r) \<in> set between. we_roster q = memory_roster \<and> we_now s \<le> we_now q \<and> we_now q < ?u"
    using memory clock live by (force simp: sorted_append)
  have "0 < ch_ttl (p_challenge p)" using live order by simp
  then have "mem_wf (si_roster st1) \<and> mem_nonce (si_roster st1) (t_nonce t) = Some ?u"
    using memory_nonces.earns_spends [OF mem(1) wf e1] by blast
  then have "mem_wf (si_roster ?st2) \<and> mem_nonce (si_roster ?st2) (t_nonce t) = Some ?u"
    using memory_nonces.run_kept [OF b] by blast
  moreover obtain st3 where e2: "earns s' rq' p' t' (re_cookies resp') ?st2 st3"
    using earned_session [of s' f' rq' ?st2 resp'] c second by (metis eq_fst_iff option.inject prod.inject)
  ultimately obtain m where "memory_nonces.kept (we_now s') (si_roster ?st2) m"
      "\<not> (\<exists>u. mem_nonce m (t_nonce t) = Some u \<and> we_now s' < u)" "mem_wf (si_roster ?st2)"
      "mem_nonce (si_roster ?st2) (t_nonce t) = Some ?u"
    using memory_nonces.earns_spends [OF mem(2) _ e2] ticket(2) by auto
  then show False using live by (auto simp: memory_nonces.kept_def)
qed

theorem ticket_earns_once_witness:
  "\<exists>resp st1. ServeHTTP (visit_web (from_unix 150)) visit_front visit_answer visit_site = (Some resp, st1) \<and>
     re_cookies resp \<noteq> [] \<and>
     (\<forall>resp'. fst (ServeHTTP (visit_web (from_unix 160)) visit_front visit_answer
         (snd (serve_all [(visit_web (from_unix 155), visit_front, visit_answer)] st1))) = Some resp' \<longrightarrow>
       re_cookies resp' = [])"
proof -
  obtain resp st1 where f: "ServeHTTP (visit_web (from_unix 150)) visit_front visit_answer visit_site = (Some resp, st1)"
      "re_cookies resp \<noteq> []" using visit_served by blast
  have wf: "mem_wf (si_roster visit_site)"
    using mem_step_wf [OF new_mem_wf, of 0 "OpPut imageKind ''n'' ''AB12'' (300 * Second)"] by (simp add: visit_site_def)
  have m: "\<forall>(q, _, _) \<in> set ((visit_web (from_unix 150), visit_front, visit_answer) #
        [(visit_web (from_unix 155), visit_front, visit_answer)] @ [(visit_web (from_unix 160), visit_front, visit_answer)]).
      we_roster q = memory_roster" by (simp add: visit_web_def)
  have c: "sorted (map (\<lambda>(q, _, _). we_now q) ((visit_web (from_unix 150), visit_front, visit_answer) #
        [(visit_web (from_unix 155), visit_front, visit_answer)] @ [(visit_web (from_unix 160), visit_front, visit_answer)]))"
    by (simp add: visit_web_def from_unix_def)
  have e: "t_expiry toy_ticket \<le> unix (we_now (visit_web (from_unix 150)) + ch_ttl (p_challenge cleared_profile))"
    by (simp add: toy_ticket_def visit_web_def from_unix_def unix_def cleared_profile_def sample_profile_def defaults_def Let_def)
  have q: "request_session (visit_web (from_unix 150)) visit_answer = Some (cleared_profile, toy_ticket)"
    "request_session (visit_web (from_unix 160)) visit_answer = Some (cleared_profile, toy_ticket)"
    by (simp_all add: visit_request_session)
  show ?thesis using f ticket_earns_once [OF m c wf f q(1) refl e q(2)] by blast
qed


end
