(* ===== verification/Journey.thy ===== *)
theory Journey
  imports Passes
begin

text \<open>
  The two processes on one visitor: the page server (\<open>cmd/http\<close>) that grants a clearance and the
  inspector (\<open>cmd/inspector\<close>, \<open>internal/decide\<close>) that reads it, with the same key and profile.
\<close>

section \<open>One binding, one clearance\<close>

lemma bind_agrees:
  "want_bind p (clientIP s rq) (header_get rq ''User-Agent'') = bindOf s rq p"
  by (simp add: want_bind_def bindOf_def Let_def)

lemma opens_as_sealed:
  assumes aead: "aead_correct (k_gcm k)" "length nonce = ad_nonce_size (k_gcm k)" "nonce \<noteq> []"
    and json: "\<And>body. enc_clearance (k_json k) c = Some body \<Longrightarrow> dec_clearance (k_json k) body = Some c"
    and sealed: "SealClearance k nonce c = Some raw"
    and whole: "c_jti c \<noteq> []" "c_cid c \<noteq> []" "c_expiry c \<noteq> 0" "unix now < c_expiry c"
    and bound: "b_net want = c_net c" "b_ua want = c_ua c"
  shows "OpenClearance k raw now want = (Some c, None) \<and> raw \<noteq> []"
proof -
  obtain body where body: "enc_clearance (k_json k) c = Some body"
    using sealed by (auto simp: SealClearance_def seal_token_def split: option.splits)
  then have st: "seal_token k nonce clearancePrefix (Some body) = Some raw"
    using sealed by (simp add: SealClearance_def)
  have "open_token k clearancePrefix raw (dec_clearance (k_json k)) = Inr c"
    using open_sealed [OF _ aead(2,1,3) st, of "dec_clearance (k_json k)"] json [OF body] by simp
  moreover have "raw \<noteq> []" using st by (auto simp: seal_token_def)
  ultimately show ?thesis using whole bound by (simp add: OpenClearance_def)
qed

lemma hex_nonempty [simp]: "hex_encode bs = [] \<longleftrightarrow> bs = []"
  by (cases bs) (simp_all add: hex_encode_def)

definition listed_or_young :: "profile \<Rightarrow> clearances_fn option \<Rightarrow> string \<Rightarrow> duration \<Rightarrow> bool" where
  "listed_or_young p cl jti age \<longleftrightarrow>
     \<not> ListEnabled (p_clearance p) \<or> age \<le> cc_grace (p_clearance p) \<or>
     (\<exists>f. cl = Some f \<and> f (cc_list (p_clearance p)) jti = (True, True))"

lemma alive_listed:
  "alive s p c \<longleftrightarrow> listed_or_young p (we_clearances s) (c_jti c) (we_now s - from_unix (c_issued c))"
  by (auto simp: alive_def listed_or_young_def split: option.split prod.split)

lemma good_listed:
  "clearance_good i p key rv cl c \<longleftrightarrow>
     OpenClearance key (i_clearance i) (i_now i) (want_bind p (i_client_ip i) (i_user_agent i)) = (Some c, None) \<and>
     (case rv of None \<Rightarrow> True | Some f \<Rightarrow> c_fp c = [] \<or> \<not> f (''fp:'' @ c_fp c)) \<and>
     listed_or_young p cl (c_jti c) (i_now i - from_unix (c_issued c))"
  by (auto simp: clearance_good_def listed_or_young_def not_le)

lemma option_same: "(\<And>c. a = Some c \<longleftrightarrow> b = Some c) \<Longrightarrow> a = b"
  by (cases a; cases b) auto

lemma open_clearance_value:
  assumes "OpenClearance key (i_clearance i) (i_now i) (want_bind p (i_client_ip i) (i_user_agent i)) = (c', e)"
  shows "fst (open_clearance i p key rv cl) =
    (if i_clearance i = [] \<or> e \<noteq> None then None
     else case c' of None \<Rightarrow> None
       | Some c \<Rightarrow> if (case rv of None \<Rightarrow> True | Some f \<Rightarrow> c_fp c = [] \<or> \<not> f (''fp:'' @ c_fp c)) \<and>
            listed_or_young p cl (c_jti c) (i_now i - from_unix (c_issued c)) then Some c else None)"
    (is "?l = ?r")
proof -
  have "?l = Some c \<longleftrightarrow> ?r = Some c" for c
    unfolding open_clearance_good good_listed assms by (auto split: option.splits)
  then show ?thesis by (rule option_same)
qed

lemma check_allows_cleared:
  assumes "i_profile i = Some p" "i_opened i = None" "i_clearance i \<noteq> []" "clearance_good i p key rv cl c"
    "\<not> bucketFull i p KindSess"
  shows "r_verdict (Check i key rv cl rnd) = VerdictAllow"
proof -
  have c: "fst (open_clearance i p key rv cl) = Some c" using assms(3,4) open_clearance_good by blast
  then have ok: "fst (snd (open_clearance i p key rv cl)) = CodeOK"
    using open_clearance_code [OF refl, of i p key rv cl] by simp
  have o: "opened_of i key rv cl = Open_input i key rv cl" using assms(2) by (simp add: opened_of_def)
  show ?thesis
    unfolding decision_table [OF assms(1)] o
    using c ok assms(5) open_input_clearance [OF assms(1), of key rv cl]
    by (simp add: verdict_spec_def passes_clearance_def)
qed

section \<open>Ways back\<close>

text \<open>Every ticket that opens carries a return path the inspector computed.\<close>

definition tickets_return_local :: "('s, 'info) web \<Rightarrow> bool" where
  "tickets_return_local s \<longleftrightarrow>
     (\<forall>raw t. OpenTicket (we_key s) raw (we_now s) = (Some t, None) \<longrightarrow>
        (\<exists>uri args. t_return t = returnPath uri args))"

lemma local_path_return: "localPath raw = returnPath raw []"
  by (simp add: localPath_def returnPath_def)

lemma root_ok [simp]: "local_path_ok ''/''"
  by (simp add: local_path_ok_def graphic_def byte_of_def has_prefix_def)

lemma back_ok:
  assumes "t = None \<or> (\<exists>tk uri args. t = Some tk \<and> t_return tk = returnPath uri args)"
  shows "local_path_ok (backTo rq t)"
proof -
  have ok: "returnPath uri args \<noteq> [] \<Longrightarrow> local_path_ok (returnPath uri args)" for uri args
    using return_path_ok by blast
  then show ?thesis using assms by (auto simp: backTo_def local_path_return Let_def)
qed

lemma session_return:
  assumes "tickets_return_local s" "session s rq p0 = (p, Some t, None)"
  shows "local_path_ok (backTo rq (Some t))"
proof -
  have "OpenTicket (we_key s) (cookieValue rq (ch_cookie (p_challenge p0))) (we_now s) = (Some t, None)"
    using assms(2) by (auto simp: session_def Let_def split: if_splits prod.splits option.splits)
  then show ?thesis using assms(1) back_ok unfolding tickets_return_local_def by blast
qed

definition leads_back :: "body \<Rightarrow> bool" where
  "leads_back b = (case b of Page _ v \<Rightarrow> local_path_ok (vi_return_to v) | RedirectTo x \<Rightarrow> local_path_ok x | _ \<Rightarrow> True)"

lemma leads_back_simps [simp]:
  "leads_back (re_body (render p v code)) = local_path_ok (vi_return_to v)"
  "leads_back (PlainError e)" "leads_back (JsonError e)" "leads_back (Wav w)" "leads_back Empty"
  "leads_back (Script js)" "leads_back (JsonStatus x)" "leads_back (JsonChallenge n a u ws)"
  "re_body (respond c b) = b" "re_body http_fail = PlainError ''internal error''"
  "re_body not_allowed = PlainError ''method not allowed''"
  by (simp_all add: leads_back_def render_def respond_def http_fail_def not_allowed_def)

lemma leads_back_redirect: "leads_back (RedirectTo x) = local_path_ok x"
  by (simp add: leads_back_def)

lemma page_leads_back:
  assumes "tickets_return_local s"
  shows "pred_option (\<lambda>resp. leads_back (re_body resp)) (fst (pageSkipping s rq p0 msg skip st))"
proof (cases rule: session_cases [of s rq p0])
  case (opened p t)
  then show ?thesis
    using session_return [OF assms opened]
    by (simp add: pageSkipping_def split: bool.split prod.split option.split)
qed (simp_all add: pageSkipping_def back_ok)

lemma submit_leads_back:
  assumes "tickets_return_local s"
  shows "pred_option (\<lambda>resp. leads_back (re_body resp)) (fst (submit s f rq p0 st))"
proof (cases rule: session_cases [of s rq p0])
  case (opened p t)
  then show ?thesis
    using session_return [OF assms opened] page_leads_back [OF assms]
    by (simp add: submit_def page_def case_prod_beta redirectBack_def leads_back_redirect split: option.split)
qed (use page_leads_back [OF assms] in \<open>simp_all add: submit_def page_def\<close>)

lemma json_leads_back:
  "leads_back (re_body (fst (api s rq p0 st)))" "leads_back (re_body (fst (verify s f rq p0 st)))"
  "leads_back (re_body (fst (audio s rq p0 st)))"
  by (simp_all add: api_def verify_def audio_def
      split: prod.split option.split session_error.split bool.split sum.split provider.split)

section \<open>Properties\<close>

text \<open>C15: The status page and the inspector read a clearance alike. For the same cookie, instant, address and user
  agent, the status page reports exactly the clearance the inspector would accept with no list of
  revoked fingerprints; with such a list the inspector accepts the clearances the page reports minus
  those of revoked fingerprints, which the page goes on reporting.\<close>

theorem status_agrees:
  assumes "i_clearance i = cookieValue rq (cc_cookie (p_clearance p))" "i_now i = we_now s"
    "i_client_ip i = clientIP s rq" "i_user_agent i = header_get rq ''User-Agent''"
  shows "http_status s rq p =
       map_option (\<lambda>c. (c_provider c, c_expiry c)) (fst (open_clearance i p (we_key s) None (we_clearances s))) \<and>
     fst (open_clearance i p (we_key s) (Some rv) (we_clearances s)) =
       (case fst (open_clearance i p (we_key s) None (we_clearances s)) of
          None \<Rightarrow> None
        | Some c \<Rightarrow> if c_fp c \<noteq> [] \<and> rv (''fp:'' @ c_fp c) then None else Some c)"
proof -
  obtain c' e where o: "OpenClearance (we_key s) (i_clearance i) (i_now i)
      (want_bind p (i_client_ip i) (i_user_agent i)) = (c', e)" by fastforce
  have o': "OpenClearance (we_key s) (cookieValue rq (cc_cookie (p_clearance p))) (we_now s) (bindOf s rq p) = (c', e)"
    using o assms bind_agrees [of p s rq] by simp
  show ?thesis
    unfolding open_clearance_value [OF o] using o' assms(1,2)
    by (auto simp: http_status_def alive_listed Let_def split: option.split)
qed

definition status_input :: input where
  "status_input = sample_input\<lparr>i_profile := Some cleared_profile, i_clearance := toy_raw, i_now := from_unix 150,
     i_client_ip := ''10.0.0.1''\<rparr>"

definition status_web :: "(memory, unit) web" where
  "status_web = (visit_web (from_unix 150))\<lparr>we_key := toy_key\<rparr>"

definition status_request :: http_request where
  "status_request = visit_answer\<lparr>rq_method := ''GET'', rq_path := ''/waf/captcha/status'',
     rq_cookies := [(''waf_clr'', toy_raw)]\<rparr>"

lemma status_request_fits:
  "i_clearance status_input = cookieValue status_request (cc_cookie (p_clearance cleared_profile))"
  "i_now status_input = we_now status_web"
  "i_client_ip status_input = clientIP status_web status_request"
  "i_user_agent status_input = header_get status_request ''User-Agent''"
proof -
  have "cc_cookie (p_clearance cleared_profile) = ''waf_clr''"
    by (simp add: cleared_profile_def sample_profile_def defaults_def Let_def)
  then show "i_clearance status_input = cookieValue status_request (cc_cookie (p_clearance cleared_profile))"
    by (simp add: status_input_def status_request_def cookieValue_def)
  show "i_now status_input = we_now status_web" by (simp add: status_input_def status_web_def visit_web_def)
  have "forwardedAddr [] ''10.0.0.1:5'' = ''10.0.0.1''" by code_simp
  then show "i_client_ip status_input = clientIP status_web status_request"
    by (simp add: status_input_def status_request_def clientIP_def header_values_def visit_answer_def status_web_def)
  show "i_user_agent status_input = header_get status_request ''User-Agent''"
    by (simp add: status_input_def status_request_def sample_input_def header_get_def header_values_def visit_answer_def)
qed

theorem status_agrees_witness:
  "http_status status_web status_request cleared_profile = Some (''image'', 200) \<and>
   fst (open_clearance status_input cleared_profile toy_key None None) = Some toy_clearance"
proof -
  have k: "we_key status_web = toy_key" "we_clearances status_web = None"
    by (simp_all add: status_web_def visit_web_def)
  have "clearance_good status_input cleared_profile toy_key None None toy_clearance"
    by (simp add: clearance_good_def status_input_def cleared_want toy_opens cleared_profile_facts)
  then have o: "fst (open_clearance status_input cleared_profile toy_key None None) = Some toy_clearance"
    using open_clearance_good toy_raw_nonempty by (simp add: status_input_def)
  show ?thesis
    using status_agrees [OF status_request_fits] o k by (simp add: toy_clearance_def)
qed

definition clearance_cookie :: "response \<Rightarrow> string" where
  "clearance_cookie resp = (case re_cookies resp of [] \<Rightarrow> [] | c # _ \<Rightarrow> sc_value c)"

lemma granted_opens:
  assumes aead: "aead_correct (k_gcm (we_key s))" "length (we_nonce s) = ad_nonce_size (k_gcm (we_key s))"
      "we_nonce s \<noteq> []"
    and json: "\<And>c body. enc_clearance (k_json (we_key s)) c = Some body \<Longrightarrow>
      dec_clearance (k_json (we_key s)) body = Some c"
    and random: "we_jti s \<noteq> []" "we_cid s \<noteq> []"
    and sealed: "SealClearance (we_key s) (we_nonce s) (new_clearance s rq p res) = Some raw"
    and time: "0 \<le> now" "unix now < unix (we_now s + cc_ttl (p_clearance p))"
    and bound: "want = bindOf s rq p"
  shows "OpenClearance (we_key s) raw now want = (Some (new_clearance s rq p res), None) \<and> raw \<noteq> []"
proof (rule opens_as_sealed [OF aead json sealed])
  have "0 \<le> unix now" using unix_mono [OF time(1)] by (simp add: unix_def)
  then show "c_expiry (new_clearance s rq p res) \<noteq> 0" using time(2) by (simp add: new_clearance_def)
qed (use random time(2) bound in \<open>simp_all add: new_clearance_def NewID_def\<close>)



text \<open>C17: Nobody is sent away from the site. Whatever the request, a redirect of the page server and the return path of
  every page it shows are paths of this site: they start with a single slash, have at most 1024 bytes,
  all of them graphic ASCII, and no backslash, provided the tickets are the inspector's.\<close>

theorem back_is_local:
  assumes "tickets_return_local s" "ServeHTTP s f rq st = (Some resp, st')"
  shows "case re_body resp of Page _ v \<Rightarrow> local_path_ok (vi_return_to v) | RedirectTo x \<Rightarrow> local_path_ok x | _ \<Rightarrow> True"
proof -
  have "pred_option (\<lambda>resp. leads_back (re_body resp)) (fst (ServeHTTP s f rq st))"
    by (simp add: ServeHTTP_def page_def map_prod_def case_prod_beta page_leads_back [OF assms(1)]
        submit_leads_back [OF assms(1)] json_leads_back split: option.split)
  then show ?thesis using assms(2) by (simp add: leads_back_def)
qed

lemma visit_tickets: "tickets_return_local (visit_web now)"
proof -
  have "t = toy_ticket" if "OpenTicket visit_key raw now = (Some t, None)" for raw t
    using that
    by (auto simp: OpenTicket_def open_token_def visit_key_def toy_key_def Let_def
        split: sum.splits if_splits option.splits prod.splits)
  moreover have "t_return toy_ticket = returnPath ''/'' []"
    by (simp add: toy_ticket_def returnPath_def has_prefix_def byte_of_def)
  ultimately show ?thesis by (auto simp: tickets_return_local_def visit_web_def)
qed

theorem back_is_local_witness:
  "\<exists>resp st. ServeHTTP (visit_web (from_unix 150)) visit_front visit_answer visit_site = (Some resp, st) \<and>
     (case re_body resp of Page _ v \<Rightarrow> local_path_ok (vi_return_to v) | RedirectTo x \<Rightarrow> local_path_ok x | _ \<Rightarrow> True)"
  using visit_served back_is_local [OF visit_tickets] by blast

end
