(* ===== verification/Secrets.thy ===== *)
theory Secrets
  imports Token
begin

text \<open>
  Package \<open>internal/secrets\<close>: the provider secrets kept by the controller. A secret comes as an envelope, a
  data key wrapped for the contour key followed by an AES-GCM ciphertext; an opened secret is kept for a
  quarter of an hour.

  RSA-OAEP, AES, GCM, PEM and X.509 are the record \<open>crypto\<close>, the controller with the JSON decoder is the record
  \<open>controller\<close>, one per call. A reply is the status with the body, or \<^const>\<open>None\<close> for a failed transport;
  a body is \<^const>\<open>None\<close> when it cannot be read. The two sections of \<open>Get\<close> under the mutex, the look-up and
  the store, read the clock at \<open>now\<close> and \<open>later\<close>.
\<close>

section \<open>Envelopes\<close>

record ('k, 'c) crypto =
  cy_unwrap :: "'k \<Rightarrow> string \<Rightarrow> string option"
  cy_aes :: "string \<Rightarrow> 'c option"
  cy_gcm :: "'c \<Rightarrow> aead option"
  cy_pem :: "string \<Rightarrow> string option"
  cy_pkcs1 :: "string \<Rightarrow> 'k option"
  cy_pkcs8 :: "string \<Rightarrow> 'k option option"

abbreviation envelopeVersion :: int where "envelopeVersion \<equiv> 1"
abbreviation nonceSize :: nat where "nonceSize \<equiv> 12"
abbreviation headerLen :: nat where "headerLen \<equiv> 3"
abbreviation cacheTTL :: duration where "cacheTTL \<equiv> 15 * Minute"

datatype envelope_error =
    TooShort
  | UnsupportedVersion int
  | Truncated
  | UnwrapDek
  | BadDek
  | BadGcm
  | OpenFailed

definition be16 :: "char \<Rightarrow> char \<Rightarrow> nat" where
  "be16 hi lo = nat (byte_of hi * 256 + byte_of lo)"

definition Open :: "('k, 'c) crypto \<Rightarrow> string \<Rightarrow> 'k \<Rightarrow> envelope_error + string" where
  "Open cy blob key =
     (if length blob < headerLen then Inl TooShort
      else if byte_of (blob ! 0) \<noteq> envelopeVersion then Inl (UnsupportedVersion (byte_of (blob ! 0)))
      else let wrappedLen = be16 (blob ! 1) (blob ! 2)
           in if wrappedLen \<le> 0 \<or> length blob < headerLen + wrappedLen + nonceSize then Inl Truncated
              else let wrapped = take wrappedLen (drop headerLen blob);
                       nonce = take nonceSize (drop (headerLen + wrappedLen) blob);
                       ciphertext = drop (headerLen + wrappedLen + nonceSize) blob
                   in case cy_unwrap cy key wrapped of
                        None \<Rightarrow> Inl UnwrapDek
                      | Some dek \<Rightarrow>
                          (case cy_aes cy dek of
                             None \<Rightarrow> Inl BadDek
                           | Some block \<Rightarrow>
                               (case cy_gcm cy block of
                                  None \<Rightarrow> Inl BadGcm
                                | Some gcm \<Rightarrow>
                                    (case ad_open gcm nonce ciphertext [] of
                                       None \<Rightarrow> Inl OpenFailed
                                     | Some plain \<Rightarrow> Inr plain))))"

datatype load_error = NotPem | BadKey | NotRsa

definition LoadKey :: "('k, 'c) crypto \<Rightarrow> string \<Rightarrow> load_error + 'k" where
  "LoadKey cy raw =
     (case cy_pem cy raw of
        None \<Rightarrow> Inl NotPem
      | Some der \<Rightarrow>
          (case cy_pkcs1 cy der of
             Some key \<Rightarrow> Inr key
           | None \<Rightarrow>
               (case cy_pkcs8 cy der of
                  None \<Rightarrow> Inl BadKey
                | Some None \<Rightarrow> Inl NotRsa
                | Some (Some key) \<Rightarrow> Inr key)))"

section \<open>The store\<close>

record secret_entry =
  en_value :: string
  en_at :: go_time

record 'k secret_store =
  ss_base :: string
  ss_scope :: string
  ss_space :: string
  ss_key :: 'k
  ss_cache :: "(string, secret_entry) gomap"

datatype new_error = KeyFileUnreadable | KeyRefused load_error

text \<open>\<open>New\<close> gives no store without a controller or a key file. \<open>read\<close> is \<open>os.ReadFile\<close>.\<close>

definition NewSecrets ::
    "('k, 'c) crypto \<Rightarrow> (string \<Rightarrow> string option) \<Rightarrow> string \<Rightarrow> string \<Rightarrow> string \<Rightarrow>
     new_error + 'k secret_store option" where
  "NewSecrets cy read base scope keyFile =
     (let (space, scope) = (if has_prefix scope ''name:'' then (trim_prefix scope ''name:'', [])
                            else (''default'', scope))
      in if base = [] \<or> keyFile = [] then Inr None
         else case read keyFile of
           None \<Rightarrow> Inl KeyFileUnreadable
         | Some raw \<Rightarrow>
             (case LoadKey cy raw of
                Inl e \<Rightarrow> Inl (KeyRefused e)
              | Inr key \<Rightarrow>
                  Inr (Some \<lparr>ss_base = trim_right base ''/'', ss_scope = scope, ss_space = space,
                             ss_key = key, ss_cache = []\<rparr>)))"

record controller =
  co_request_ok :: "string \<Rightarrow> bool"
  co_do :: "string \<Rightarrow> (int \<times> string option) option"
  co_spaces :: "string option \<Rightarrow> (string \<times> string) list option"

datatype secret_error =
    NotConfigured
  | EmptyReference
  | BadRequest
  | Unreachable
  | Answered int
  | Unreadable
  | BadEnvelope envelope_error
  | SpacesMalformed
  | NoSpace string

definition cached :: "go_time \<Rightarrow> string \<Rightarrow> 'k secret_store \<Rightarrow> string option" where
  "cached now sid s =
     (case map_of (ss_cache s) sid of
        None \<Rightarrow> None
      | Some e \<Rightarrow> if now - en_at e > cacheTTL then None else Some (en_value e))"

definition remember :: "go_time \<Rightarrow> string \<Rightarrow> string \<Rightarrow> 'k secret_store \<Rightarrow> 'k secret_store" where
  "remember now sid v s =
     s\<lparr>ss_cache := AList.update sid \<lparr>en_value = v, en_at = now\<rparr> (ss_cache s)\<rparr>"

definition resolveScope :: "controller \<Rightarrow> 'k secret_store \<Rightarrow> (secret_error + string) \<times> 'k secret_store" where
  "resolveScope w s =
     (if ss_scope s \<noteq> [] then (Inr (ss_scope s), s)
      else let url = ss_base s @ ''/api/spaces''
           in if \<not> co_request_ok w url then (Inl BadRequest, s)
              else case co_do w url of
                None \<Rightarrow> (Inl Unreachable, s)
              | Some (status, body) \<Rightarrow>
                  if status \<noteq> 200 then (Inl (Answered status), s)
                  else case co_spaces w (map_option (take 1048576) body) of
                    None \<Rightarrow> (Inl SpacesMalformed, s)
                  | Some spaces \<Rightarrow>
                      (case find (\<lambda>(uuid, name). name = ss_space s) spaces of
                         None \<Rightarrow> (Inl (NoSpace (ss_space s)), s)
                       | Some (uuid, _) \<Rightarrow> (Inr uuid, s\<lparr>ss_scope := uuid\<rparr>)))"

definition blob_url :: "'k secret_store \<Rightarrow> string \<Rightarrow> string \<Rightarrow> string" where
  "blob_url s scope sid = ss_base s @ ''/api/'' @ scope @ ''/store/'' @ sid @ ''/blob''"

definition fetch_blob :: "controller \<Rightarrow> string \<Rightarrow> secret_error + string" where
  "fetch_blob w url =
     (if \<not> co_request_ok w url then Inl BadRequest
      else case co_do w url of
        None \<Rightarrow> Inl Unreachable
      | Some (status, body) \<Rightarrow>
          if status \<noteq> 200 then Inl (Answered status)
          else case body of None \<Rightarrow> Inl Unreadable | Some b \<Rightarrow> Inr (take 1048576 b))"

definition secret_get ::
    "('k, 'c) crypto \<Rightarrow> controller \<Rightarrow> go_time \<Rightarrow> go_time \<Rightarrow> string \<Rightarrow> 'k secret_store \<Rightarrow>
     (secret_error + string) \<times> 'k secret_store" where
  "secret_get cy w now later sid s =
     (if sid = [] then (Inl EmptyReference, s)
      else case cached now sid s of
        Some v \<Rightarrow> (Inr v, s)
      | None \<Rightarrow>
          (case resolveScope w s of
             (Inl e, s) \<Rightarrow> (Inl e, s)
           | (Inr scope, s) \<Rightarrow>
               (case fetch_blob w (blob_url s scope sid) of
                  Inl e \<Rightarrow> (Inl e, s)
                | Inr blob \<Rightarrow>
                    (case Open cy blob (ss_key s) of
                       Inl e \<Rightarrow> (Inl (BadEnvelope e), s)
                     | Inr plain \<Rightarrow>
                         let v = trim_right plain [CHR 0x0D, CHR 0x0A]
                         in (Inr v, remember later sid v s)))))"

text \<open>The method on the pointer: without a store every call is an error.\<close>

definition Secrets_Get ::
    "('k, 'c) crypto \<Rightarrow> controller \<Rightarrow> go_time \<Rightarrow> go_time \<Rightarrow> string \<Rightarrow> 'k secret_store option \<Rightarrow>
     (secret_error + string) \<times> 'k secret_store option" where
  "Secrets_Get cy w now later sid s =
     (case s of
        None \<Rightarrow> (Inl NotConfigured, None)
      | Some st \<Rightarrow> map_prod id Some (secret_get cy w now later sid st))"

section \<open>What an envelope is\<close>

definition envelope :: "string \<Rightarrow> string \<Rightarrow> string \<Rightarrow> string" where
  "envelope wrapped nonce ciphertext =
     char_of (1 :: int) # char_of (int (length wrapped) div 256) # char_of (int (length wrapped) mod 256) #
       wrapped @ nonce @ ciphertext"

lemma be16_range: "be16 hi lo < 65536"
proof -
  have "byte_of hi * 256 + byte_of lo < 65536" using byte_of_range [of hi] byte_of_range [of lo] by linarith
  then show ?thesis by (simp add: be16_def)
qed

lemma be16_parts:
  assumes "n < 65536"
  shows "be16 (char_of (int n div 256)) (char_of (int n mod 256)) = n"
proof -
  have "byte_of (char_of (int n div 256)) = int n div 256" "byte_of (char_of (int n mod 256)) = int n mod 256"
    using assms by (intro byte_of_char_of; simp)+
  then show ?thesis by (simp add: be16_def)
qed

lemma be16_chars:
  "char_of (int (be16 hi lo) div 256) = hi" "char_of (int (be16 hi lo) mod 256) = lo"
proof -
  have r: "0 \<le> byte_of hi" "byte_of hi < 256" "0 \<le> byte_of lo" "byte_of lo < 256"
    using byte_of_range [of hi] byte_of_range [of lo] by auto
  then have "int (be16 hi lo) div 256 = byte_of hi" "int (be16 hi lo) mod 256 = byte_of lo"
    by (simp_all add: be16_def)
  then show "char_of (int (be16 hi lo) div 256) = hi" "char_of (int (be16 hi lo) mod 256) = lo"
    by (simp_all add: char_of_byte_of)
qed

text \<open>The shape \<open>Open\<close> looks for, and what is in it.\<close>

definition opens_to :: "('k, 'c) crypto \<Rightarrow> 'k \<Rightarrow> string \<Rightarrow> string \<Rightarrow> string \<Rightarrow> string \<Rightarrow> bool" where
  "opens_to cy key wrapped nonce ciphertext plain \<longleftrightarrow>
     (\<exists>dek block gcm. cy_unwrap cy key wrapped = Some dek \<and> cy_aes cy dek = Some block \<and>
        cy_gcm cy block = Some gcm \<and> ad_open gcm nonce ciphertext [] = Some plain)"

lemma open_envelope:
  assumes "wrapped \<noteq> []" "length wrapped < 65536" "length nonce = nonceSize"
  shows "Open cy (envelope wrapped nonce ciphertext) key = Inr plain \<longleftrightarrow>
    opens_to cy key wrapped nonce ciphertext plain"
proof -
  have n: "be16 (envelope wrapped nonce ciphertext ! 1) (envelope wrapped nonce ciphertext ! 2) = length wrapped"
    using be16_parts [OF assms(2)] by (simp add: envelope_def)
  have v: "byte_of (envelope wrapped nonce ciphertext ! 0) = 1" by (simp add: envelope_def byte_of_char_of)
  have l: "headerLen + length wrapped + nonceSize \<le> length (envelope wrapped nonce ciphertext)"
    using assms(3) by (simp add: envelope_def)
  have p: "take (length wrapped) (drop headerLen (envelope wrapped nonce ciphertext)) = wrapped"
    "take nonceSize (drop (headerLen + length wrapped) (envelope wrapped nonce ciphertext)) = nonce"
    "drop (headerLen + length wrapped + nonceSize) (envelope wrapped nonce ciphertext) = ciphertext"
    using assms(3) by (simp_all add: envelope_def eval_nat_numeral)
  have w: "\<not> (length wrapped \<le> 0 \<or> length (envelope wrapped nonce ciphertext) < headerLen + length wrapped + nonceSize)"
    using assms(1) l by auto
  have h: "\<not> length (envelope wrapped nonce ciphertext) < headerLen" using l by simp
  show ?thesis
    unfolding Open_def Let_def n p v using w h
    by (auto simp: opens_to_def split: option.splits)
qed

lemma open_shape:
  assumes "Open cy blob key = Inr plain"
  shows "\<exists>wrapped nonce ciphertext. wrapped \<noteq> [] \<and> length wrapped < 65536 \<and> length nonce = nonceSize \<and>
    blob = envelope wrapped nonce ciphertext"
proof -
  let ?n = "be16 (blob ! 1) (blob ! 2)"
  have l: "3 \<le> length blob" "byte_of (blob ! 0) = 1" "?n \<noteq> 0" "headerLen + ?n + nonceSize \<le> length blob"
    using assms by (auto simp: Open_def Let_def split: if_splits)
  then obtain v hi lo rest where b: "blob = v # hi # lo # rest"
    by (cases blob; cases "tl blob"; cases "tl (tl blob)") auto
  have v: "v = char_of (1 :: int)" using l(2) b char_of_byte_of [of v] by simp
  have n: "?n = be16 hi lo" using b by simp
  have k: "length (take ?n rest) = ?n" using l(4) b by simp
  have parts: "take ?n rest @ take nonceSize (drop ?n rest) @ drop (nonceSize + ?n) rest = rest"
    by (metis append_take_drop_id drop_drop)
  have "blob = envelope (take ?n rest) (take nonceSize (drop ?n rest)) (drop (nonceSize + ?n) rest)"
    unfolding envelope_def k parts unfolding n be16_chars using b v by simp
  moreover have "take ?n rest \<noteq> []" "length (take ?n rest) < 65536" "length (take nonceSize (drop ?n rest)) = nonceSize"
    using l(3,4) b be16_range [of hi lo] by auto
  ultimately show ?thesis by blast
qed

section \<open>What the cache keeps\<close>

fun get_all ::
    "('k, 'c) crypto \<Rightarrow> (controller \<times> go_time \<times> go_time \<times> string) list \<Rightarrow> 'k secret_store \<Rightarrow> 'k secret_store" where
  "get_all cy [] s = s"
| "get_all cy ((w, now, later, sid) # calls) s = get_all cy calls (snd (secret_get cy w now later sid s))"

lemma resolve_cache: "resolveScope w s = (r, s') \<Longrightarrow> ss_cache s' = ss_cache s \<and> ss_key s' = ss_key s"
  by (auto simp: resolveScope_def Let_def split: if_splits option.splits prod.splits)

lemma fresh_hit:
  assumes "map_of (ss_cache s) sid = Some e" "now \<le> en_at e + cacheTTL" "sid \<noteq> []"
  shows "secret_get cy w now later sid s = (Inr (en_value e), s)"
  using assms by (simp add: secret_get_def cached_def)

lemma get_keeps:
  assumes "map_of (ss_cache s) sid = Some e" "now \<le> en_at e + cacheTTL" "sid \<noteq> []"
  shows "map_of (ss_cache (snd (secret_get cy w now later sid' s))) sid = Some e"
proof (cases "sid' = sid")
  case True
  then show ?thesis using assms by (simp add: fresh_hit)
next
  case False
  obtain r s1 where r: "resolveScope w s = (r, s1)" by fastforce
  with False assms(1) resolve_cache [OF r] show ?thesis
    by (simp add: secret_get_def remember_def update_conv' Let_def split: option.split sum.split)
qed

lemma get_all_keeps:
  "map_of (ss_cache s) sid = Some e \<Longrightarrow> \<forall>(w, now, later, i) \<in> set calls. now \<le> en_at e + cacheTTL \<Longrightarrow> sid \<noteq> [] \<Longrightarrow>
     map_of (ss_cache (get_all cy calls s)) sid = Some e"
  by (induction cy calls s rule: get_all.induct) (auto simp: get_keeps)

lemma fetched_entry:
  assumes "secret_get cy w now later sid s = (Inr v, s')" "cached now sid s = None"
  shows "map_of (ss_cache s') sid = Some \<lparr>en_value = v, en_at = later\<rparr> \<and> sid \<noteq> []"
  using assms
  by (auto simp: secret_get_def remember_def update_conv' Let_def split: if_splits option.splits sum.splits prod.splits)

section \<open>Properties\<close>

text \<open>C24: An envelope and nothing else. \<open>Open\<close> gives a plaintext exactly for the byte strings made of the version
  byte 1, a big-endian length, that many bytes (at least one) of a data key wrapped for the contour key, a
  nonce of twelve bytes and a ciphertext that opens under the data key; every other string is an error.\<close>

theorem envelope_exact:
  "Open cy blob key = Inr plain \<longleftrightarrow>
     (\<exists>wrapped nonce ciphertext. blob = envelope wrapped nonce ciphertext \<and> wrapped \<noteq> [] \<and>
        length wrapped < 65536 \<and> length nonce = nonceSize \<and> opens_to cy key wrapped nonce ciphertext plain)"
  using open_shape [of cy blob key plain] open_envelope by metis

text \<open>A secret outlives the controller. Once a secret was fetched, every call for it within the next quarter of an
  hour returns the same value without a request, whatever else was asked in between and whatever the
  controller answers meanwhile.\<close>

theorem secret_stays:
  assumes "secret_get cy w now later sid s = (Inr v, s')" "cached now sid s = None"
    and "\<forall>(w, a, b, i) \<in> set calls. a \<le> later + cacheTTL" "now' \<le> later + cacheTTL"
  shows "secret_get cy w' now' later' sid (get_all cy calls s') = (Inr v, get_all cy calls s')"
proof -
  have e: "map_of (ss_cache s') sid = Some \<lparr>en_value = v, en_at = later\<rparr>" "sid \<noteq> []"
    using fetched_entry [OF assms(1,2)] by auto
  then have "map_of (ss_cache (get_all cy calls s')) sid = Some \<lparr>en_value = v, en_at = later\<rparr>"
    using assms(3) by (intro get_all_keeps) auto
  from fresh_hit [OF this, of now' cy w' later'] show ?thesis using assms(4) e(2) by simp
qed

definition toy_crypto :: "(unit, string) crypto" where
  "toy_crypto = \<lparr>cy_unwrap = (\<lambda>_ w. Some w), cy_aes = Some, cy_gcm = (\<lambda>_. Some toy_aead),
     cy_pem = Some, cy_pkcs1 = (\<lambda>_. Some ()), cy_pkcs8 = (\<lambda>_. None)\<rparr>"

definition toy_controller :: controller where
  "toy_controller = \<lparr>co_request_ok = (\<lambda>_. True),
     co_do = (\<lambda>url. if url = ''http://c/api/u/store/x/blob''
        then Some (200, Some (envelope ''d'' ''123456789012'' ''pw'')) else None),
     co_spaces = (\<lambda>_. None)\<rparr>"

definition dead_controller :: controller where
  "dead_controller = \<lparr>co_request_ok = (\<lambda>_. True), co_do = (\<lambda>_. None), co_spaces = (\<lambda>_. None)\<rparr>"

definition toy_secrets :: "unit secret_store" where
  "toy_secrets = \<lparr>ss_base = ''http://c'', ss_scope = ''u'', ss_space = ''default'', ss_key = (), ss_cache = []\<rparr>"

lemma toy_fetch:
  "\<exists>s'. secret_get toy_crypto toy_controller 0 1 ''x'' toy_secrets = (Inr ''pw'', s')"
proof -
  have "opens_to toy_crypto () ''d'' ''123456789012'' ''pw'' ''pw''"
    by (simp add: opens_to_def toy_crypto_def toy_aead_def)
  then have o: "Open toy_crypto (envelope ''d'' ''123456789012'' ''pw'') () = Inr ''pw''"
    by (subst open_envelope) simp_all
  have t: "trim_right ''pw'' [CHR 0x0D, CHR 0x0A] = ''pw''" by (simp add: trim_right_def)
  have s: "take 1048576 (envelope ''d'' ''123456789012'' ''pw'') = envelope ''d'' ''123456789012'' ''pw''"
    by (simp add: envelope_def)
  show ?thesis
    by (simp add: secret_get_def cached_def toy_secrets_def resolveScope_def fetch_blob_def toy_controller_def
        blob_url_def s o t Let_def)
qed

theorem secret_stays_witness:
  "\<exists>s'. secret_get toy_crypto toy_controller 0 1 ''x'' toy_secrets = (Inr ''pw'', s') \<and>
     fst (secret_get toy_crypto dead_controller Minute Minute ''x''
       (get_all toy_crypto [(dead_controller, Second, Second, ''y'')] s')) = Inr ''pw''"
proof -
  obtain s' where f: "secret_get toy_crypto toy_controller 0 1 ''x'' toy_secrets = (Inr ''pw'', s')"
    using toy_fetch by blast
  have c: "cached 0 ''x'' toy_secrets = None" by (simp add: cached_def toy_secrets_def)
  have k: "\<forall>(w, a, b, i) \<in> set [(dead_controller, Second, Second, ''y'')]. a \<le> 1 + cacheTTL" by simp
  show ?thesis
    using f secret_stays [OF f c k, of Minute dead_controller Minute] by simp
qed

end
