(* ===== verification/Sound.thy ===== *)
theory Sound
  imports Base64
begin

text \<open>
  Package \<open>internal/image\<close>, the text of a picture and its sound (\<open>audio.go\<close>, \<open>Text\<close> of \<open>image.go\<close>): reading WAV
  samples, joining one per character with gaps and noise, and writing the result. Drawing the picture is
  in theory \<open>Picture\<close>.

  A sample is a \<^typ>\<open>16 word\<close> read with \<^const>\<open>sint\<close>. \<open>sample dir name\<close> is \<open>os.ReadFile\<close> of that file of the
  directory; the values of \<open>randInt\<close> are the functions \<open>gap\<close> and \<open>noise\<close> of the place they are drawn at.
  Texts are ASCII, so a rune is a byte.
\<close>

section \<open>Little-endian numbers\<close>

definition le16 :: "string \<Rightarrow> int" where
  "le16 s = byte_of (s ! 0) + 256 * byte_of (s ! 1)"

definition le32 :: "string \<Rightarrow> int" where
  "le32 s = byte_of (s ! 0) + 256 * byte_of (s ! 1) + 65536 * byte_of (s ! 2) + 16777216 * byte_of (s ! 3)"

definition put16 :: "int \<Rightarrow> string" where
  "put16 n = [char_of (n mod 256), char_of (n div 256 mod 256)]"

definition put32 :: "int \<Rightarrow> string" where
  "put32 n = [char_of (n mod 256), char_of (n div 256 mod 256), char_of (n div 65536 mod 256),
     char_of (n div 16777216 mod 256)]"

section \<open>Reading\<close>

record wav =
  wv_rate :: int
  wv_pcm :: "16 word list"

datatype wav_error = NoFile | NotWav | ShortFmt | NoChunk | WantMono

record wav_head =
  wh_rate :: int
  wh_channels :: int
  wh_bits :: int
  wh_data :: "string option"

text \<open>The chunks of the file after its first twelve bytes.\<close>

function wav_chunks :: "string \<Rightarrow> wav_head \<Rightarrow> wav_error + wav_head" where
  "wav_chunks raw h =
     (if length raw < 8 then Inr h
      else let cid = take 4 raw; body = drop 8 raw;
               size = min (nat (le32 (drop 4 raw))) (length body);
               rest = drop (8 + size + size mod 2) raw
           in if cid = ''fmt ''
              then if size < 16 then Inl ShortFmt
                   else wav_chunks rest (h\<lparr>wh_channels := le16 (drop 2 body), wh_rate := le32 (drop 4 body),
                          wh_bits := le16 (drop 14 body)\<rparr>)
              else if cid = ''data'' then wav_chunks rest (h\<lparr>wh_data := Some (take size body)\<rparr>)
              else wav_chunks rest h)"
  by pat_completeness auto
termination
  by (relation "measure (length \<circ> fst)") (auto simp: Let_def intro!: diff_less)

declare wav_chunks.simps [simp del]

fun pcm_of :: "string \<Rightarrow> 16 word list" where
  "pcm_of (a # b # rest) = word_of_int (le16 [a, b]) # pcm_of rest"
| "pcm_of _ = []"

definition readWav :: "string option \<Rightarrow> wav_error + wav" where
  "readWav file =
     (case file of
        None \<Rightarrow> Inl NoFile
      | Some raw \<Rightarrow>
          if length raw < 12 \<or> take 4 raw \<noteq> ''RIFF'' \<or> take 4 (drop 8 raw) \<noteq> ''WAVE'' then Inl NotWav
          else case wav_chunks (drop 12 raw) \<lparr>wh_rate = 0, wh_channels = 0, wh_bits = 0, wh_data = None\<rparr> of
            Inl e \<Rightarrow> Inl e
          | Inr h \<Rightarrow>
              (case wh_data h of
                 None \<Rightarrow> Inl NoChunk
               | Some data \<Rightarrow>
                   if wh_rate h = 0 then Inl NoChunk
                   else if wh_channels h \<noteq> 1 \<or> wh_bits h \<noteq> 16 then Inl WantMono
                   else Inr \<lparr>wv_rate = wh_rate h, wv_pcm = pcm_of data\<rparr>))"

section \<open>Writing\<close>

definition put_pcm :: "16 word list \<Rightarrow> string" where
  "put_pcm pcm = concat (map (\<lambda>x. put16 (uint x)) pcm)"

definition encodeWav :: "int \<Rightarrow> 16 word list \<Rightarrow> string" where
  "encodeWav rate pcm =
     (let dataLen = int (length pcm) * 2 mod 2 ^ 32
      in ''RIFF'' @ put32 ((36 + dataLen) mod 2 ^ 32) @ ''WAVEfmt '' @ put32 16 @ put16 1 @ put16 1 @
         put32 (rate mod 2 ^ 32) @ put32 (rate * 2 mod 2 ^ 32) @ put16 2 @ put16 16 @ ''data'' @ put32 dataLen @
         put_pcm pcm)"

section \<open>The sound of a text\<close>

abbreviation (input) minGapMS :: int where "minGapMS \<equiv> 150"
abbreviation (input) maxGapMS :: int where "maxGapMS \<equiv> 450"
abbreviation (input) noiseAmp :: int where "noiseAmp \<equiv> 300"

datatype audio_error = BadSample wav_error | RatesDisagree | NoSamples

definition silence :: "int \<Rightarrow> int \<Rightarrow> 16 word list" where
  "silence rate ms =
     (let rate = (if rate = 0 then 8000 else rate) in replicate (nat (rate * ms div 1000)) 0)"

definition add_noise :: "int \<Rightarrow> 16 word \<Rightarrow> 16 word" where
  "add_noise d x =
     (let n = sint x + d
      in word_of_int (if n > 32767 then 32767 else if n < -32768 then -32768 else n))"

fun join_samples ::
    "(string \<Rightarrow> string option) \<Rightarrow> (nat \<Rightarrow> int) \<Rightarrow> nat \<Rightarrow> string \<Rightarrow> int \<Rightarrow> 16 word list \<Rightarrow>
     audio_error + (int \<times> 16 word list)" where
  "join_samples sample gap k [] rate out = Inr (rate, out)"
| "join_samples sample gap k (c # cs) rate out =
     (case readWav (sample (c # ''.wav'')) of
        Inl e \<Rightarrow> Inl (BadSample e)
      | Inr w \<Rightarrow>
          if rate \<noteq> 0 \<and> rate \<noteq> wv_rate w then Inl RatesDisagree
          else join_samples sample gap (Suc k) cs (wv_rate w)
                 (out @ wv_pcm w @ silence (wv_rate w) (minGapMS + gap k)))"

definition Audio ::
    "(string \<Rightarrow> string \<Rightarrow> string option) \<Rightarrow> (nat \<Rightarrow> int) \<Rightarrow> (nat \<Rightarrow> int) \<Rightarrow> string \<Rightarrow> string \<Rightarrow>
     audio_error + string" where
  "Audio sample gap noise dir text =
     (case join_samples (sample dir) gap 0 (to_lower text) 0 (silence 0 300) of
        Inl e \<Rightarrow> Inl e
      | Inr (rate, out) \<Rightarrow>
          if rate = 0 then Inl NoSamples
          else Inr (encodeWav rate (map (\<lambda>(i, x). add_noise (noise i) x) (enumerate 0 out))))"

text \<open>\<^const>\<open>None\<close> is a directory that cannot be read.\<close>

definition HasSamples :: "(string \<Rightarrow> string list option) \<Rightarrow> string \<Rightarrow> bool" where
  "HasSamples entries dir \<longleftrightarrow>
     dir \<noteq> [] \<and> (case entries dir of None \<Rightarrow> False | Some names \<Rightarrow> list_ex (\<lambda>n. has_suffix n ''.wav'') names)"

text \<open>\<open>Text\<close> of \<open>image.go\<close>; \<^const>\<open>None\<close> is the panic of a negative length or an empty alphabet.\<close>

definition Text :: "(nat \<Rightarrow> nat) \<Rightarrow> string \<Rightarrow> int \<Rightarrow> string option" where
  "Text draw alphabet len =
     (if len < 0 \<or> (len > 0 \<and> alphabet = []) then None
      else Some (map (\<lambda>i. alphabet ! draw i) [0..<nat len]))"

section \<open>Numbers come back\<close>

lemma byte_of_char_mod: "byte_of (char_of x) = x mod 256"
proof -
  have "byte_of (char_of (x mod 256)) = x mod 256" by (intro byte_of_char_of) simp_all
  then show ?thesis by simp
qed

lemma le16_put [simp]: "0 \<le> n \<Longrightarrow> n < 65536 \<Longrightarrow> le16 (put16 n @ s) = n"
  by (simp add: le16_def put16_def byte_of_char_mod)

lemma four_bytes:
  "n mod 256 + 256 * (n div 256 mod 256) + 65536 * (n div 65536 mod 256) + 16777216 * (n div 16777216) = (n :: int)"
proof -
  have d: "n div 65536 = n div 256 div 256" "n div 16777216 = n div 256 div 256 div 256"
    using zdiv_zmult2_eq [of 256 n 256] zdiv_zmult2_eq [of 256 n 65536] by simp_all
  define q1 q2 where "q1 = n div 256" and "q2 = q1 div 256"
  have "n mod 256 = n - 256 * q1" "q1 mod 256 = q1 - 256 * q2" "q2 mod 256 = q2 - 256 * (q2 div 256)"
    unfolding q1_def q2_def by (simp_all only: minus_mult_div_eq_mod)
  then have "n mod 256 + 256 * (q1 mod 256) + 65536 * (q2 mod 256) + 16777216 * (q2 div 256) =
      n - 256 * q1 + 256 * (q1 - 256 * q2) + 65536 * (q2 - 256 * (q2 div 256)) + 16777216 * (q2 div 256)"
    by (simp only:)
  also have "\<dots> = n" by (simp add: right_diff_distrib)
  finally show ?thesis unfolding d q1_def [symmetric] q2_def [symmetric] .
qed

lemma le32_four:
  "le32 ([a, b, c, d] @ s) = byte_of a + 256 * byte_of b + 65536 * byte_of c + 16777216 * byte_of d"
  by (simp add: le32_def)

lemma le32_put [simp]:
  assumes "0 \<le> n" "n < 2 ^ 32"
  shows "le32 (put32 n @ s) = n"
proof -
  have m: "n div 16777216 mod 256 = n div 16777216" using assms by (intro mod_pos_pos_trivial) auto
  have "le32 (put32 n @ s) =
      n mod 256 mod 256 + 256 * (n div 256 mod 256 mod 256) + 65536 * (n div 65536 mod 256 mod 256) +
      16777216 * (n div 16777216 mod 256 mod 256)"
    unfolding put32_def le32_four byte_of_char_mod ..
  also have "\<dots> = n" unfolding mod_mod_trivial m by (rule four_bytes)
  finally show ?thesis .
qed

lemma length_put [simp]: "length (put16 n) = 2" "length (put32 n) = 4"
  by (simp_all add: put16_def put32_def)

lemma pcm_of_put: "pcm_of (put_pcm pcm) = pcm"
proof (induction pcm)
  case (Cons x pcm)
  have "le16 [char_of (uint x mod 256), char_of (uint x div 256 mod 256)] = uint x"
    using le16_put [of "uint x" "[]"] uint_lt2p [of x] by (simp add: put16_def)
  then show ?case using Cons by (simp add: put_pcm_def put16_def)
qed (simp add: put_pcm_def)

lemma length_put_pcm [simp]: "length (put_pcm pcm) = 2 * length pcm"
  by (induction pcm) (simp_all add: put_pcm_def)

lemma chunk_fmt:
  assumes "length body = 16"
  shows "wav_chunks (''fmt '' @ put32 16 @ body @ rest) h =
    wav_chunks rest (h\<lparr>wh_channels := le16 (drop 2 body @ rest), wh_rate := le32 (drop 4 body @ rest),
      wh_bits := le16 (drop 14 body @ rest)\<rparr>)"
  using assms by (subst wav_chunks.simps) (simp add: Let_def)

lemma chunk_data:
  assumes "int (length body) < 2 ^ 32" "even (length body)"
  shows "wav_chunks (''data'' @ put32 (int (length body)) @ body) h = Inr (h\<lparr>wh_data := Some body\<rparr>)"
  using assms by (subst wav_chunks.simps) (simp add: Let_def wav_chunks.simps)

lemma read_encoded:
  assumes "0 < rate" "rate < 2 ^ 32" "2 * int (length pcm) + 36 < 2 ^ 32"
  shows "readWav (Some (encodeWav rate pcm)) = Inr \<lparr>wv_rate = rate, wv_pcm = pcm\<rparr>"
proof -
  let ?body = "put16 1 @ put16 1 @ put32 rate @ put32 (rate * 2 mod 2 ^ 32) @ put16 2 @ put16 16"
  let ?data = "''data'' @ put32 (int (length pcm) * 2) @ put_pcm pcm"
  have e: "encodeWav rate pcm = ''RIFF'' @ put32 (36 + int (length pcm) * 2) @ ''WAVE'' @ ''fmt '' @ put32 16 @ ?body @ ?data"
    using assms by (simp add: encodeWav_def Let_def)
  have d: "drop 12 (encodeWav rate pcm) = ''fmt '' @ put32 16 @ ?body @ ?data"
    by (simp add: e)
  have l: "length ?body = 16" by simp
  have f: "le16 (drop 2 ?body @ ?data) = 1" "le32 (drop 4 ?body @ ?data) = rate" "le16 (drop 14 ?body @ ?data) = 16"
    using assms by (simp_all add: drop_Cons')
  have c: "wav_chunks ?data h = Inr (h\<lparr>wh_data := Some (put_pcm pcm)\<rparr>)" for h
    using chunk_data [of "put_pcm pcm" h] assms(3) by (simp add: mult.commute)
  have "\<not> length (encodeWav rate pcm) < 12" "take 4 (encodeWav rate pcm) = ''RIFF''"
    "take 4 (drop 8 (encodeWav rate pcm)) = ''WAVE''"
    by (simp_all add: e)
  then show ?thesis
    unfolding readWav_def option.case d chunk_fmt [OF l] f c
    using assms(1) by (simp add: pcm_of_put)
qed

section \<open>The track behind the noise\<close>

fun clean_track :: "(nat \<Rightarrow> int) \<Rightarrow> nat \<Rightarrow> wav list \<Rightarrow> 16 word list" where
  "clean_track gap k [] = []"
| "clean_track gap k (w # ws) = wv_pcm w @ silence (wv_rate w) (minGapMS + gap k) @ clean_track gap (Suc k) ws"

definition sample_of :: "(string \<Rightarrow> string option) \<Rightarrow> int \<Rightarrow> char \<Rightarrow> wav \<Rightarrow> bool" where
  "sample_of sample rate c w \<longleftrightarrow> readWav (sample (c # ''.wav'')) = Inr w \<and> wv_rate w = rate"

lemma le32_range: "0 \<le> le32 s" "le32 s < 2 ^ 32"
proof -
  have b: "0 \<le> byte_of c \<and> byte_of c \<le> 255" for c using byte_of_range [of c] by linarith
  have "0 \<le> le32 s" "le32 s < 4294967296"
    unfolding le32_def using b [of "s ! 0"] b [of "s ! 1"] b [of "s ! 2"] b [of "s ! 3"] by linarith+
  then show "0 \<le> le32 s" "le32 s < 2 ^ 32" by simp_all
qed

lemma chunks_rate:
  "wav_chunks raw h = Inr h' \<Longrightarrow> 0 \<le> wh_rate h \<and> wh_rate h < 2 ^ 32 \<Longrightarrow> 0 \<le> wh_rate h' \<and> wh_rate h' < 2 ^ 32"
proof (induction raw h rule: wav_chunks.induct)
  case (1 raw h)
  have e: "wav_chunks raw h = Inr h'" by (rule 1(4))
  show ?case
  proof (cases "length raw < 8")
    case True
    then show ?thesis using e 1(5) by (simp add: wav_chunks.simps)
  next
    case False
    note ih = 1(1-3) [OF False refl refl refl refl]
    show ?thesis
      using e 1(5) False ih le32_range by (subst (asm) wav_chunks.simps) (auto simp: Let_def split: if_splits)
  qed
qed

lemma read_rate:
  assumes "readWav file = Inr w"
  shows "0 < wv_rate w \<and> wv_rate w < 2 ^ 32"
proof -
  obtain raw h where "wav_chunks (drop 12 raw) \<lparr>wh_rate = 0, wh_channels = 0, wh_bits = 0, wh_data = None\<rparr> = Inr h"
      "wv_rate w = wh_rate h" "wh_rate h \<noteq> 0"
    using assms by (auto simp: readWav_def split: option.splits if_splits sum.splits)
  with chunks_rate [OF this(1)] show ?thesis by simp
qed

lemma join_track:
  "join_samples sample gap k cs rate out = Inr (rate', out') \<Longrightarrow>
     (rate \<noteq> 0 \<or> cs = [] \<longrightarrow> rate' = rate) \<and> (cs \<noteq> [] \<longrightarrow> 0 < rate' \<and> rate' < 2 ^ 32) \<and>
     (\<exists>ws. list_all2 (sample_of sample rate') cs ws \<and> out' = out @ clean_track gap k ws)"
proof (induction cs arbitrary: k rate out)
  case (Cons c cs)
  obtain w where w: "readWav (sample (c # ''.wav'')) = Inr w" "\<not> (rate \<noteq> 0 \<and> rate \<noteq> wv_rate w)"
    and j: "join_samples sample gap (Suc k) cs (wv_rate w)
      (out @ wv_pcm w @ silence (wv_rate w) (minGapMS + gap k)) = Inr (rate', out')"
    using Cons.prems by (auto split: sum.splits if_splits)
  have r: "0 < wv_rate w \<and> wv_rate w < 2 ^ 32" using read_rate [OF w(1)] .
  from Cons.IH [OF j] r obtain ws where ws: "rate' = wv_rate w" "list_all2 (sample_of sample rate') cs ws"
      "out' = (out @ wv_pcm w @ silence (wv_rate w) (minGapMS + gap k)) @ clean_track gap (Suc k) ws" by auto
  then have "list_all2 (sample_of sample rate') (c # cs) (w # ws) \<and> out' = out @ clean_track gap k (w # ws)"
    using w(1) by (simp add: sample_of_def)
  with ws(1) w(2) r show ?case by blast
qed simp

lemma sint16_range: "- 32768 \<le> sint (x :: 16 word) \<and> sint x < 32768"
  using sint_greater_eq [of x] sint_less [of x] by simp

lemma noise_small:
  assumes "- noiseAmp \<le> d" "d \<le> noiseAmp"
  shows "\<bar>sint (add_noise d x) - sint x\<bar> \<le> noiseAmp"
proof -
  define n where "n = (if sint x + d > 32767 then 32767 else if sint x + d < -32768 then -32768 else sint x + d)"
  have r: "- 32768 \<le> n \<and> n < 32768" by (simp add: n_def)
  then have "sint (word_of_int n :: 16 word) = n" by (simp add: sint_sbintrunc' signed_take_bit_int_eq_self)
  then have "sint (add_noise d x) = n" by (simp add: add_noise_def Let_def n_def)
  then show ?thesis using assms sint16_range [of x] by (auto simp: n_def)
qed

section \<open>Properties\<close>

text \<open>What is written is read back. Every mono track of 16-bit samples whose file stays below 4 GiB, at any rate a
  file can name, is read from the file \<open>encodeWav\<close> writes exactly as it was.\<close>

theorem wav_round_trip:
  assumes "0 < rate" "rate < 2 ^ 32" "2 * int (length pcm) + 36 < 2 ^ 32"
  shows "readWav (Some (encodeWav rate pcm)) = Inr \<lparr>wv_rate = rate, wv_pcm = pcm\<rparr>"
  by (rule read_encoded [OF assms])

theorem wav_round_trip_witness:
  "readWav (Some (encodeWav 8000 [1, - 2])) = Inr \<lparr>wv_rate = 8000, wv_pcm = [1, - 2]\<rparr>"
  by (rule wav_round_trip) simp_all

text \<open>The sound says the text. When \<open>Audio\<close> gives a file, the file is a well-formed one, at the one rate all
  the samples have, and it plays the pause and then the sample of each character of the lower-cased text
  in order, each followed by its gap, with every value within the amplitude of the noise of that track.\<close>

theorem audio_says_text:
  assumes audio: "Audio sample gap noise dir text = Inr bytes" and small: "length bytes < 2 ^ 32"
    and noise: "\<And>i. - noiseAmp \<le> noise i \<and> noise i < noiseAmp"
  shows "\<exists>rate ws pcm clean. readWav (Some bytes) = Inr \<lparr>wv_rate = rate, wv_pcm = pcm\<rparr> \<and>
     list_all2 (sample_of (sample dir) rate) (to_lower text) ws \<and> clean = silence 0 300 @ clean_track gap 0 ws \<and>
     length pcm = length clean \<and> (\<forall>i < length clean. \<bar>sint (pcm ! i) - sint (clean ! i)\<bar> \<le> noiseAmp)"
proof -
  obtain rate out where j: "join_samples (sample dir) gap 0 (to_lower text) 0 (silence 0 300) = Inr (rate, out)"
    and r: "rate \<noteq> 0" and b: "bytes = encodeWav rate (map (\<lambda>(i, x). add_noise (noise i) x) (enumerate 0 out))"
    using audio by (auto simp: Audio_def split: sum.splits if_splits)
  let ?pcm = "map (\<lambda>(i, x). add_noise (noise i) x) (enumerate 0 out)"
  from join_track [OF j] r obtain ws where
    ws: "list_all2 (sample_of (sample dir) rate) (to_lower text) ws" "out = silence 0 300 @ clean_track gap 0 ws"
    and range: "0 < rate" "rate < 2 ^ 32" by (cases "to_lower text = []") auto
  have "length bytes = 44 + 2 * length ?pcm" by (simp add: b encodeWav_def Let_def)
  then have "2 * int (length ?pcm) + 36 < 2 ^ 32" using small by simp
  then have "readWav (Some bytes) = Inr \<lparr>wv_rate = rate, wv_pcm = ?pcm\<rparr>" unfolding b by (rule read_encoded [OF range])
  moreover have "\<forall>i < length out. \<bar>sint (?pcm ! i) - sint (out ! i)\<bar> \<le> noiseAmp"
    using noise noise_small by (simp add: nth_enumerate_eq less_imp_le)
  ultimately show ?thesis using ws by (intro exI [of _ rate] exI [of _ ws] exI [of _ ?pcm] exI [of _ out]) simp
qed

definition toy_samples :: "string \<Rightarrow> string \<Rightarrow> string option" where
  "toy_samples dir name = (if name = ''a.wav'' then Some (encodeWav 8000 [5, 6]) else None)"

theorem audio_says_text_witness:
  "\<exists>bytes rate pcm. Audio toy_samples (\<lambda>_. 0) (\<lambda>_. 0) ''/audio'' ''A'' = Inr bytes \<and>
     readWav (Some bytes) = Inr \<lparr>wv_rate = rate, wv_pcm = pcm\<rparr> \<and> length pcm = 2400 + 2 + 1200"
proof -
  have l: "to_lower ''A'' = ''a''" by code_simp
  have w: "readWav (toy_samples ''/audio'' ''a.wav'') = Inr \<lparr>wv_rate = 8000, wv_pcm = [5, 6]\<rparr>"
    unfolding toy_samples_def if_P [OF refl] by (rule read_encoded) simp_all
  have j: "join_samples (toy_samples ''/audio'') (\<lambda>_. 0) 0 ''a'' 0 (silence 0 300) =
      Inr (8000, silence 0 300 @ [5, 6] @ silence 8000 150)"
    by (simp add: w)
  let ?out = "silence 0 300 @ [5, 6] @ silence 8000 150"
  let ?bytes = "encodeWav 8000 (map (\<lambda>(i, x). add_noise 0 x) (enumerate 0 ?out))"
  have a: "Audio toy_samples (\<lambda>_. 0) (\<lambda>_. 0) ''/audio'' ''A'' = Inr ?bytes" unfolding Audio_def l j by simp
  have n: "length ?bytes < 2 ^ 32" by (simp add: encodeWav_def Let_def silence_def)
  obtain rate ws pcm where p: "readWav (Some ?bytes) = Inr \<lparr>wv_rate = rate, wv_pcm = pcm\<rparr>"
      "list_all2 (sample_of (toy_samples ''/audio'') rate) ''a'' ws"
      "length pcm = length (silence 0 300 @ clean_track (\<lambda>_. 0) 0 ws)"
    using audio_says_text [OF a n] l by auto
  then have "ws = [\<lparr>wv_rate = 8000, wv_pcm = [5, 6]\<rparr>]"
    by (auto simp: list_all2_Cons1 sample_of_def w)
  then have "length pcm = 2400 + 2 + 1200" using p(3) by (simp add: silence_def)
  with a p(1) show ?thesis by blast
qed

end
