(* ===== verification/Picture.thy ===== *)
theory Picture
  imports Go_Float
begin

text \<open>
  Package \<open>internal/image\<close>, file \<open>image.go\<close>: drawing the picture of a text (\<open>Render\<close>, \<open>noise\<close>).

  The characters themselves are the outside: \<open>grey x y\<close> is the grey value that \<open>font.Drawer\<close> with the 7x13
  face leaves at a pixel of the mask, and \<open>png\<close> the encoder. \<open>draw k n\<close> is the value \<open>rand.Int\<close> gives the
  \<open>k\<close>-th call of \<open>randInt\<close>, asked for one below \<open>n\<close> (\<^const>\<open>None\<close> when the reader fails), and \<open>sine\<close> is \<open>math.Sin\<close>.
  Every floating-point operation is rounded on its own, as on amd64.
\<close>

abbreviation (input) scale :: int where "scale \<equiv> 5"
abbreviation (input) glyphW :: int where "glyphW \<equiv> 35"
abbreviation (input) glyphH :: int where "glyphH \<equiv> 65"
abbreviation (input) padX :: int where "padX \<equiv> 12"
abbreviation (input) padY :: int where "padY \<equiv> 14"

section \<open>Pictures\<close>

datatype rgba = RGBA (red: int) (green: int) (blue: int) (alpha: int)

record picture =
  pc_w :: int
  pc_h :: int
  pc_at :: "int \<times> int \<Rightarrow> rgba"

definition in_picture :: "picture \<Rightarrow> int \<times> int \<Rightarrow> bool" where
  "in_picture im p \<longleftrightarrow> 0 \<le> fst p \<and> fst p < pc_w im \<and> 0 \<le> snd p \<and> snd p < pc_h im"

definition NewRGBA :: "int \<Rightarrow> int \<Rightarrow> picture" where
  "NewRGBA w h = \<lparr>pc_w = w, pc_h = h, pc_at = \<lambda>_. RGBA 0 0 0 0\<rparr>"

text \<open>\<open>SetRGBA\<close> of the Go library: a point outside changes nothing.\<close>

definition SetRGBA :: "int \<Rightarrow> int \<Rightarrow> rgba \<Rightarrow> picture \<Rightarrow> picture" where
  "SetRGBA x y c im = (if in_picture im (x, y) then im\<lparr>pc_at := (pc_at im)((x, y) := c)\<rparr> else im)"

definition bg_colour :: rgba where
  "bg_colour = RGBA 0xf6 0xf6 0xf2 0xff"

definition fg_colour :: rgba where
  "fg_colour = RGBA 0x22 0x2a 0x44 0xff"

definition line_colour :: "rgba \<Rightarrow> rgba" where
  "line_colour c = RGBA (red c) (green c) (blue c) 0x90"

section \<open>Random numbers\<close>

type_synonym draws = "nat \<Rightarrow> int \<Rightarrow> int option"

text \<open>What \<open>rand.Int\<close> is documented to return.\<close>

definition draws_ok :: "draws \<Rightarrow> bool" where
  "draws_ok draw \<longleftrightarrow> (\<forall>k n v. draw k n = Some v \<longrightarrow> 0 \<le> v \<and> v < n)"

definition randInt :: "draws \<Rightarrow> nat \<Rightarrow> int \<Rightarrow> int" where
  "randInt draw k n = (case draw k n of None \<Rightarrow> 0 | Some v \<Rightarrow> v)"

definition randFloat :: "draws \<Rightarrow> nat \<Rightarrow> float64" where
  "randFloat draw k = f64 (of_int (randInt draw k (2 ^ 20)) / 2 ^ 20)"

section \<open>Noise\<close>

definition line_pixel :: "rgba \<Rightarrow> int \<Rightarrow> int \<Rightarrow> int \<Rightarrow> int \<Rightarrow> int \<Rightarrow> int \<Rightarrow> picture \<Rightarrow> picture" where
  "line_pixel c x0 y0 x1 y1 steps s im =
     (let x = x0 + quot ((x1 - x0) * s) steps; y = y0 + quot ((y1 - y0) * s) steps;
          im = SetRGBA x y c im
      in if y + 1 < pc_h im then SetRGBA x (y + 1) c im else im)"

definition noise_line :: "draws \<Rightarrow> rgba \<Rightarrow> nat \<Rightarrow> picture \<Rightarrow> picture" where
  "noise_line draw c k im =
     (let x0 = randInt draw k (pc_w im); y0 = randInt draw (k + 1) (pc_h im);
          x1 = randInt draw (k + 2) (pc_w im); y1 = randInt draw (k + 3) (pc_h im);
          steps = max (max \<bar>x1 - x0\<bar> \<bar>y1 - y0\<bar>) 1
      in fold (line_pixel c x0 y0 x1 y1 steps) [0..steps] im)"

definition noise_dot :: "draws \<Rightarrow> rgba \<Rightarrow> nat \<Rightarrow> picture \<Rightarrow> picture" where
  "noise_dot draw c k im = SetRGBA (randInt draw k (pc_w im)) (randInt draw (k + 1) (pc_h im)) c im"

text \<open>The calls of \<open>randInt\<close> are counted from \<open>k\<close>: four for each line, two for each dot.\<close>

definition noise :: "draws \<Rightarrow> nat \<Rightarrow> rgba \<Rightarrow> picture \<Rightarrow> picture" where
  "noise draw k c im =
     (let line = line_colour c;
          im = fold (\<lambda>i. noise_line draw line (k + 4 * i)) [0..<3] im;
          dots = nat (quot (pc_w im * pc_h im) 60)
      in fold (\<lambda>i. noise_dot draw line (k + 12 + 2 * i)) [0..<dots] im)"

section \<open>The picture of a text\<close>

definition math_Pi :: float64 where
  "math_Pi = 884279719003555 / 281474976710656"

record waves =
  wa_phase1 :: float64
  wa_phase2 :: float64
  wa_ampX :: float64
  wa_ampY :: float64

definition draw_waves :: "draws \<Rightarrow> waves" where
  "draw_waves draw =
     \<lparr>wa_phase1 = f64 (f64 (randFloat draw 0 * 2) * math_Pi), wa_phase2 = f64 (f64 (randFloat draw 1 * 2) * math_Pi),
      wa_ampX = f64 (3 + f64 (randFloat draw 2 * 3)), wa_ampY = f64 (2 + f64 (randFloat draw 3 * 3))\<rparr>"

text \<open>The coordinates a pixel takes its ink from, before they are scaled down.\<close>

definition source_x :: "(float64 \<Rightarrow> float64) \<Rightarrow> waves \<Rightarrow> int \<Rightarrow> int \<Rightarrow> float64" where
  "source_x sine wa x y =
     f64 (of_int (x - padX) + f64 (wa_ampX wa * sine (f64 (f64 (of_int y / 11) + wa_phase1 wa))))"

definition source_y :: "(float64 \<Rightarrow> float64) \<Rightarrow> waves \<Rightarrow> int \<Rightarrow> int \<Rightarrow> float64" where
  "source_y sine wa x y =
     f64 (of_int (y - padY) + f64 (wa_ampY wa * sine (f64 (f64 (of_int x / 17) + wa_phase2 wa))))"

text \<open>Whether the loop of \<open>Render\<close> sets the pixel; \<open>n\<close> is the length of the text.\<close>

definition inked :: "(float64 \<Rightarrow> float64) \<Rightarrow> (int \<Rightarrow> int \<Rightarrow> int) \<Rightarrow> waves \<Rightarrow> int \<Rightarrow> int \<Rightarrow> int \<Rightarrow> bool" where
  "inked sine grey wa n x y =
     (let sx = source_x sine wa x y; sy = source_y sine wa x y;
          mx = quot (float_to_int sx) scale; my = quot (float_to_int sy) scale
      in if sx < 0 \<or> sy < 0 \<or> mx \<ge> 7 * n \<or> my \<ge> 13 then False else grey mx my > 128)"

definition positions :: "int \<Rightarrow> int \<Rightarrow> (int \<times> int) list" where
  "positions w h = concat (map (\<lambda>y. map (\<lambda>x. (x, y)) [0..w - 1]) [0..h - 1])"

definition drawn :: "(float64 \<Rightarrow> float64) \<Rightarrow> (int \<Rightarrow> int \<Rightarrow> int) \<Rightarrow> waves \<Rightarrow> int \<Rightarrow> picture" where
  "drawn sine grey wa n =
     (let w = padX * 2 + glyphW * n; h = padY * 2 + glyphH;
          im = fold (\<lambda>(x, y). SetRGBA x y bg_colour) (positions w h) (NewRGBA w h)
      in fold (\<lambda>(x, y) im. if inked sine grey wa n x y then SetRGBA x y fg_colour im else im) (positions w h) im)"

definition Render ::
    "(float64 \<Rightarrow> float64) \<Rightarrow> (string \<Rightarrow> int \<Rightarrow> int \<Rightarrow> int) \<Rightarrow> draws \<Rightarrow> (picture \<Rightarrow> string) \<Rightarrow> string \<Rightarrow> string" where
  "Render sine grey draw png s =
     png (noise draw 4 fg_colour (drawn sine (grey s) (draw_waves draw) (int (length s))))"

section \<open>What is drawn\<close>

lemma positions_set: "set (positions w h) = {(x, y). 0 \<le> x \<and> x < w \<and> 0 \<le> y \<and> y < h}"
  by (auto simp: positions_def)

lemma set_size [simp]: "pc_w (SetRGBA x y c im) = pc_w im" "pc_h (SetRGBA x y c im) = pc_h im"
  by (simp_all add: SetRGBA_def)

lemma in_set [simp]: "in_picture (SetRGBA x y c im) = in_picture im"
  by (simp add: in_picture_def fun_eq_iff)

lemma set_at: "pc_at (SetRGBA x y c im) p = (if p = (x, y) \<and> in_picture im p then c else pc_at im p)"
  by (auto simp: SetRGBA_def)

text \<open>A loop over pixels that sets those it chooses.\<close>

lemma paint_fold:
  "pc_w (fold (\<lambda>(x, y) im. if P x y then SetRGBA x y c im else im) ps im) = pc_w im \<and>
   pc_h (fold (\<lambda>(x, y) im. if P x y then SetRGBA x y c im else im) ps im) = pc_h im \<and>
   pc_at (fold (\<lambda>(x, y) im. if P x y then SetRGBA x y c im else im) ps im) p =
     (if p \<in> set ps \<and> in_picture im p \<and> P (fst p) (snd p) then c else pc_at im p)"
proof (induction ps arbitrary: im)
  case (Cons q ps)
  obtain x y where q: "q = (x, y)" by fastforce
  show ?case
    using Cons [of "if P x y then SetRGBA x y c im else im"]
    by (auto simp: q set_at in_picture_def split: if_splits)
qed simp

lemma fill_fold:
  "pc_w (fold (\<lambda>(x, y). SetRGBA x y c) ps im) = pc_w im \<and> pc_h (fold (\<lambda>(x, y). SetRGBA x y c) ps im) = pc_h im \<and>
   pc_at (fold (\<lambda>(x, y). SetRGBA x y c) ps im) p = (if p \<in> set ps \<and> in_picture im p then c else pc_at im p)"
  using paint_fold [of "\<lambda>_ _. True" c ps im p] by simp

lemma drawn_at:
  "pc_w (drawn sine grey wa n) = 24 + 35 * n \<and> pc_h (drawn sine grey wa n) = 93 \<and>
   (in_picture (drawn sine grey wa n) (x, y) \<longrightarrow>
      pc_at (drawn sine grey wa n) (x, y) = (if inked sine grey wa n x y then fg_colour else bg_colour))"
proof -
  define w h where wh: "w = padX * 2 + glyphW * n" "h = padY * 2 + glyphH"
  define g where "g = fold (\<lambda>(x, y). SetRGBA x y bg_colour) (positions w h) (NewRGBA w h)"
  have g: "pc_w g = w" "pc_h g = h" "in_picture g p \<Longrightarrow> pc_at g p = bg_colour" for p
    unfolding g_def using fill_fold [of bg_colour "positions w h" "NewRGBA w h" p]
    by (auto simp: NewRGBA_def in_picture_def positions_set)
  note f = paint_fold [of "inked sine grey wa n" fg_colour "positions w h" g]
  have d: "drawn sine grey wa n = fold (\<lambda>(x, y) im. if inked sine grey wa n x y then SetRGBA x y fg_colour im else im) (positions w h) g"
    by (simp add: drawn_def g_def wh Let_def)
  show ?thesis
    unfolding d using f [of "(x, y)"] g by (auto simp: in_picture_def positions_set wh)
qed


section \<open>What the noise may touch\<close>

text \<open>The two pictures have one size and differ, with pixels of the colour \<open>c\<close>, in at most \<open>k\<close> places.\<close>

definition touches :: "rgba \<Rightarrow> int \<Rightarrow> picture \<Rightarrow> picture \<Rightarrow> bool" where
  "touches c k im im' \<longleftrightarrow>
     pc_w im' = pc_w im \<and> pc_h im' = pc_h im \<and>
     (\<exists>S. finite S \<and> int (card S) \<le> k \<and> (\<forall>p. p \<notin> S \<longrightarrow> pc_at im' p = pc_at im p) \<and> (\<forall>p \<in> S. pc_at im' p \<in> {c, pc_at im p}))"

lemma touches_refl: "0 \<le> k \<Longrightarrow> touches c k im im"
  by (auto simp: touches_def intro!: exI [of _ "{}"])

lemma touches_trans:
  assumes "touches c k a b" "touches c l b d" "k + l \<le> m"
  shows "touches c m a d"
proof -
  obtain S T where s: "finite S" "int (card S) \<le> k" "\<forall>p. p \<notin> S \<longrightarrow> pc_at b p = pc_at a p" "\<forall>p \<in> S. pc_at b p \<in> {c, pc_at a p}"
    and t: "finite T" "int (card T) \<le> l" "\<forall>p. p \<notin> T \<longrightarrow> pc_at d p = pc_at b p" "\<forall>p \<in> T. pc_at d p \<in> {c, pc_at b p}"
    using assms(1,2) unfolding touches_def by blast
  have "int (card (S \<union> T)) \<le> m" using card_Un_le [of S T] s(2) t(2) assms(3) by linarith
  moreover have "pc_at d p \<in> {c, pc_at a p}" for p using s(3,4) t(3,4) by (metis insert_iff singletonD)
  ultimately show ?thesis
    using assms(1,2) s t unfolding touches_def by (intro conjI exI [of _ "S \<union> T"]) auto
qed

lemma touches_mono: "touches c k a b \<Longrightarrow> k \<le> m \<Longrightarrow> touches c m a b"
  by (auto simp: touches_def)

lemma touches_set: "touches c 1 im (SetRGBA x y c im)"
  by (auto simp: touches_def set_at intro!: exI [of _ "{(x, y)}"])

lemma touches_fold:
  assumes "\<And>i im. pc_w im = w \<Longrightarrow> pc_h im = h \<Longrightarrow> touches c k im (f i im)" "pc_w im = w" "pc_h im = h"
  shows "touches c (int (length xs) * k) im (fold f xs im)"
  using assms(2,3)
proof (induction xs arbitrary: im)
  case (Cons i xs)
  have a: "touches c k im (f i im)" by (rule assms(1) [OF Cons.prems])
  then have "pc_w (f i im) = w" "pc_h (f i im) = h" using Cons.prems by (simp_all add: touches_def)
  from touches_trans [OF a Cons.IH [OF this]] show ?case by (simp add: algebra_simps)
qed (simp add: touches_refl)

lemma touches_line_pixel: "touches c 2 im (line_pixel c x0 y0 x1 y1 steps s im)"
  by (auto simp: line_pixel_def Let_def intro: touches_trans [OF touches_set touches_set] touches_trans [OF touches_set touches_refl])

lemma touches_noise_line:
  assumes r: "draws_ok draw" and p: "1 < pc_w im" "1 < pc_h im"
  shows "touches c (2 * max (pc_w im) (pc_h im)) im (noise_line draw c k im)"
proof -
  let ?x0 = "randInt draw k (pc_w im)" and ?y0 = "randInt draw (k + 1) (pc_h im)"
  let ?x1 = "randInt draw (k + 2) (pc_w im)" and ?y1 = "randInt draw (k + 3) (pc_h im)"
  let ?steps = "max (max \<bar>?x1 - ?x0\<bar> \<bar>?y1 - ?y0\<bar>) 1"
  have rr: "0 < n \<Longrightarrow> 0 \<le> randInt draw k n \<and> randInt draw k n < n" for k n
    using r by (auto simp: draws_ok_def randInt_def split: option.split)
  have "?steps + 1 \<le> max (pc_w im) (pc_h im)"
    using rr [of "pc_w im" k] rr [of "pc_w im" "k + 2"] rr [of "pc_h im" "k + 1"] rr [of "pc_h im" "k + 3"] p by linarith
  then have l: "int (length [0..?steps]) \<le> max (pc_w im) (pc_h im)" by simp
  have "touches c (int (length [0..?steps]) * 2) im (fold (line_pixel c ?x0 ?y0 ?x1 ?y1 ?steps) [0..?steps] im)"
    by (rule touches_fold [OF _ refl refl]) (rule touches_line_pixel)
  then have "touches c (2 * max (pc_w im) (pc_h im)) im (fold (line_pixel c ?x0 ?y0 ?x1 ?y1 ?steps) [0..?steps] im)"
    by (rule touches_mono) (use l in linarith)
  then show ?thesis unfolding noise_line_def Let_def .
qed

lemma touches_noise:
  assumes r: "draws_ok draw" and p: "1 < pc_w im" "1 < pc_h im"
  shows "touches (line_colour c) (6 * max (pc_w im) (pc_h im) + pc_w im * pc_h im div 60) im (noise draw k c im)"
proof -
  let ?m = "2 * max (pc_w im) (pc_h im)"
  let ?a = "fold (\<lambda>i. noise_line draw (line_colour c) (k + 4 * i)) [0..<3] im"
  have a: "touches (line_colour c) (int (length [0..<3]) * ?m) im ?a"
  proof (rule touches_fold [OF _ refl refl])
    fix i :: nat and im' :: picture
    assume "pc_w im' = pc_w im" "pc_h im' = pc_h im"
    with touches_noise_line [OF r, of im' "line_colour c" "k + 4 * i"] p
    show "touches (line_colour c) ?m im' (noise_line draw (line_colour c) (k + 4 * i) im')" by simp
  qed
  then have s: "pc_w ?a = pc_w im" "pc_h ?a = pc_h im" by (simp_all add: touches_def)
  let ?n = "nat (quot (pc_w im * pc_h im) 60)"
  have n: "int ?n = pc_w im * pc_h im div 60" using p by (simp add: quot_nonneg)
  have "touches (line_colour c) (int (length [0..<?n]) * 1) ?a (fold (\<lambda>i. noise_dot draw (line_colour c) (k + 12 + 2 * i)) [0..<?n] ?a)"
    by (rule touches_fold [OF _ refl refl]) (auto simp: noise_dot_def intro: touches_set)
  from touches_trans [OF a this] show ?thesis
    unfolding noise_def Let_def s using n by simp
qed


section \<open>Where the ink is\<close>

lemma f64_between:
  assumes "of_int a \<le> x" "x \<le> of_int b" "\<bar>a\<bar> < 2 ^ 53" "\<bar>b\<bar> < 2 ^ 53"
  shows "of_int a \<le> f64 x \<and> f64 x \<le> of_int b"
  using f64_mono [OF assms(1)] f64_mono [OF assms(2)] f64_int [OF assms(3)] f64_int [OF assms(4)] by simp

lemma randFloat_unit:
  assumes "draws_ok draw"
  shows "0 \<le> randFloat draw k \<and> randFloat draw k \<le> 1"
proof -
  have "0 \<le> randInt draw k (2 ^ 20) \<and> randInt draw k (2 ^ 20) \<le> 2 ^ 20"
    using assms by (force simp: draws_ok_def randInt_def split: option.split)
  then show ?thesis
    using f64_between [of 0 "of_int (randInt draw k (2 ^ 20)) / 2 ^ 20" 1] by (simp add: randFloat_def)
qed

lemma wave_bounds:
  assumes "draws_ok draw"
  shows "0 \<le> wa_ampX (draw_waves draw)" "wa_ampX (draw_waves draw) \<le> 6"
    "0 \<le> wa_ampY (draw_waves draw)" "wa_ampY (draw_waves draw) \<le> 5"
proof -
  have m: "0 \<le> f64 (randFloat draw k * 3) \<and> f64 (randFloat draw k * 3) \<le> 3" for k
    using randFloat_unit [OF assms, of k] f64_between [of 0 "randFloat draw k * 3" 3] by simp
  show "0 \<le> wa_ampX (draw_waves draw)" "wa_ampX (draw_waves draw) \<le> 6"
    using m [of 2] f64_between [of 0 "3 + f64 (randFloat draw 2 * 3)" 6] by (simp_all add: draw_waves_def)
  show "0 \<le> wa_ampY (draw_waves draw)" "wa_ampY (draw_waves draw) \<le> 5"
    using m [of 3] f64_between [of 0 "2 + f64 (randFloat draw 3 * 3)" 5] by (simp_all add: draw_waves_def)
qed

lemma shift_bounds:
  fixes amp s :: rat
  assumes "0 \<le> amp" "amp \<le> of_int a" "\<bar>s\<bar> \<le> 1" "\<bar>a\<bar> < 2 ^ 53"
  shows "\<bar>f64 (amp * s)\<bar> \<le> of_int a"
proof -
  have "\<bar>amp * s\<bar> \<le> of_int a * 1" unfolding abs_mult using assms by (intro mult_mono) auto
  then show ?thesis using f64_between [of "- a" "amp * s" a] assms(4) by (simp add: abs_le_iff)
qed

text \<open>A pixel that takes its ink from inside a strip of \<open>k\<close> cells of the mask, moved by at most \<open>a\<close>.\<close>

lemma source_inside:
  assumes "0 \<le> f64 (of_int z + d)" "quot (float_to_int (f64 (of_int z + d))) scale < k"
    and "\<bar>d\<bar> \<le> of_int a" "0 \<le> k" "0 \<le> a" "\<bar>a\<bar> < 2 ^ 51" "k < 2 ^ 50"
  shows "- a \<le> z" "z < 5 * k + a"
proof -
  show "- a \<le> z"
  proof (rule ccontr)
    assume "\<not> - a \<le> z"
    then have "z + a \<le> - 1" by simp
    then have "rat_of_int z + of_int a \<le> of_int (- 1)" by (metis of_int_add of_int_le_iff)
    moreover have "d \<le> of_int a" using assms(3) by simp
    ultimately have "of_int z + d \<le> of_int (- 1)" by simp
    from f64_mono [OF this] assms(1) show False by (simp add: f64_int [of "- 1", simplified])
  qed
  show "z < 5 * k + a"
  proof (rule ccontr)
    assume "\<not> z < 5 * k + a"
    then have "5 * k \<le> z - a" by simp
    then have "rat_of_int (5 * k) \<le> of_int z - of_int a" by (metis of_int_diff of_int_le_iff)
    moreover have "- of_int a \<le> d" using assms(3) by (simp add: abs_le_iff)
    ultimately have "of_int (5 * k) \<le> of_int z + d" by simp
    from f64_mono [OF this] have "of_int (5 * k) \<le> f64 (of_int z + d)" using f64_int [of "5 * k"] assms(4,7) by simp
    then have "5 * k \<le> float_to_int (f64 (of_int z + d))" using assms(1) by (simp add: float_to_int_def le_floor_iff)
    then show False using assms(2,4) by (simp add: quot_nonneg)
  qed
qed

lemma ink_inside:
  assumes "inked sine grey (draw_waves draw) n x y" "draws_ok draw" "\<forall>v. \<bar>sine v\<bar> \<le> 1" "0 \<le> n" "n < 2 ^ 40"
  shows "6 \<le> x \<and> x < 18 + 35 * n \<and> 9 \<le> y \<and> y < 84"
proof -
  let ?wa = "draw_waves draw"
  note wb = wave_bounds [OF assms(2)]
  let ?dx = "f64 (wa_ampX ?wa * sine (f64 (f64 (of_int y / 11) + wa_phase1 ?wa)))"
  let ?dy = "f64 (wa_ampY ?wa * sine (f64 (f64 (of_int x / 17) + wa_phase2 ?wa)))"
  have d: "\<bar>?dx\<bar> \<le> of_int 6" "\<bar>?dy\<bar> \<le> of_int 5"
    by (rule shift_bounds; use wb assms(3) in simp)+
  have h: "0 \<le> f64 (of_int (x - padX) + ?dx)" "quot (float_to_int (f64 (of_int (x - padX) + ?dx))) scale < 7 * n"
    "0 \<le> f64 (of_int (y - padY) + ?dy)" "quot (float_to_int (f64 (of_int (y - padY) + ?dy))) scale < 13"
    using assms(1) unfolding inked_def source_x_def source_y_def Let_def by (simp_all only: not_less not_le split: if_splits) simp_all
  from source_inside [OF h(1,2) d(1)] source_inside [OF h(3,4) d(2)] assms(4,5) show ?thesis by simp
qed

text \<open>C40: The picture of a text can be read. It has 35 pixels of width per character; no part of a character, however
  the waves bend it, comes nearer than six pixels to the left and right edges and nine to the others, so
  nothing is cut off; and every pixel has its colour by the bent characters, except at most as many places as
  three lines and one dot for sixty pixels can cover, which have the half transparent one of the noise.\<close>

theorem picture_legible:
  assumes "draws_ok draw" "\<forall>v. \<bar>sine v\<bar> \<le> 1" "length s < 2 ^ 40" and n: "n = int (length s)"
  shows "\<exists>im S. Render sine grey draw png s = png im \<and> pc_w im = 24 + 35 * n \<and> pc_h im = 93 \<and>
    (\<forall>x y. inked sine (grey s) (draw_waves draw) n x y \<longrightarrow> 6 \<le> x \<and> x < pc_w im - 6 \<and> 9 \<le> y \<and> y < pc_h im - 9) \<and>
    finite S \<and> int (card S) \<le> 6 * max (pc_w im) (pc_h im) + pc_w im * pc_h im div 60 \<and>
    (\<forall>p. in_picture im p \<longrightarrow>
       pc_at im p = (if inked sine (grey s) (draw_waves draw) n (fst p) (snd p) then fg_colour else bg_colour) \<or>
       p \<in> S \<and> pc_at im p = line_colour fg_colour)"
proof -
  define im where "im = drawn sine (grey s) (draw_waves draw) n"
  note d = drawn_at [of sine "grey s" "draw_waves draw" n, folded im_def]
  let ?out = "noise draw 4 fg_colour im"
  have "touches (line_colour fg_colour) (6 * max (pc_w im) (pc_h im) + pc_w im * pc_h im div 60) im ?out"
    by (rule touches_noise [OF assms(1)]) (use d n in auto)
  then obtain S where S: "pc_w ?out = pc_w im" "pc_h ?out = pc_h im" "finite S"
    "int (card S) \<le> 6 * max (pc_w im) (pc_h im) + pc_w im * pc_h im div 60"
    "\<forall>p. p \<notin> S \<longrightarrow> pc_at ?out p = pc_at im p" "\<forall>p \<in> S. pc_at ?out p \<in> {line_colour fg_colour, pc_at im p}"
    unfolding touches_def by blast
  have "pc_at ?out p = (if inked sine (grey s) (draw_waves draw) n (fst p) (snd p) then fg_colour else bg_colour) \<or>
      p \<in> S \<and> pc_at ?out p = line_colour fg_colour" if "in_picture ?out p" for p
  proof -
    have "pc_at im p = (if inked sine (grey s) (draw_waves draw) n (fst p) (snd p) then fg_colour else bg_colour)"
      using d [of "fst p" "snd p"] that S(1,2) by (simp add: in_picture_def)
    moreover have "pc_at ?out p = pc_at im p \<or> p \<in> S \<and> pc_at ?out p = line_colour fg_colour" using S(5,6) by blast
    ultimately show ?thesis by simp
  qed
  moreover have "6 \<le> x \<and> x < pc_w ?out - 6 \<and> 9 \<le> y \<and> y < pc_h ?out - 9"
    if "inked sine (grey s) (draw_waves draw) n x y" for x y
    using ink_inside [OF that assms(1,2)] assms(3) d S(1,2) by (simp add: n)
  moreover have "Render sine grey draw png s = png ?out" by (simp add: Render_def im_def n)
  ultimately show ?thesis using S(1-4) d by (intro exI [of _ ?out] exI [of _ S]) simp
qed

lemma picture_legible_witness:
  "inked (\<lambda>_. 0) (\<lambda>_ _. 255) (draw_waves (\<lambda>_ _. None)) 1 12 14 \<and>
   Render (\<lambda>_. 0) (\<lambda>_ _ _. 255) (\<lambda>_ _. None) (\<lambda>im. if pc_w im = 59 then ''wide'' else []) ''a'' = ''wide''"
proof -
  let ?png = "\<lambda>im :: picture. if pc_w im = 59 then ''wide'' else []"
  have "draws_ok (\<lambda>_ _. None)" by (simp add: draws_ok_def)
  from picture_legible [OF this, of "\<lambda>_. 0" "''a''" 1 "\<lambda>_ _ _. 255" ?png]
  obtain im where "Render (\<lambda>_. 0) (\<lambda>_ _ _. 255) (\<lambda>_ _. None) ?png ''a'' = ?png im" "pc_w im = 59" by auto
  then have "Render (\<lambda>_. 0) (\<lambda>_ _ _. 255) (\<lambda>_ _. None) ?png ''a'' = ''wide''" by simp
  moreover have "inked (\<lambda>_. 0) (\<lambda>_ _. 255) (draw_waves (\<lambda>_ _. None)) 1 12 14"
    by (simp add: inked_def source_x_def source_y_def f64_def float_to_int_def quot_def)
  ultimately show ?thesis by blast
qed

end
