(* ===== verification/Strconv.thy ===== *)
theory Strconv
  imports Go_Float Base64 Netip Validate
begin

text \<open>
  The two parsers of the Go library the settings go through: \<open>strconv.Atoi\<close> and \<open>time.ParseDuration\<close>, written
  after their documentation and the Go sources. \<^const>\<open>None\<close> is any error. Durations and the 64-bit
  values on the way are \<^typ>\<open>int\<close>, with the overflow checks of the code; the fraction of a duration is
  computed in binary64.
\<close>

section \<open>Integers\<close>

definition digit_value :: "char \<Rightarrow> int" where
  "digit_value c = byte_of c - 48"

definition digits_value :: "string \<Rightarrow> int" where
  "digits_value s = foldl (\<lambda>n c. n * 10 + digit_value c) 0 s"

definition signed_parts :: "string \<Rightarrow> bool \<times> string" where
  "signed_parts s =
     (case s of
        [] \<Rightarrow> (False, [])
      | c # t \<Rightarrow> if c = CHR ''-'' then (True, t) else if c = CHR ''+'' then (False, t) else (False, s))"

definition Atoi :: "string \<Rightarrow> int option" where
  "Atoi s =
     (case signed_parts s of (neg, body) \<Rightarrow>
        if body = [] \<or> \<not> list_all digit_char body then None
        else let v = (if neg then - digits_value body else digits_value body)
             in if - (2 ^ 63) \<le> v \<and> v < 2 ^ 63 then Some v else None)"

lemma digits_value_snoc [simp]: "digits_value (s @ [c]) = digits_value s * 10 + digit_value c"
  by (simp add: digits_value_def)

lemma digit_of: "0 \<le> n \<Longrightarrow> n < 10 \<Longrightarrow> digit_value (char_of (48 + n)) = n \<and> digit_char (char_of (48 + n))"
  by (simp add: digit_value_def digit_char_def byte_of_char_of)

lemma dec_digits_value:
  "0 \<le> n \<Longrightarrow> digits_value (dec_digits n) = n \<and> list_all digit_char (dec_digits n) \<and> dec_digits n \<noteq> []"
proof (induction n rule: dec_digits.induct)
  case (1 n)
  show ?case
  proof (cases "n < 10")
    case True
    then show ?thesis using 1(2) digit_of [of n] by (simp add: dec_digits.simps [of n] digits_value_def)
  next
    case False
    then show ?thesis
      using 1 digit_of [of "n mod 10"] by (simp add: dec_digits.simps [of n])
  qed
qed

lemma digit_not_sign: "digit_char c \<Longrightarrow> c \<noteq> CHR ''-'' \<and> c \<noteq> CHR ''+''"
  by (auto simp: digit_char_def byte_of_def)

lemma atoi_dec:
  assumes "0 \<le> n" "n < 2 ^ 63"
  shows "Atoi (dec_digits n) = Some n"
proof -
  note d = dec_digits_value [OF assms(1)]
  then obtain c t where c: "dec_digits n = c # t" by (cases "dec_digits n") auto
  then have "signed_parts (dec_digits n) = (False, dec_digits n)"
    using d digit_not_sign [of c] by (simp add: signed_parts_def)
  then show ?thesis using d assms by (simp add: Atoi_def)
qed

section \<open>Durations\<close>

text \<open>\<open>leadingInt\<close>: the value of the leading digits and the rest; \<^const>\<open>None\<close> beyond 64 bits.\<close>

fun leadingInt :: "int \<Rightarrow> string \<Rightarrow> (int \<times> string) option" where
  "leadingInt x [] = Some (x, [])"
| "leadingInt x (c # s) =
     (if \<not> digit_char c then Some (x, c # s)
      else if x > 2 ^ 63 div 10 then None
      else let x = x * 10 + digit_value c
           in if x > 2 ^ 63 then None else leadingInt x s)"

text \<open>\<open>leadingFraction\<close>: digits that no longer fit are read and dropped.\<close>

fun leadingFraction :: "int \<Rightarrow> int \<Rightarrow> bool \<Rightarrow> string \<Rightarrow> int \<times> int \<times> string" where
  "leadingFraction x scale overflow [] = (x, scale, [])"
| "leadingFraction x scale overflow (c # s) =
     (if \<not> digit_char c then (x, scale, c # s)
      else if overflow \<or> x > (2 ^ 63 - 1) div 10 then leadingFraction x scale True s
      else let y = x * 10 + digit_value c
           in if y > 2 ^ 63 then leadingFraction x scale True s
              else leadingFraction y (scale * 10) False s)"

definition unit_of :: "string \<Rightarrow> int option" where
  "unit_of u = map_of
     [(''ns'', 1), (''us'', Microsecond), ([CHR 0xC2, CHR 0xB5, CHR ''s''], Microsecond),
      ([CHR 0xCE, CHR 0xBC, CHR ''s''], Microsecond), (''ms'', Millisecond), (''s'', Second), (''m'', Minute),
      (''h'', Hour)] u"

text \<open>One number with its unit: its nanoseconds and the rest.\<close>

definition duration_part :: "string \<Rightarrow> (int \<times> string) option" where
  "duration_part s =
     (if s = [] \<or> \<not> (hd s = CHR ''.'' \<or> digit_char (hd s)) then None
      else case leadingInt 0 s of
        None \<Rightarrow> None
      | Some (v, s1) \<Rightarrow>
          let pre = (length s1 \<noteq> length s);
              (f, scale, s2, post) =
                (if s1 \<noteq> [] \<and> hd s1 = CHR ''.''
                 then (case leadingFraction 0 1 False (tl s1) of
                         (f, scale, r) \<Rightarrow> (f, scale, r, length r \<noteq> length (tl s1)))
                 else (0, 1, s1, False));
              u = takeWhile (\<lambda>c. \<not> (c = CHR ''.'' \<or> digit_char c)) s2
          in if \<not> pre \<and> \<not> post then None
             else if u = [] then None
             else case unit_of u of
               None \<Rightarrow> None
             | Some unit \<Rightarrow>
                 if v > 2 ^ 63 div unit then None
                 else let v = v * unit;
                          v = (if f > 0
                               then v + float_to_int (f64 (f64 (of_int f) * f64 (of_int unit / f64 (of_int scale))))
                               else v)
                      in if f > 0 \<and> v > 2 ^ 63 then None else Some (v, drop (length u) s2))"

lemma leading_int_shorter: "leadingInt x s = Some (v, r) \<Longrightarrow> length r \<le> length s"
  by (induction x s rule: leadingInt.induct) (auto simp: Let_def split: if_splits)

lemma leading_fraction_shorter: "leadingFraction x c b s = (f, d, r) \<Longrightarrow> length r \<le> length s"
  by (induction x c b s rule: leadingFraction.induct) (auto simp: Let_def split: if_splits)

lemma duration_part_shorter:
  assumes "duration_part s = Some (v, r)"
  shows "length r < length s"
proof -
  obtain v0 s1 where i: "leadingInt 0 s = Some (v0, s1)"
    using assms by (auto simp: duration_part_def Let_def split: if_splits option.splits)
  obtain f sc r0 where fr: "leadingFraction 0 1 False (tl s1) = (f, sc, r0)" by (metis prod_cases3)
  let ?s2 = "if s1 \<noteq> [] \<and> hd s1 = CHR ''.'' then r0 else s1"
  have "length ?s2 \<le> length s"
    using leading_int_shorter [OF i] leading_fraction_shorter [OF fr] by auto
  moreover have "r = drop (length (takeWhile (\<lambda>c. \<not> (c = CHR ''.'' \<or> digit_char c)) ?s2)) ?s2 \<and>
      takeWhile (\<lambda>c. \<not> (c = CHR ''.'' \<or> digit_char c)) ?s2 \<noteq> []"
    using assms by (auto simp: duration_part_def Let_def i fr split: if_splits option.splits)
  ultimately show ?thesis by (cases ?s2) auto
qed

function duration_parts :: "int \<Rightarrow> string \<Rightarrow> int option" where
  "duration_parts d s =
     (if s = [] then Some d
      else case duration_part s of
        None \<Rightarrow> None
      | Some (v, r) \<Rightarrow>
          let d = (d + v) mod 2 ^ 64 in if d > 2 ^ 63 then None else duration_parts d r)"
  by pat_completeness auto
termination
  by (relation "measure (length \<circ> snd)") (auto dest: duration_part_shorter)

declare duration_parts.simps [simp del]

definition ParseDuration :: "string \<Rightarrow> duration option" where
  "ParseDuration s =
     (case signed_parts s of (neg, s) \<Rightarrow>
        if s = ''0'' then Some 0
        else if s = [] then None
        else case duration_parts 0 s of
          None \<Rightarrow> None
        | Some d \<Rightarrow> if neg then Some (- d) else if d > 2 ^ 63 - 1 then None else Some d)"

lemma duration_parts_nonneg: "duration_parts d s = Some v \<Longrightarrow> 0 \<le> d \<Longrightarrow> 0 \<le> v"
proof (induction d s rule: duration_parts.induct)
  case (1 d s)
  show ?case
  proof (cases "s = []")
    case True
    with 1 show ?thesis by (simp add: duration_parts.simps [of d "[]"])
  next
    case False
    with 1(2) obtain n r where r: "duration_part s = Some (n, r)" "duration_parts ((d + n) mod 2 ^ 64) r = Some v"
      "\<not> (d + n) mod 2 ^ 64 > 2 ^ 63"
      by (auto simp: duration_parts.simps [of d s] Let_def split: option.splits if_splits)
    show ?thesis by (rule "1.IH" [OF False r(1) refl refl r(3,2)]) simp
  qed
qed

end
