(* ===== verification/Conf_File.thy ===== *)
theory Conf_File
  imports Strconv Netip
begin

text \<open>
  \<open>internal/config/file.go\<close>: the settings file of the queue and of Redis (\<open>inspector.conf\<close>), line by line.

  Outside the code are \<open>net/url\<close>, of which \<open>isRedisURL\<close> uses the scheme and the host (\<open>url_parse\<close>), and
  the letters and digits beyond ASCII (\<open>uni_name\<close>). The name of the file every error starts with is left
  out; the line number is the error's first argument.
\<close>

abbreviation (input) "QueueFullDrop \<equiv> ''drop''"
abbreviation (input) "QueueFullWait \<equiv> ''wait''"
abbreviation (input) "QueueExpandOff \<equiv> ''off''"
abbreviation (input) "QueueExpandAsk \<equiv> ''ask''"

record queueFile =
  qf_max :: "int option"
  qf_full :: string
  qf_expand :: string
  qf_redis_url :: string
  qf_redis_internal :: string

record file_world =
  fw_url_parse :: "string \<Rightarrow> (string \<times> string) option"
  fw_uni_name :: "string \<Rightarrow> bool"

datatype line_error =
    MissingSemicolon
  | EmptyDirective
  | NoValue string
  | InvalidName string
  | OneValue string
  | SetTwice string
  | UnexpectedBrace
  | UnknownBlock string
  | BlockTwice string
  | BadQueueMax string
  | BadQueueFull string
  | BadQueueExpand string
  | UnknownDirective string
  | RedisTwice string
  | UnknownRedisKey string
  | BadRedisURL string string

datatype file_error =
    BadLine nat line_error
  | NotClosed nat string

section \<open>Lines\<close>

definition confText :: "string \<Rightarrow> string" where
  "confText line = trim_space (takeWhile (\<lambda>c. c \<noteq> CHR ''#'') line)"

definition requireSemicolon :: "string \<Rightarrow> line_error + string" where
  "requireSemicolon text =
     (if \<not> has_suffix text '';'' then Inl MissingSemicolon
      else Inr (trim_space (trim_suffix text '';'')))"

definition ascii :: "char \<Rightarrow> bool" where
  "ascii c \<longleftrightarrow> byte_of c < 128"

definition isConfName :: "file_world \<Rightarrow> string \<Rightarrow> bool" where
  "isConfName w s \<longleftrightarrow>
     s \<noteq> [] \<and> (if list_all ascii s then list_all (\<lambda>c. c = CHR ''_'' \<or> ascii_letter c \<or> digit_char c) s
               else fw_uni_name w s)"

definition splitDirective :: "file_world \<Rightarrow> string \<Rightarrow> line_error + string \<times> string" where
  "splitDirective w stmt =
     (let stmt = trim_space stmt
      in if stmt = [] then Inl EmptyDirective
         else case cut stmt (CHR '' '') of (key, rest, ok) \<Rightarrow>
           if \<not> ok then Inl (NoValue stmt)
           else if \<not> isConfName w key then Inl (InvalidName key)
           else let v = trim_space rest
                in if v = [] \<or> contains_any v [CHR '' '', CHR 0x09] then Inl (OneValue key)
                   else Inr (key, v))"

definition isRedisURL :: "file_world \<Rightarrow> string \<Rightarrow> bool" where
  "isRedisURL w s \<longleftrightarrow>
     (case fw_url_parse w s of
        None \<Rightarrow> False
      | Some (scheme, host) \<Rightarrow> host \<noteq> [] \<and> (scheme = ''redis'' \<or> scheme = ''rediss''))"

section \<open>The file\<close>

text \<open>The block that is open, with the line it was opened at.\<close>

record file_state =
  fs_out :: queueFile
  fs_seen :: "string list"
  fs_block :: string
  fs_opened :: nat

definition parseRedisKey :: "file_world \<Rightarrow> string \<Rightarrow> file_state \<Rightarrow> line_error + file_state" where
  "parseRedisKey w text st =
     (case requireSemicolon text of
        Inl e \<Rightarrow> Inl e
      | Inr stmt \<Rightarrow>
          (case splitDirective w stmt of
             Inl e \<Rightarrow> Inl e
           | Inr (key, v) \<Rightarrow>
               let rid = ''redis.'' @ key
               in if rid \<in> set (fs_seen st) then Inl (RedisTwice key)
                  else if key \<noteq> ''url'' \<and> key \<noteq> ''internal'' then Inl (UnknownRedisKey key)
                  else if \<not> isRedisURL w v then Inl (BadRedisURL key v)
                  else Inr (st\<lparr>fs_seen := rid # fs_seen st,
                        fs_out := (if key = ''url'' then (fs_out st)\<lparr>qf_redis_url := v\<rparr>
                                   else (fs_out st)\<lparr>qf_redis_internal := v\<rparr>)\<rparr>)))"

definition set_directive :: "string \<Rightarrow> string \<Rightarrow> queueFile \<Rightarrow> line_error + queueFile" where
  "set_directive key v out =
     (if key = ''queue_max''
      then (case Atoi v of
              None \<Rightarrow> Inl (BadQueueMax v)
            | Some n \<Rightarrow> if n < 1 then Inl (BadQueueMax v) else Inr (out\<lparr>qf_max := Some n\<rparr>))
      else if key = ''queue_full''
      then (if v = QueueFullDrop \<or> v = QueueFullWait then Inr (out\<lparr>qf_full := v\<rparr>) else Inl (BadQueueFull v))
      else if key = ''queue_expand''
      then (if v = QueueExpandOff \<or> v = QueueExpandAsk then Inr (out\<lparr>qf_expand := v\<rparr>) else Inl (BadQueueExpand v))
      else Inl (UnknownDirective key))"

definition parse_line :: "file_world \<Rightarrow> nat \<Rightarrow> string \<Rightarrow> file_state \<Rightarrow> line_error + file_state" where
  "parse_line w n line st =
     (let text = confText line
      in if text = [] then Inr st
         else if fs_block st \<noteq> []
         then (if text = ''}'' then Inr (st\<lparr>fs_block := []\<rparr>) else parseRedisKey w text st)
         else if text = ''}'' then Inl UnexpectedBrace
         else if has_suffix text ''{''
         then (let head = trim_space (trim_suffix text ''{'')
               in if head \<noteq> ''redis'' then Inl (UnknownBlock head)
                  else if head \<in> set (fs_seen st) then Inl (BlockTwice head)
                  else Inr (st\<lparr>fs_seen := head # fs_seen st, fs_block := head, fs_opened := n\<rparr>))
         else case requireSemicolon text of
           Inl e \<Rightarrow> Inl e
         | Inr stmt \<Rightarrow>
             (case splitDirective w stmt of
                Inl e \<Rightarrow> Inl e
              | Inr (key, v) \<Rightarrow>
                  if key \<in> set (fs_seen st) then Inl (SetTwice key)
                  else (case set_directive key v (fs_out st) of
                          Inl e \<Rightarrow> Inl e
                        | Inr out \<Rightarrow> Inr (st\<lparr>fs_seen := key # fs_seen st, fs_out := out\<rparr>))))"

fun parse_lines :: "file_world \<Rightarrow> nat \<Rightarrow> string list \<Rightarrow> file_state \<Rightarrow> file_error + file_state" where
  "parse_lines w n [] st = Inr st"
| "parse_lines w n (line # ls) st =
     (case parse_line w n line st of
        Inl e \<Rightarrow> Inl (BadLine n e)
      | Inr st \<Rightarrow> parse_lines w (Suc n) ls st)"

definition parseQueueFile :: "file_world \<Rightarrow> string \<Rightarrow> file_error + queueFile" where
  "parseQueueFile w src =
     (case parse_lines w 1 (split_on (CHR 0x0A) src)
             \<lparr>fs_out = \<lparr>qf_max = None, qf_full = [], qf_expand = [], qf_redis_url = [], qf_redis_internal = []\<rparr>,
              fs_seen = [], fs_block = [], fs_opened = 0\<rparr> of
        Inl e \<Rightarrow> Inl e
      | Inr st \<Rightarrow> if fs_block st \<noteq> [] then Inl (NotClosed (fs_opened st) (fs_block st)) else Inr (fs_out st))"

section \<open>Applying it\<close>

record queueSettings =
  qs_max :: int
  qs_full :: string
  qs_expand :: string

definition applyQueueFile :: "queueSettings \<Rightarrow> queueFile \<Rightarrow> queueSettings" where
  "applyQueueFile c f =
     c\<lparr>qs_max := (case qf_max f of None \<Rightarrow> qs_max c | Some n \<Rightarrow> n),
       qs_full := (if qf_full f \<noteq> [] then qf_full f else qs_full c),
       qs_expand := (if qf_expand f \<noteq> [] then qf_expand f else qs_expand c)\<rparr>"

section \<open>What a file may say\<close>

definition file_ok :: "file_world \<Rightarrow> queueFile \<Rightarrow> bool" where
  "file_ok w f \<longleftrightarrow>
     (\<forall>n. qf_max f = Some n \<longrightarrow> 1 \<le> n \<and> n < 2 ^ 63) \<and>
     qf_full f \<in> {[], QueueFullDrop, QueueFullWait} \<and> qf_expand f \<in> {[], QueueExpandOff, QueueExpandAsk} \<and>
     (\<forall>url \<in> {qf_redis_url f, qf_redis_internal f}. url = [] \<or> isRedisURL w url)"

lemma atoi_range: "Atoi s = Some n \<Longrightarrow> - (2 ^ 63) \<le> n \<and> n < 2 ^ 63"
  by (auto simp: Atoi_def Let_def split: prod.splits if_splits)

lemma set_directive_fields:
  assumes "set_directive key v out = Inr out'"
  shows "(\<exists>n. 1 \<le> n \<and> n < 2 ^ 63 \<and> out' = out\<lparr>qf_max := Some n\<rparr>) \<or>
    (v \<in> {QueueFullDrop, QueueFullWait} \<and> out' = out\<lparr>qf_full := v\<rparr>) \<or>
    (v \<in> {QueueExpandOff, QueueExpandAsk} \<and> out' = out\<lparr>qf_expand := v\<rparr>)"
proof -
  consider (max) "key = ''queue_max''" | (full) "key = ''queue_full''" | (expand) "key = ''queue_expand''"
    | (other) "key \<noteq> ''queue_max''" "key \<noteq> ''queue_full''" "key \<noteq> ''queue_expand''" by blast
  then show ?thesis
  proof cases
    case max
    then show ?thesis
      using assms atoi_range [of v] by (cases "Atoi v") (simp_all add: set_directive_def split: if_splits, force)
  next
    case full
    then have "(if v = QueueFullDrop \<or> v = QueueFullWait then Inr (out\<lparr>qf_full := v\<rparr>) else Inl (BadQueueFull v)) = Inr out'"
      using assms by (simp add: set_directive_def)
    then show ?thesis by (metis insertCI sum.distinct(1) sum.inject(2))
  next
    case expand
    then have "(if v = QueueExpandOff \<or> v = QueueExpandAsk then Inr (out\<lparr>qf_expand := v\<rparr>) else Inl (BadQueueExpand v)) = Inr out'"
      using assms by (simp add: set_directive_def)
    then show ?thesis by (metis insertCI sum.distinct(1) sum.inject(2))
  next
    case other
    then show ?thesis using assms unfolding set_directive_def by simp
  qed
qed

lemma set_directive_ok:
  assumes "set_directive key v out = Inr out'" "file_ok w out"
  shows "file_ok w out'"
  using set_directive_fields [OF assms(1)]
proof (elim disjE exE conjE)
  fix n
  assume "1 \<le> n" "n < 2 ^ 63" "out' = out\<lparr>qf_max := Some n\<rparr>"
  then show ?thesis using assms(2) by (simp add: file_ok_def)
qed (use assms(2) in \<open>simp_all add: file_ok_def\<close>)

lemma parse_redis_url:
  assumes "parseRedisKey w text st = Inr st'"
  shows "\<exists>v. isRedisURL w v \<and>
    (fs_out st' = (fs_out st)\<lparr>qf_redis_url := v\<rparr> \<or> fs_out st' = (fs_out st)\<lparr>qf_redis_internal := v\<rparr>)"
proof -
  obtain stmt key v where s: "requireSemicolon text = Inr stmt" "splitDirective w stmt = Inr (key, v)"
    using assms by (auto simp: parseRedisKey_def split: sum.splits)
  then have "isRedisURL w v \<and>
      st' = st\<lparr>fs_seen := (''redis.'' @ key) # fs_seen st,
        fs_out := (if key = ''url'' then (fs_out st)\<lparr>qf_redis_url := v\<rparr> else (fs_out st)\<lparr>qf_redis_internal := v\<rparr>)\<rparr>"
    using assms unfolding parseRedisKey_def s sum.case prod.case Let_def by (metis sum.distinct(1) sum.inject(2))
  then show ?thesis by (intro exI [of _ v]) simp
qed

lemma parse_redis_ok: "parseRedisKey w text st = Inr st' \<Longrightarrow> file_ok w (fs_out st) \<Longrightarrow> file_ok w (fs_out st')"
  by (drule parse_redis_url) (auto simp: file_ok_def)

lemma parse_line_cases:
  assumes "parse_line w n line st = Inr st'"
  shows "fs_out st' = fs_out st \<or> parseRedisKey w (confText line) st = Inr st' \<or>
     (\<exists>key v. set_directive key v (fs_out st) = Inr (fs_out st'))"
proof -
  let ?t = "confText line"
  consider (empty) "?t = []" | (shut) "?t \<noteq> []" "fs_block st \<noteq> []" "?t = ''}''"
    | (inner) "?t \<noteq> []" "fs_block st \<noteq> []" "?t \<noteq> ''}''"
    | (stray) "fs_block st = []" "?t = ''}''"
    | (head) "?t \<noteq> []" "fs_block st = []" "?t \<noteq> ''}''" "has_suffix ?t ''{''"
    | (line) "?t \<noteq> []" "fs_block st = []" "?t \<noteq> ''}''" "\<not> has_suffix ?t ''{''"
    by blast
  then show ?thesis
  proof cases
    case head
    then show ?thesis using assms by (auto simp: parse_line_def Let_def split: if_splits)
  next
    case shut
    then show ?thesis using assms by (auto simp: parse_line_def Let_def)
  next
    case line
    obtain stmt key v where s: "requireSemicolon ?t = Inr stmt" "splitDirective w stmt = Inr (key, v)"
      using assms line by (simp add: parse_line_def Let_def split: sum.splits prod.splits)
    then show ?thesis
      using assms line by (cases "set_directive key v (fs_out st)")
        (auto simp: parse_line_def Let_def split: if_splits)
  qed (use assms in \<open>simp_all add: parse_line_def Let_def\<close>)
qed

lemma parse_line_ok: "parse_line w n line st = Inr st' \<Longrightarrow> file_ok w (fs_out st) \<Longrightarrow> file_ok w (fs_out st')"
  using parse_line_cases set_directive_ok parse_redis_ok by metis

lemma parse_lines_ok:
  "parse_lines w n ls st = Inr st' \<Longrightarrow> file_ok w (fs_out st) \<Longrightarrow> file_ok w (fs_out st')"
  by (induction w n ls st rule: parse_lines.induct) (auto dest: parse_line_ok split: sum.splits)

lemma parsed_file_ok: "parseQueueFile w src = Inr f \<Longrightarrow> file_ok w f"
  by (auto simp: parseQueueFile_def file_ok_def dest!: parse_lines_ok split: sum.splits if_splits)

section \<open>A file for every setting\<close>

definition directive :: "string \<Rightarrow> string \<Rightarrow> string" where
  "directive key v = key @ '' '' @ v @ '';''"

definition opt_line :: "string \<Rightarrow> string \<Rightarrow> string list" where
  "opt_line key v = (if v = [] then [] else [directive key v])"

definition max_text :: "queueFile \<Rightarrow> string" where
  "max_text f = (case qf_max f of None \<Rightarrow> [] | Some n \<Rightarrow> dec_digits n)"

definition conf_lines :: "queueFile \<Rightarrow> string list" where
  "conf_lines f =
     opt_line ''queue_max'' (max_text f) @ opt_line ''queue_full'' (qf_full f) @
     opt_line ''queue_expand'' (qf_expand f) @ ''redis {'' # opt_line ''url'' (qf_redis_url f) @
     opt_line ''internal'' (qf_redis_internal f) @ [''}'']"

definition conf_text :: "queueFile \<Rightarrow> string" where
  "conf_text f = join_with [CHR 0x0A] (conf_lines f)"

text \<open>A value that can be written in a file: printable, without a comment sign.\<close>

definition plain_value :: "string \<Rightarrow> bool" where
  "plain_value v \<longleftrightarrow> v \<noteq> [] \<and> list_all graphic v \<and> CHR ''#'' \<notin> set v"

lemma split_on_skip: "sep \<notin> set l \<Longrightarrow> split_on sep (l @ sep # s) = l # split_on sep s"
  by (induction l) (auto split: list.split)

lemma split_on_last: "sep \<notin> set l \<Longrightarrow> split_on sep l = [l]"
  by (induction l) (auto split: list.split)

lemma split_on_join:
  "ls \<noteq> [] \<Longrightarrow> \<forall>l \<in> set ls. sep \<notin> set l \<Longrightarrow> split_on sep (join_with [sep] ls) = ls"
  by (induction "[sep]" ls rule: join_with.induct) (auto simp: split_on_skip split_on_last)

lemma graphic_not_space: "graphic c \<Longrightarrow> c \<noteq> CHR '' '' \<and> c \<noteq> CHR 0x0A \<and> c \<noteq> CHR 0x09"
  by (auto simp: graphic_def byte_of_def)

lemma plain_trim: "list_all graphic s \<Longrightarrow> trim_space s = s"
  by (rule trim_space_graphic)

lemma trim_directive:
  assumes "key \<noteq> []" "list_all graphic key" "list_all graphic v"
  shows "trim_space (directive key v) = directive key v"
    "v \<noteq> [] \<Longrightarrow> trim_space (key @ '' '' @ v) = key @ '' '' @ v"
proof -
  have h: "graphic (hd key)" using assms(1,2) by (cases key) auto
  show "trim_space (directive key v) = directive key v"
    using assms(1) h by (intro trim_space_ends) (simp add: directive_def graphic_def byte_of_def)
  show "trim_space (key @ '' '' @ v) = key @ '' '' @ v" if "v \<noteq> []"
  proof -
    have "graphic (last v)" using that assms(3) by (auto simp: list_all_iff)
    then show ?thesis using assms(1) h that by (intro trim_space_ends) simp
  qed
qed

lemma no_comment: "CHR ''#'' \<notin> set s \<Longrightarrow> takeWhile (\<lambda>c. c \<noteq> CHR ''#'') s = s"
  by (induction s) auto

lemma read_directive:
  assumes key: "key \<noteq> []" "list_all graphic key" "CHR ''#'' \<notin> set key" "isConfName w key"
    and v: "plain_value v"
  shows "confText (directive key v) = directive key v" "directive key v \<noteq> []" "directive key v \<noteq> ''}''"
    "\<not> has_suffix (directive key v) ''{''"
    "requireSemicolon (directive key v) = Inr (key @ '' '' @ v)" "splitDirective w (key @ '' '' @ v) = Inr (key, v)"
proof -
  have g: "list_all graphic v" "v \<noteq> []" "CHR ''#'' \<notin> set v" using v by (auto simp: plain_value_def)
  have "CHR ''#'' \<notin> set (directive key v)" using key(3) g(3) by (simp add: directive_def)
  then show "confText (directive key v) = directive key v"
    using trim_directive(1) [OF key(1,2) g(1)] by (simp add: confText_def no_comment)
  show "directive key v \<noteq> []" "directive key v \<noteq> ''}''" using key(1) by (simp_all add: directive_def append_eq_Cons_conv)
  show "\<not> has_suffix (directive key v) ''{''"
  proof
    assume "has_suffix (directive key v) ''{''"
    then have "last (directive key v) = CHR ''{''" by (auto simp: has_suffix_iff)
    then show False by (simp add: directive_def)
  qed
  have "trim_suffix (directive key v) '';'' = key @ '' '' @ v"
    using trim_suffix_append [of "key @ '' '' @ v" "'';''"] by (simp add: directive_def)
  then show "requireSemicolon (directive key v) = Inr (key @ '' '' @ v)"
    using trim_directive(2) [OF key(1,2) g(1,2)]
    by (simp add: requireSemicolon_def has_suffix_iff directive_def)
  have c: "cut (key @ CHR '' '' # v) (CHR '' '') = (key, v, True)"
    using key(2) cut_append [of "CHR '' ''" key v] by (force simp: list_all_iff dest: graphic_not_space)
  have n: "\<not> contains_any v [CHR '' '', CHR 0x09]"
    using g(1) by (auto simp: contains_any_def list_all_iff dest: graphic_not_space)
  show "splitDirective w (key @ '' '' @ v) = Inr (key, v)"
    using trim_directive(2) [OF key(1,2) g(1,2)] plain_trim [OF g(1)] key(1,4) g(2) n
    by (simp add: splitDirective_def Let_def c)
qed

text \<open>A key of the file, and the states that reading a line leads to.\<close>

definition plain_key :: "string \<Rightarrow> bool" where
  "plain_key key \<longleftrightarrow> key \<noteq> [] \<and> list_all (\<lambda>c. c = CHR ''_'' \<or> ascii_letter c) key"

lemma key_char: "c = CHR ''_'' \<or> ascii_letter c \<Longrightarrow> graphic c \<and> ascii c \<and> c \<noteq> CHR ''#''"
  by (elim disjE) (auto simp: graphic_def ascii_def ascii_letter_def upper_letter_def byte_of_def)

lemma plain_key_facts:
  assumes "plain_key key"
  shows "key \<noteq> []" "list_all graphic key" "CHR ''#'' \<notin> set key" "isConfName w key"
proof -
  have k: "key \<noteq> []" "\<forall>c \<in> set key. c = CHR ''_'' \<or> ascii_letter c" using assms by (auto simp: plain_key_def list_all_iff)
  show "key \<noteq> []" by (rule k(1))
  show "list_all graphic key" "CHR ''#'' \<notin> set key" using k(2) key_char by (auto simp: list_all_iff)
  have "list_all ascii key" "list_all (\<lambda>c. c = CHR ''_'' \<or> ascii_letter c \<or> digit_char c) key"
    using k(2) key_char by (auto simp: list_all_iff)
  then show "isConfName w key" using k(1) by (simp add: isConfName_def)
qed

definition tag :: "string \<Rightarrow> string \<Rightarrow> string list" where
  "tag key v = (if v = [] then [] else [key])"

lemma read_top:
  assumes "plain_key key" "key \<notin> set seen" "v = [] \<Longrightarrow> out' = out"
    "v \<noteq> [] \<Longrightarrow> plain_value v \<and> set_directive key v out = Inr out'"
  shows "parse_lines w n (opt_line key v @ rest) \<lparr>fs_out = out, fs_seen = seen, fs_block = [], fs_opened = k\<rparr> =
    parse_lines w (n + length (tag key v)) rest
      \<lparr>fs_out = out', fs_seen = tag key v @ seen, fs_block = [], fs_opened = k\<rparr>"
proof (cases "v = []")
  case False
  then have v: "plain_value v" "set_directive key v out = Inr out'" using assms(4) by auto
  note l = read_directive [OF plain_key_facts [OF assms(1)] v(1)]
  show ?thesis
    using False assms(2) l v(2) by (simp add: opt_line_def tag_def parse_line_def Let_def)
qed (use assms(3) in \<open>simp add: opt_line_def tag_def\<close>)

lemma read_inner:
  assumes "key = ''url'' \<or> key = ''internal''" "''redis.'' @ key \<notin> set seen" "v = [] \<or> plain_value v \<and> isRedisURL w v"
    "v = [] \<Longrightarrow> out' = out"
    "v \<noteq> [] \<Longrightarrow> out' = (if key = ''url'' then out\<lparr>qf_redis_url := v\<rparr> else out\<lparr>qf_redis_internal := v\<rparr>)"
    "blk \<noteq> []"
  shows "parse_lines w n (opt_line key v @ rest) \<lparr>fs_out = out, fs_seen = seen, fs_block = blk, fs_opened = k\<rparr> =
    parse_lines w (n + length (tag key v)) rest
      \<lparr>fs_out = out', fs_seen = tag (''redis.'' @ key) v @ seen, fs_block = blk, fs_opened = k\<rparr>"
proof (cases "v = []")
  case False
  then have v: "plain_value v" "isRedisURL w v" using assms(3) by auto
  have "plain_key key" using assms(1) by (auto simp: plain_key_def ascii_letter_def byte_of_def)
  note l = read_directive [OF plain_key_facts [OF this] v(1)]
  have "parseRedisKey w (directive key v) \<lparr>fs_out = out, fs_seen = seen, fs_block = blk, fs_opened = k\<rparr> =
      Inr \<lparr>fs_out = out', fs_seen = (''redis.'' @ key) # seen, fs_block = blk, fs_opened = k\<rparr>"
    unfolding parseRedisKey_def l sum.case prod.case Let_def using assms(1,2) v(2) assms(5) [OF False] by simp
  then show ?thesis
    using False assms(6) l by (simp add: opt_line_def tag_def parse_line_def Let_def)
qed (use assms(4) in \<open>simp add: opt_line_def tag_def\<close>)

lemma plain_digits: "0 \<le> n \<Longrightarrow> plain_value (dec_digits n)"
  using dec_digits_value [of n] by (auto simp: plain_value_def list_all_iff digit_char_def graphic_def byte_of_def)

lemma plain_words:
  "plain_value QueueFullDrop" "plain_value QueueFullWait" "plain_value QueueExpandOff" "plain_value QueueExpandAsk"
  by code_simp+

abbreviation (input) "empty_file \<equiv>
  \<lparr>qf_max = None, qf_full = [], qf_expand = [], qf_redis_url = [], qf_redis_internal = []\<rparr>"

lemma read_head:
  assumes "''redis'' \<notin> set seen"
  shows "parse_lines w n (''redis {'' # rest) \<lparr>fs_out = out, fs_seen = seen, fs_block = [], fs_opened = k\<rparr> =
    parse_lines w (Suc n) rest \<lparr>fs_out = out, fs_seen = ''redis'' # seen, fs_block = ''redis'', fs_opened = n\<rparr>"
proof -
  have "confText ''redis {'' = ''redis {''" "has_suffix ''redis {'' ''{''" "trim_space (trim_suffix ''redis {'' ''{'') = ''redis''"
    by code_simp+
  then show ?thesis using assms by (simp add: parse_line_def Let_def)
qed

lemma read_shut:
  assumes "blk \<noteq> []"
  shows "parse_lines w n [''}''] \<lparr>fs_out = out, fs_seen = seen, fs_block = blk, fs_opened = k\<rparr> =
    Inr \<lparr>fs_out = out, fs_seen = seen, fs_block = [], fs_opened = k\<rparr>"
proof -
  have "confText ''}'' = ''}''" by code_simp
  then show ?thesis using assms by (simp add: parse_line_def Let_def)
qed

lemma plain_keys: "plain_key ''queue_max''" "plain_key ''queue_full''" "plain_key ''queue_expand''"
  by code_simp+

lemma conf_lines_one: "conf_lines f \<noteq> [] \<and>
    (file_ok w f \<longrightarrow> (\<forall>url \<in> {qf_redis_url f, qf_redis_internal f}. url = [] \<or> plain_value url) \<longrightarrow>
     (\<forall>l \<in> set (conf_lines f). CHR 0x0A \<notin> set l))"
proof -
  have d: "CHR 0x0A \<notin> set (directive key v)" if "plain_key key" "plain_value v" for key v
    using that plain_key_facts(2) [of key]
    by (auto simp: directive_def plain_value_def list_all_iff dest: graphic_not_space)
  have o: "CHR 0x0A \<notin> set l" if "l \<in> set (opt_line key v)" "plain_key key" "v = [] \<or> plain_value v" for l key v
    using that d by (auto simp: opt_line_def split: if_splits)
  have u: "plain_key ''url''" "plain_key ''internal''" by code_simp+
  have m: "max_text f = [] \<or> plain_value (max_text f)" if "file_ok w f"
    using that plain_digits by (auto simp: max_text_def file_ok_def split: option.splits)
  have fe: "qf_full f = [] \<or> plain_value (qf_full f)" "qf_expand f = [] \<or> plain_value (qf_expand f)" if "file_ok w f"
    using that plain_words by (auto simp: file_ok_def)
  show ?thesis
    using o m fe plain_keys u by (auto simp: conf_lines_def)
qed

lemma written_file_reads:
  assumes ok: "file_ok w f" and plain: "\<forall>url \<in> {qf_redis_url f, qf_redis_internal f}. url = [] \<or> plain_value url"
  shows "parseQueueFile w (conf_text f) = Inr f"
proof -
  let ?o1 = "empty_file\<lparr>qf_max := qf_max f\<rparr>"
  let ?o2 = "?o1\<lparr>qf_full := qf_full f\<rparr>"
  let ?o3 = "?o2\<lparr>qf_expand := qf_expand f\<rparr>"
  let ?o4 = "?o3\<lparr>qf_redis_url := qf_redis_url f\<rparr>"
  have sp: "split_on (CHR 0x0A) (conf_text f) = conf_lines f"
    using conf_lines_one [of f w] ok plain unfolding conf_text_def by (intro split_on_join) simp_all
  have m: "max_text f = [] \<Longrightarrow> ?o1 = empty_file"
    "max_text f \<noteq> [] \<Longrightarrow> plain_value (max_text f) \<and> set_directive ''queue_max'' (max_text f) empty_file = Inr ?o1"
    using ok dec_digits_value plain_digits atoi_dec
    by (force simp: max_text_def file_ok_def set_directive_def split: option.splits)+
  have fl: "qf_full f \<noteq> [] \<Longrightarrow> plain_value (qf_full f) \<and> set_directive ''queue_full'' (qf_full f) ?o1 = Inr ?o2"
    using ok plain_words by (auto simp: file_ok_def set_directive_def)
  have ex: "qf_expand f \<noteq> [] \<Longrightarrow> plain_value (qf_expand f) \<and> set_directive ''queue_expand'' (qf_expand f) ?o2 = Inr ?o3"
    using ok plain_words by (auto simp: file_ok_def set_directive_def)
  show ?thesis
    unfolding parseQueueFile_def sp conf_lines_def
    apply (subst read_top [where out' = ?o1], (use m plain_keys in simp_all)[4])
    apply (subst read_top [where out' = ?o2], (use fl plain_keys in \<open>simp_all add: tag_def\<close>)[4])
    apply (subst read_top [where out' = ?o3], (use ex plain_keys in \<open>simp_all add: tag_def\<close>)[4])
    apply (subst read_head, simp add: tag_def)
    apply (subst read_inner [where out' = ?o4], (use ok plain in \<open>auto simp: tag_def file_ok_def\<close>)[6])
    apply (subst read_inner [where out' = f], (use ok plain in \<open>auto simp: tag_def file_ok_def\<close>)[6])
    apply (subst read_shut)
    apply simp_all
    done
qed

text \<open>C21: The settings file is read exactly. Whatever \<open>parseQueueFile\<close> accepts carries only settings the service
  can run with: a positive queue depth that fits an \<open>int\<close>, one of the words of \<open>queue_full\<close> and of
  \<open>queue_expand\<close>, and a Redis address that is one. And every such file can be written: the directives spelled
  out one per line with their \<open>redis\<close> block (\<^const>\<open>conf_text\<close>) are read back as exactly that file, with no
  directive lost, overridden or taken twice, for every address without blanks, controls and comment signs.
\<close>

theorem conf_file_exact:
  "(parseQueueFile w src = Inr f \<longrightarrow> file_ok w f) \<and>
   (file_ok w f \<and> (\<forall>url \<in> {qf_redis_url f, qf_redis_internal f}. url = [] \<or> plain_value url) \<longrightarrow>
    parseQueueFile w (conf_text f) = Inr f)"
  using parsed_file_ok [of w src f] written_file_reads [of w f] by blast

abbreviation "sample_file \<equiv>
  \<lparr>qf_max = Some 64, qf_full = QueueFullWait, qf_expand = QueueExpandAsk,
   qf_redis_url = ''redis://r:6379'', qf_redis_internal = []\<rparr>"

abbreviation "toy_url_parse s \<equiv>
  (if has_prefix s ''redis://'' then Some (''redis'', drop 8 s) else None)"

lemma conf_file_exact_witness:
  "parseQueueFile \<lparr>fw_url_parse = \<lambda>s. toy_url_parse s, fw_uni_name = \<lambda>_. False\<rparr> (conf_text sample_file) =
     Inr sample_file \<and>
   conf_text sample_file = ''queue_max 64;'' @ [CHR 0x0A] @ ''queue_full wait;'' @ [CHR 0x0A] @
     ''queue_expand ask;'' @ [CHR 0x0A] @ ''redis {'' @ [CHR 0x0A] @ ''url redis://r:6379;'' @ [CHR 0x0A] @ ''}'' \<and>
   file_ok \<lparr>fw_url_parse = \<lambda>s. toy_url_parse s, fw_uni_name = \<lambda>_. False\<rparr> sample_file"
proof -
  let ?w = "\<lparr>fw_url_parse = \<lambda>s. toy_url_parse s, fw_uni_name = \<lambda>_. False\<rparr>"
  have t: "conf_text sample_file = ''queue_max 64;'' @ [CHR 0x0A] @ ''queue_full wait;'' @ [CHR 0x0A] @
     ''queue_expand ask;'' @ [CHR 0x0A] @ ''redis {'' @ [CHR 0x0A] @ ''url redis://r:6379;'' @ [CHR 0x0A] @ ''}''"
    by code_simp
  have r: "isRedisURL ?w ''redis://r:6379''" by code_simp
  have p: "plain_value ''redis://r:6379''" by code_simp
  have ok: "file_ok ?w sample_file" using r by (simp add: file_ok_def)
  show ?thesis
    using conf_file_exact [of ?w "[]" sample_file] t ok p by simp
qed

end
