(* ===== verification/Config.thy ===== *)
theory Config
  imports Conf_File Token
begin

text \<open>
  \<open>internal/config/config.go\<close> and \<open>logship.go\<close>: the settings both processes read from the environment, with
  the settings file of \<open>Conf_File\<close> between the environment and the defaults, and their validation.

  The environment, the file system, the number of processors, the level names of \<open>loglevel\<close> and the cipher
  are the outside (\<open>config_world\<close>).
\<close>

abbreviation (input) "RoleInspector \<equiv> ''inspector''"
abbreviation (input) "RoleHTTP \<equiv> ''http''"
abbreviation (input) "InternalFromExchange \<equiv> ''exchange''"

record config_world =
  cw_lookup :: "string \<Rightarrow> string option"
  cw_read :: "string \<Rightarrow> string option"
  cw_is_dir :: "string \<Rightarrow> bool option"
  cw_abs :: "string \<Rightarrow> string option"
  cw_procs :: int
  cw_file :: file_world
  cw_level :: "string \<Rightarrow> int option"
  cw_gcm :: "string \<Rightarrow> aead option"
  cw_json :: token_json

record config =
  cf_role :: string
  cf_servers :: "string list"
  cf_subject :: string
  cf_name :: string
  cf_queue :: string
  cf_profiles_dir :: string
  cf_data_dir :: string
  cf_web_dir :: string
  cf_key_file :: string
  cf_key :: "token_key option"
  cf_redis_url :: string
  cf_internal_url :: string
  cf_internal_from :: string
  cf_store_timeout :: duration
  cf_geo_addr :: string
  cf_geo_timeout :: duration
  cf_geo_neg_max :: int
  cf_http_url :: string
  cf_controller_url :: string
  cf_scope :: string
  cf_contour_key_file :: string
  cf_listen :: string
  cf_cookie_secure :: bool
  cf_real_ip_header :: string
  cf_reload_every :: duration
  cf_workers :: int
  cf_queue_depth :: int
  cf_queue_full :: string
  cf_queue_expand :: string
  cf_conf_path :: string
  cf_reserve_ms :: int
  cf_min_budget_ms :: int
  cf_versions :: "int list"
  cf_log_level :: int
  cf_heartbeat_every :: duration

datatype config_error =
    NotAnInt string
  | NotADuration string
  | NotPositive string
  | BadLevel
  | ConfUnreadable string
  | ConfBad string file_error
  | Empty string
  | KeyUnreadable
  | KeyBad key_error
  | NoPath string
  | NotADir string
  | UnknownRole string
  | BadWorkers int
  | BadQueueDepth int
  | BadFull string
  | BadExpand string
  | NegativeBudget

definition and_then :: "'e + 'a \<Rightarrow> ('a \<Rightarrow> 'e + 'b) \<Rightarrow> 'e + 'b" where
  "and_then m f = (case m of Inl e \<Rightarrow> Inl e | Inr x \<Rightarrow> f x)"

lemma and_then_Inr: "and_then m f = Inr y \<longleftrightarrow> (\<exists>x. m = Inr x \<and> f x = Inr y)"
  by (cases m) (auto simp: and_then_def)

section \<open>The environment\<close>

definition env :: "config_world \<Rightarrow> string \<Rightarrow> string \<Rightarrow> string" where
  "env w name def = (case cw_lookup w name of Some v \<Rightarrow> if v \<noteq> [] then v else def | None \<Rightarrow> def)"

definition envBool :: "config_world \<Rightarrow> string \<Rightarrow> bool \<Rightarrow> bool" where
  "envBool w name def =
     (case cw_lookup w name of
        None \<Rightarrow> def
      | Some raw \<Rightarrow>
          if raw = [] then def
          else let s = to_lower (trim_space raw)
               in if s \<in> set [''1'', ''on'', ''true'', ''yes''] then True
                  else if s \<in> set [''0'', ''off'', ''false'', ''no''] then False
                  else def)"

definition envIntIfSet :: "config_world \<Rightarrow> string \<Rightarrow> int \<Rightarrow> config_error + int" where
  "envIntIfSet w name def =
     (case cw_lookup w name of
        None \<Rightarrow> Inr def
      | Some raw \<Rightarrow>
          if raw = [] then Inr def
          else case Atoi (trim_space raw) of None \<Rightarrow> Inl (NotAnInt name) | Some v \<Rightarrow> Inr v)"

definition envInt :: "config_world \<Rightarrow> string \<Rightarrow> int \<Rightarrow> config_error + int" where
  "envInt w name def = envIntIfSet w name def"

definition splitList :: "string \<Rightarrow> string list" where
  "splitList s = filter (\<lambda>p. p \<noteq> []) (map trim_space (split_on (CHR '','') s))"

fun atoi_all :: "string \<Rightarrow> string list \<Rightarrow> config_error + int list" where
  "atoi_all name [] = Inr []"
| "atoi_all name (part # parts) =
     (case Atoi part of
        None \<Rightarrow> Inl (NotAnInt name)
      | Some v \<Rightarrow> and_then (atoi_all name parts) (\<lambda>vs. Inr (v # vs)))"

definition envIntList :: "config_world \<Rightarrow> string \<Rightarrow> int list \<Rightarrow> config_error + int list" where
  "envIntList w name def =
     (case cw_lookup w name of
        None \<Rightarrow> Inr def
      | Some raw \<Rightarrow> if raw = [] then Inr def else atoi_all name (splitList raw))"

definition envDuration :: "config_world \<Rightarrow> string \<Rightarrow> duration \<Rightarrow> config_error + duration" where
  "envDuration w name def =
     (case cw_lookup w name of
        None \<Rightarrow> Inr def
      | Some raw \<Rightarrow>
          if raw = [] then Inr def
          else case ParseDuration (trim_space raw) of
            None \<Rightarrow> Inl (NotADuration name)
          | Some d \<Rightarrow> if d \<le> 0 then Inl (NotPositive name) else Inr d)"

definition parseLevel :: "config_world \<Rightarrow> string \<Rightarrow> config_error + int" where
  "parseLevel w s = (case cw_level w s of None \<Rightarrow> Inl BadLevel | Some l \<Rightarrow> Inr l)"

text \<open>A variable that counts only when it is more than blanks.\<close>

definition set_env :: "config_world \<Rightarrow> string \<Rightarrow> string option" where
  "set_env w name =
     (case cw_lookup w name of
        None \<Rightarrow> None
      | Some v \<Rightarrow> if trim_space v \<noteq> [] then Some (trim_space v) else None)"

definition envOverride :: "config_world \<Rightarrow> string \<Rightarrow> string \<Rightarrow> string" where
  "envOverride w name current = (case set_env w name of Some v \<Rightarrow> v | None \<Rightarrow> current)"

definition confPath :: "config_world \<Rightarrow> string \<Rightarrow> string" where
  "confPath w envName =
     (case set_env w envName of
        Some v \<Rightarrow> v
      | None \<Rightarrow>
          (case find (\<lambda>candidate. cw_is_dir w candidate = Some False)
                  [''inspector.conf'', ''/app/inspector.conf''] of
             Some candidate \<Rightarrow> candidate
           | None \<Rightarrow> []))"

definition loadQueueFile :: "config_world \<Rightarrow> string \<Rightarrow> config_error + queueFile" where
  "loadQueueFile w path =
     (case cw_read w path of
        None \<Rightarrow> Inl (ConfUnreadable path)
      | Some raw \<Rightarrow>
          (case parseQueueFile (cw_file w) raw of Inl e \<Rightarrow> Inl (ConfBad path e) | Inr f \<Rightarrow> Inr f))"

definition exchangeRedis :: "config_world \<Rightarrow> queueFile \<Rightarrow> string" where
  "exchangeRedis w file = (case set_env w ''REDIS_URL'' of Some v \<Rightarrow> v | None \<Rightarrow> qf_redis_url file)"

definition internalRedis :: "config_world \<Rightarrow> string \<Rightarrow> queueFile \<Rightarrow> string \<Rightarrow> string \<times> string" where
  "internalRedis w path file exchange =
     (case set_env w ''REDIS_INTERNAL_URL'' of
        Some v \<Rightarrow> (v, ''REDIS_INTERNAL_URL'')
      | None \<Rightarrow>
          if qf_redis_internal file \<noteq> [] then (qf_redis_internal file, path)
          else if exchange \<noteq> [] then (exchange, InternalFromExchange)
          else ([], []))"

section \<open>Validation\<close>

definition loadKey :: "config_world \<Rightarrow> config \<Rightarrow> config_error + config" where
  "loadKey w c =
     (if cf_key_file c = [] then Inl (Empty ''WAF_CAPTCHA_KEY_FILE'')
      else case cw_read w (cf_key_file c) of
        None \<Rightarrow> Inl KeyUnreadable
      | Some raw \<Rightarrow>
          (case NewKey (cw_gcm w) (cw_json w) raw of
             Inl e \<Rightarrow> Inl (KeyBad e)
           | Inr key \<Rightarrow> Inr (c\<lparr>cf_key := Some key\<rparr>)))"

definition abs_dir :: "config_world \<Rightarrow> string \<Rightarrow> string \<Rightarrow> config_error + string" where
  "abs_dir w name dir =
     (case cw_abs w dir of
        None \<Rightarrow> Inl (NoPath name)
      | Some p \<Rightarrow>
          (case cw_is_dir w p of
             None \<Rightarrow> Inl (NoPath name)
           | Some d \<Rightarrow> if \<not> d then Inl (NotADir name) else Inr p))"

definition validateInspector :: "config \<Rightarrow> config_error option" where
  "validateInspector c =
     (if cf_servers c = [] then Some (Empty ''NATS_URL'')
      else if cf_subject c = [] \<or> cf_queue c = [] then Some (Empty ''subject and queue'')
      else if cf_workers c < 1 then Some (BadWorkers (cf_workers c))
      else if cf_queue_depth c < 1 then Some (BadQueueDepth (cf_queue_depth c))
      else if cf_queue_full c \<notin> set [QueueFullDrop, QueueFullWait] then Some (BadFull (cf_queue_full c))
      else if cf_queue_expand c \<notin> set [QueueExpandOff, QueueExpandAsk] then Some (BadExpand (cf_queue_expand c))
      else if cf_reserve_ms c < 0 \<or> cf_min_budget_ms c < 0 then Some NegativeBudget
      else if cf_versions c = [] then Some (Empty ''WAF_CAPTCHA_VERSIONS'')
      else if cf_redis_url c = [] then Some (Empty ''REDIS_URL'')
      else None)"

definition validateHTTP :: "config_world \<Rightarrow> config \<Rightarrow> config_error + config" where
  "validateHTTP w c =
     (if cf_listen c = [] then Inl (Empty ''WAF_CAPTCHA_LISTEN'')
      else and_then (abs_dir w ''WAF_CAPTCHA_WEB'' (cf_web_dir c)) (\<lambda>p. Inr (c\<lparr>cf_web_dir := p\<rparr>)))"

definition validate :: "config_world \<Rightarrow> config \<Rightarrow> config_error + config" where
  "validate w c =
     (if cf_name c = [] then Inl (Empty ''WAF_CAPTCHA_NAME'')
      else and_then (loadKey w c) (\<lambda>c.
           and_then (abs_dir w ''WAF_CAPTCHA_PROFILES'' (cf_profiles_dir c)) (\<lambda>p.
           let c = c\<lparr>cf_profiles_dir := p\<rparr>
           in if cf_role c = RoleInspector
              then (case validateInspector c of Some e \<Rightarrow> Inl e | None \<Rightarrow> Inr c)
              else if cf_role c = RoleHTTP then validateHTTP w c
              else Inl (UnknownRole (cf_role c)))))"

section \<open>Load\<close>

abbreviation (input) "no_file \<equiv>
  \<lparr>qf_max = None, qf_full = [], qf_expand = [], qf_redis_url = [], qf_redis_internal = []\<rparr>"

definition default_queue :: queueSettings where
  "default_queue = \<lparr>qs_max = 256, qs_full = QueueFullDrop, qs_expand = QueueExpandOff\<rparr>"

definition Load :: "config_world \<Rightarrow> string \<Rightarrow> config_error + config" where
  "Load w role =
     (let name = env w ''WAF_CAPTCHA_NAME'' ''captcha'';
          path = confPath w ''WAF_CAPTCHA_CONF''
      in and_then (envInt w ''WAF_CAPTCHA_WORKERS'' (cw_procs w)) (\<lambda>workers.
         and_then (if path \<noteq> [] then loadQueueFile w path else Inr no_file) (\<lambda>file.
         let q = (if path \<noteq> [] then applyQueueFile default_queue file else default_queue);
             exchange = exchangeRedis w file
         in and_then (envIntIfSet w ''WAF_CAPTCHA_QUEUE_DEPTH'' (qs_max q)) (\<lambda>depth.
            and_then (envInt w ''WAF_CAPTCHA_RESERVE_MS'' 1) (\<lambda>reserve.
            and_then (envInt w ''WAF_CAPTCHA_MIN_BUDGET_MS'' 1) (\<lambda>min_budget.
            and_then (envIntList w ''WAF_CAPTCHA_VERSIONS'' [2]) (\<lambda>versions.
            and_then (parseLevel w (env w ''WAF_CAPTCHA_LOG'' ''info'')) (\<lambda>level.
            and_then (envDuration w ''WAF_HEARTBEAT_EVERY'' (4 * Second)) (\<lambda>heartbeat.
            and_then (envDuration w ''WAF_CAPTCHA_RELOAD_EVERY'' Second) (\<lambda>reload.
            and_then (envDuration w ''WAF_CAPTCHA_GEO_TIMEOUT'' (500 * Millisecond)) (\<lambda>geo_timeout.
            and_then (envInt w ''WAF_CAPTCHA_GEO_NEG_MAX'' 0) (\<lambda>geo_neg_max.
            and_then (envDuration w ''WAF_CAPTCHA_STORE_TIMEOUT'' (150 * Millisecond)) (\<lambda>store_timeout.
            validate w
              \<lparr>cf_role = role,
               cf_servers = splitList (env w ''NATS_URL'' ''nats://127.0.0.1:4222''),
               cf_subject = env w ''WAF_CAPTCHA_SUBJECT'' ''waf.req.captcha'',
               cf_name = name,
               cf_queue = env w ''WAF_CAPTCHA_QUEUE'' name,
               cf_profiles_dir = env w ''WAF_CAPTCHA_PROFILES'' ''./profiles'',
               cf_data_dir = env w ''WAF_CAPTCHA_DATA'' [],
               cf_web_dir = env w ''WAF_CAPTCHA_WEB'' ''./web'',
               cf_key_file = env w ''WAF_CAPTCHA_KEY_FILE'' [],
               cf_key = None,
               cf_redis_url = exchange,
               cf_internal_url = fst (internalRedis w path file exchange),
               cf_internal_from = snd (internalRedis w path file exchange),
               cf_store_timeout = store_timeout,
               cf_geo_addr = env w ''WAF_CAPTCHA_GEO_ADDR'' [],
               cf_geo_timeout = geo_timeout,
               cf_geo_neg_max = geo_neg_max,
               cf_http_url = trim_right (env w ''WAF_CAPTCHA_HTTP_URL'' []) ''/'',
               cf_controller_url = env w ''WAF_CAPTCHA_CONTROLLER'' [],
               cf_scope = env w ''WAF_CAPTCHA_SCOPE'' [],
               cf_contour_key_file = env w ''WAF_CAPTCHA_CONTOUR_KEY'' [],
               cf_listen = env w ''WAF_CAPTCHA_LISTEN'' '':8080'',
               cf_cookie_secure = envBool w ''WAF_CAPTCHA_COOKIE_SECURE'' True,
               cf_real_ip_header = env w ''WAF_CAPTCHA_REAL_IP_HEADER'' ''X-Forwarded-For'',
               cf_reload_every = reload,
               cf_workers = workers,
               cf_queue_depth = depth,
               cf_queue_full = envOverride w ''WAF_CAPTCHA_QUEUE_FULL'' (qs_full q),
               cf_queue_expand = envOverride w ''WAF_CAPTCHA_QUEUE_EXPAND'' (qs_expand q),
               cf_conf_path = path,
               cf_reserve_ms = reserve,
               cf_min_budget_ms = min_budget,
               cf_versions = versions,
               cf_log_level = level,
               cf_heartbeat_every = heartbeat\<rparr>)))))))))))))"

section \<open>Log shipping\<close>

text \<open>\<open>os.Getenv\<close> of an unset variable is empty; \<open>hostname\<close> is \<open>os.Hostname\<close>.\<close>

definition Getenv :: "config_world \<Rightarrow> string \<Rightarrow> string" where
  "Getenv w name = (case cw_lookup w name of Some v \<Rightarrow> v | None \<Rightarrow> [])"

definition LogShip :: "config_world \<Rightarrow> bool" where
  "LogShip w \<longleftrightarrow>
     to_lower (trim_space (Getenv w ''WAF_LOG_SHIP'')) \<notin> set [''off'', ''0'', ''no'', ''false'']"

definition LogWriter :: "config_world \<Rightarrow> string option \<Rightarrow> string \<Rightarrow> string" where
  "LogWriter w hostname fallback =
     (let v = trim_space (Getenv w ''WAF_LOG_WRITER'')
      in if v \<noteq> [] then v
         else case hostname of Some name \<Rightarrow> if name \<noteq> [] then name else fallback | None \<Rightarrow> fallback)"

section \<open>What an accepted configuration holds\<close>

text \<open>The first of some strings that is not empty.\<close>

fun first_of :: "string list \<Rightarrow> string" where
  "first_of [] = []"
| "first_of (s # ss) = (if s \<noteq> [] then s else first_of ss)"

definition file_of :: "config_world \<Rightarrow> string \<Rightarrow> queueFile \<Rightarrow> bool" where
  "file_of w path file \<longleftrightarrow>
     (if path = [] then file = no_file else \<exists>raw. cw_read w path = Some raw \<and> parseQueueFile (cw_file w) raw = Inr file)"

definition good_duration :: "duration \<Rightarrow> bool" where
  "good_duration d \<longleftrightarrow> 0 < d \<and> d < 2 ^ 63"

definition common_ok :: "config_world \<Rightarrow> config \<Rightarrow> bool" where
  "common_ok w c \<longleftrightarrow>
     cf_name c \<noteq> [] \<and> cw_is_dir w (cf_profiles_dir c) = Some True \<and>
     (\<exists>raw key. cw_read w (cf_key_file c) = Some raw \<and> NewKey (cw_gcm w) (cw_json w) raw = Inr key \<and> cf_key c = Some key) \<and>
     (\<forall>d \<in> {cf_store_timeout c, cf_geo_timeout c, cf_reload_every c, cf_heartbeat_every c}. good_duration d)"

definition inspector_ok :: "config \<Rightarrow> bool" where
  "inspector_ok c \<longleftrightarrow>
     cf_servers c \<noteq> [] \<and> (\<forall>s \<in> set (cf_servers c). s \<noteq> [] \<and> CHR '','' \<notin> set s) \<and>
     cf_subject c \<noteq> [] \<and> cf_queue c \<noteq> [] \<and> cf_redis_url c \<noteq> [] \<and>
     1 \<le> cf_workers c \<and> 1 \<le> cf_queue_depth c \<and> 0 \<le> cf_reserve_ms c \<and> 0 \<le> cf_min_budget_ms c \<and>
     cf_queue_full c \<in> {QueueFullDrop, QueueFullWait} \<and> cf_queue_expand c \<in> {QueueExpandOff, QueueExpandAsk} \<and>
     cf_versions c \<noteq> []"

definition layered :: "config_world \<Rightarrow> config \<Rightarrow> queueFile \<Rightarrow> bool" where
  "layered w c file \<longleftrightarrow>
     cf_queue_full c = first_of [trim_space (Getenv w ''WAF_CAPTCHA_QUEUE_FULL''), qf_full file, QueueFullDrop] \<and>
     cf_queue_expand c = first_of [trim_space (Getenv w ''WAF_CAPTCHA_QUEUE_EXPAND''), qf_expand file, QueueExpandOff] \<and>
     cf_redis_url c = first_of [trim_space (Getenv w ''REDIS_URL''), qf_redis_url file] \<and>
     cf_internal_url c = first_of [trim_space (Getenv w ''REDIS_INTERNAL_URL''), qf_redis_internal file, cf_redis_url c] \<and>
     (let raw = Getenv w ''WAF_CAPTCHA_QUEUE_DEPTH''
      in if raw = [] then cf_queue_depth c = (case qf_max file of None \<Rightarrow> 256 | Some n \<Rightarrow> n)
         else Atoi (trim_space raw) = Some (cf_queue_depth c))"

lemma env_duration_good: "envDuration w name def = Inr d \<Longrightarrow> good_duration def \<Longrightarrow> good_duration d"
  using duration_parts_nonneg [of 0]
  by (fastforce simp: envDuration_def good_duration_def ParseDuration_def split: option.splits if_splits prod.splits)

lemma default_durations:
  "good_duration (4 * Second)" "good_duration Second" "good_duration (500 * Millisecond)" "good_duration (150 * Millisecond)"
  by (simp_all add: good_duration_def)

lemma split_on_parts: "p \<in> set (split_on sep s) \<Longrightarrow> sep \<notin> set p"
  by (induction s arbitrary: p) (auto split: list.splits if_splits)

lemma splitList_parts: "p \<in> set (splitList s) \<Longrightarrow> p \<noteq> [] \<and> CHR '','' \<notin> set p"
  using trim_space_set by (fastforce simp: splitList_def dest: split_on_parts)

lemma set_env_first: "(case set_env w name of Some v \<Rightarrow> v | None \<Rightarrow> r) = (if trim_space (Getenv w name) \<noteq> [] then trim_space (Getenv w name) else r)"
proof -
  have "trim_space [] = []" by code_simp
  then show ?thesis by (auto simp: set_env_def Getenv_def split: option.splits)
qed

lemma env_int_layer:
  "envIntIfSet w name def = Inr n \<Longrightarrow>
   (if Getenv w name = [] then n = def else Atoi (trim_space (Getenv w name)) = Some n)"
  by (auto simp: envIntIfSet_def Getenv_def split: option.splits if_splits)

lemma abs_dir_is_dir: "abs_dir w name dir = Inr p \<Longrightarrow> cw_is_dir w p = Some True"
  by (auto simp: abs_dir_def split: option.splits if_splits)

lemma loadKey_sets:
  "loadKey w c = Inr c' \<Longrightarrow>
   \<exists>raw key. cw_read w (cf_key_file c) = Some raw \<and> NewKey (cw_gcm w) (cw_json w) raw = Inr key \<and>
     c' = c\<lparr>cf_key := Some key\<rparr>"
  by (auto simp: loadKey_def split: option.splits sum.splits if_splits)

lemma validate_sets:
  assumes "validate w c = Inr c'"
  obtains raw key dir web where
    "cf_name c \<noteq> []" "cw_read w (cf_key_file c) = Some raw" "NewKey (cw_gcm w) (cw_json w) raw = Inr key"
    "cw_is_dir w dir = Some True" "c' = c\<lparr>cf_key := Some key, cf_profiles_dir := dir, cf_web_dir := web\<rparr>"
    "(cf_role c = RoleInspector \<and> validateInspector c' = None) \<or>
     (cf_role c = RoleHTTP \<and> cf_listen c \<noteq> [] \<and> cw_is_dir w web = Some True)"
proof -
  obtain c1 dir where l: "cf_name c \<noteq> []" "loadKey w c = Inr c1"
      "abs_dir w ''WAF_CAPTCHA_PROFILES'' (cf_profiles_dir c1) = Inr dir"
    and r: "(if cf_role c1 = RoleInspector
        then (case validateInspector (c1\<lparr>cf_profiles_dir := dir\<rparr>) of Some e \<Rightarrow> Inl e | None \<Rightarrow> Inr (c1\<lparr>cf_profiles_dir := dir\<rparr>))
        else if cf_role c1 = RoleHTTP then validateHTTP w (c1\<lparr>cf_profiles_dir := dir\<rparr>)
        else Inl (UnknownRole (cf_role c1))) = Inr c'"
    using assms by (auto simp: validate_def and_then_Inr Let_def split: if_splits)
  obtain raw key where k: "cw_read w (cf_key_file c) = Some raw" "NewKey (cw_gcm w) (cw_json w) raw = Inr key"
      "c1 = c\<lparr>cf_key := Some key\<rparr>"
    using loadKey_sets [OF l(2)] by blast
  consider "cf_role c = RoleInspector" | "cf_role c \<noteq> RoleInspector" "cf_role c = RoleHTTP"
    using r k(3) by (auto split: if_splits)
  then show ?thesis
  proof cases
    case 1
    then have v: "validateInspector (c1\<lparr>cf_profiles_dir := dir\<rparr>) = None" "c' = c1\<lparr>cf_profiles_dir := dir\<rparr>"
      using r k(3) by (simp_all split: option.splits)
    show ?thesis
      by (rule that [OF l(1) k(1,2) abs_dir_is_dir [OF l(3)], of "cf_web_dir c"]) (use v k(3) 1 in simp_all)
  next
    case 2
    then obtain web where v: "cf_listen c \<noteq> []" "cw_is_dir w web = Some True" "c' = c1\<lparr>cf_profiles_dir := dir, cf_web_dir := web\<rparr>"
      using r k(3) by (auto simp: validateHTTP_def and_then_Inr dest: abs_dir_is_dir split: if_splits)
    show ?thesis
      by (rule that [OF l(1) k(1,2) abs_dir_is_dir [OF l(3)], of web]) (use v k(3) 2 in simp_all)
  qed
qed

lemma queue_of_file:
  "(if path \<noteq> [] then m else Inr no_file) = (Inr fil :: config_error + queueFile) \<Longrightarrow>
   (if path \<noteq> [] then applyQueueFile default_queue fil else default_queue) =
     \<lparr>qs_max = (case qf_max fil of None \<Rightarrow> 256 | Some n \<Rightarrow> n),
      qs_full = (if qf_full fil \<noteq> [] then qf_full fil else QueueFullDrop),
      qs_expand = (if qf_expand fil \<noteq> [] then qf_expand fil else QueueExpandOff)\<rparr>"
  by (auto simp: applyQueueFile_def default_queue_def split: if_splits option.splits)

lemma internal_redis_first:
  "fst (internalRedis w path fil exchange) =
   first_of [trim_space (Getenv w ''REDIS_INTERNAL_URL''), qf_redis_internal fil, exchange]"
proof -
  have "fst (internalRedis w path fil exchange) =
      (case set_env w ''REDIS_INTERNAL_URL'' of Some v \<Rightarrow> v
       | None \<Rightarrow> if qf_redis_internal fil \<noteq> [] then qf_redis_internal fil else exchange)"
    by (simp add: internalRedis_def split: option.split)
  then show ?thesis by (simp add: set_env_first)
qed

lemma if_Some_None: "(if b then Some e else x) = None \<longleftrightarrow> \<not> b \<and> x = None"
  by simp

lemma validateInspector_None:
  "validateInspector c = None \<longleftrightarrow>
     cf_servers c \<noteq> [] \<and> \<not> (cf_subject c = [] \<or> cf_queue c = []) \<and> \<not> cf_workers c < 1 \<and> \<not> cf_queue_depth c < 1 \<and>
     \<not> cf_queue_full c \<notin> set [QueueFullDrop, QueueFullWait] \<and> \<not> cf_queue_expand c \<notin> set [QueueExpandOff, QueueExpandAsk] \<and>
     \<not> (cf_reserve_ms c < 0 \<or> cf_min_budget_ms c < 0) \<and> cf_versions c \<noteq> [] \<and> cf_redis_url c \<noteq> []"
  unfolding validateInspector_def if_Some_None by simp

lemma load_reaches:
  assumes "Load w role = Inr c"
  shows "\<exists>fil raw key dir web c0. file_of w (cf_conf_path c0) fil \<and> layered w c0 fil \<and>
    cf_role c0 = role \<and> cf_servers c0 = splitList (env w ''NATS_URL'' ''nats://127.0.0.1:4222'') \<and>
    (\<forall>d \<in> {cf_store_timeout c0, cf_geo_timeout c0, cf_reload_every c0, cf_heartbeat_every c0}. good_duration d) \<and>
    cf_name c0 \<noteq> [] \<and> cw_read w (cf_key_file c0) = Some raw \<and> NewKey (cw_gcm w) (cw_json w) raw = Inr key \<and>
    cw_is_dir w dir = Some True \<and> c = c0\<lparr>cf_key := Some key, cf_profiles_dir := dir, cf_web_dir := web\<rparr> \<and>
    (role = RoleInspector \<and> validateInspector c = None \<or>
     role = RoleHTTP \<and> cf_listen c0 \<noteq> [] \<and> cw_is_dir w web = Some True)"
proof -
  obtain fil c0 where f: "(if confPath w ''WAF_CAPTCHA_CONF'' \<noteq> [] then loadQueueFile w (confPath w ''WAF_CAPTCHA_CONF'')
        else Inr no_file) = Inr fil"
    and c0: "validate w c0 = Inr c" "cf_role c0 = role" "cf_conf_path c0 = confPath w ''WAF_CAPTCHA_CONF''"
      "cf_servers c0 = splitList (env w ''NATS_URL'' ''nats://127.0.0.1:4222'')"
    and q: "cf_queue_full c0 = envOverride w ''WAF_CAPTCHA_QUEUE_FULL'' (if qf_full fil \<noteq> [] then qf_full fil else QueueFullDrop)"
      "cf_queue_expand c0 = envOverride w ''WAF_CAPTCHA_QUEUE_EXPAND'' (if qf_expand fil \<noteq> [] then qf_expand fil else QueueExpandOff)"
      "cf_redis_url c0 = exchangeRedis w fil"
      "cf_internal_url c0 = fst (internalRedis w (cf_conf_path c0) fil (cf_redis_url c0))"
      "envIntIfSet w ''WAF_CAPTCHA_QUEUE_DEPTH'' (case qf_max fil of None \<Rightarrow> 256 | Some n \<Rightarrow> n) = Inr (cf_queue_depth c0)"
    and d: "envDuration w ''WAF_HEARTBEAT_EVERY'' (4 * Second) = Inr (cf_heartbeat_every c0)"
      "envDuration w ''WAF_CAPTCHA_RELOAD_EVERY'' Second = Inr (cf_reload_every c0)"
      "envDuration w ''WAF_CAPTCHA_GEO_TIMEOUT'' (500 * Millisecond) = Inr (cf_geo_timeout c0)"
      "envDuration w ''WAF_CAPTCHA_STORE_TIMEOUT'' (150 * Millisecond) = Inr (cf_store_timeout c0)"
    using assms unfolding Load_def and_then_Inr Let_def
    apply (elim exE conjE)
    apply (frule queue_of_file)
    apply (erule that)
    apply assumption
    apply simp_all
    done
  have "file_of w (cf_conf_path c0) fil"
    using f c0(3) by (auto simp: file_of_def loadQueueFile_def split: if_splits option.splits sum.splits)
  moreover have "layered w c0 fil"
    using q env_int_layer [OF q(5)]
    by (simp add: layered_def envOverride_def exchangeRedis_def internal_redis_first set_env_first Let_def)
  moreover have "\<forall>d \<in> {cf_store_timeout c0, cf_geo_timeout c0, cf_reload_every c0, cf_heartbeat_every c0}. good_duration d"
    using d env_duration_good default_durations by auto
  ultimately show ?thesis
    using validate_sets [OF c0(1)] c0(2,4) by metis
qed

lemma load_good:
  assumes "Load w role = Inr c"
  shows "common_ok w c \<and> cf_role c = role \<and>
    (role = RoleInspector \<and> inspector_ok c \<or>
     role = RoleHTTP \<and> cf_listen c \<noteq> [] \<and> cw_is_dir w (cf_web_dir c) = Some True) \<and>
    (\<exists>f. file_of w (cf_conf_path c) f \<and> layered w c f)"
proof -
  obtain f raw key dir web c0 where c0: "file_of w (cf_conf_path c0) f" "layered w c0 f" "cf_role c0 = role"
      "cf_servers c0 = splitList (env w ''NATS_URL'' ''nats://127.0.0.1:4222'')"
      "\<forall>d \<in> {cf_store_timeout c0, cf_geo_timeout c0, cf_reload_every c0, cf_heartbeat_every c0}. good_duration d"
      "cf_name c0 \<noteq> []" "cw_read w (cf_key_file c0) = Some raw" "NewKey (cw_gcm w) (cw_json w) raw = Inr key"
      "cw_is_dir w dir = Some True" "c = c0\<lparr>cf_key := Some key, cf_profiles_dir := dir, cf_web_dir := web\<rparr>"
    and role: "role = RoleInspector \<and> validateInspector c = None \<or>
      role = RoleHTTP \<and> cf_listen c0 \<noteq> [] \<and> cw_is_dir w web = Some True"
    using load_reaches [OF assms] by metis
  have "common_ok w c" using c0 by (simp add: common_ok_def)
  moreover have "inspector_ok c" if v: "validateInspector c = None"
  proof -
    have "cf_servers c = splitList (env w ''NATS_URL'' ''nats://127.0.0.1:4222'')" using c0(4,10) by simp
    then have "\<forall>s \<in> set (cf_servers c). s \<noteq> [] \<and> CHR '','' \<notin> set s"
      using splitList_parts by metis
    then show ?thesis
      using v unfolding validateInspector_None inspector_ok_def not_less set_simps not_not de_Morgan_disj by blast
  qed
  moreover have "layered w c f"
  proof -
    have "cf_queue_full c = cf_queue_full c0" "cf_queue_expand c = cf_queue_expand c0" "cf_redis_url c = cf_redis_url c0"
      "cf_internal_url c = cf_internal_url c0" "cf_queue_depth c = cf_queue_depth c0"
      using c0(10) by simp_all
    then show ?thesis using c0(2) by (simp only: layered_def)
  qed
  moreover have "cf_role c = role" "cf_conf_path c = cf_conf_path c0" "cf_listen c = cf_listen c0" "cf_web_dir c = web"
    using c0(3,10) by simp_all
  ultimately show ?thesis using c0(1) role by metis
qed

text \<open>C20: A configuration the services start with is one they can run. Whatever \<open>Load\<close> accepts has a name, the
  directory of the profiles, the key made of the bytes of the key file, and positive intervals that do not
  overflow; for the inspector also bus addresses, a subject, a queue name, the store of the requests, at least one
  worker, one place in the queue and one protocol version, no negative budget, and words the queue knows; for
  the page server an address to listen on and its directory of pages; and there is no third role. Each
  setting of the queue and of Redis is the one of the environment, else the one of the settings file, else
  the default, and the file itself was read by \<open>parseQueueFile\<close>.
\<close>

theorem load_sound:
  assumes "Load w role = Inr c"
  shows "common_ok w c \<and> cf_role c = role \<and>
    (role = RoleInspector \<and> inspector_ok c \<or>
     role = RoleHTTP \<and> cf_listen c \<noteq> [] \<and> cw_is_dir w (cf_web_dir c) = Some True) \<and>
    (\<exists>f. file_of w (cf_conf_path c) f \<and> layered w c f)"
  by (rule load_good [OF assms])

definition sample_world :: config_world where
  "sample_world =
     \<lparr>cw_lookup = map_of [(''WAF_CAPTCHA_KEY_FILE'', ''/key''), (''REDIS_URL'', ''redis://r''),
        (''WAF_CAPTCHA_QUEUE_DEPTH'', '' 64'')],
      cw_read = map_of [(''/key'', ''0123456789abcdef0123456789abcdef'')],
      cw_is_dir = map_of [(''/app/profiles'', True), (''/app/web'', True)],
      cw_abs = map_of [(''./profiles'', ''/app/profiles''), (''./web'', ''/app/web'')], cw_procs = 4,
      cw_file = \<lparr>fw_url_parse = \<lambda>s. toy_url_parse s, fw_uni_name = \<lambda>_. False\<rparr>,
      cw_level = map_of [(''info'', 0)], cw_gcm = \<lambda>_. Some toy_aead, cw_json = k_json toy_key\<rparr>"

lemma sample_loads:
  "\<exists>c. Load sample_world RoleInspector = Inr c \<and> cf_queue_depth c = 64 \<and> cf_profiles_dir c = ''/app/profiles'' \<and>
     cf_redis_url c = ''redis://r'' \<and> cf_internal_url c = ''redis://r'' \<and> cf_data_dir c = []"
  "\<exists>c. Load sample_world RoleHTTP = Inr c \<and> cf_profiles_dir c = ''/app/profiles'' \<and> cf_internal_url c = ''redis://r'' \<and>
     cf_data_dir c = [] \<and> cf_web_dir c = ''/app/web'' \<and> cf_controller_url c = [] \<and> cf_scope c = [] \<and>
     cf_servers c = [''nats://127.0.0.1:4222'']"
proof -
  have e: "trim_space '' 64'' = ''64''" "Atoi ''64'' = Some 64" "trim_space ''/key'' = ''/key''"
      "trim_space ''redis://r'' = ''redis://r''"
      "trim_space ''0123456789abcdef0123456789abcdef'' = ''0123456789abcdef0123456789abcdef''"
      "splitList ''nats://127.0.0.1:4222'' = [''nats://127.0.0.1:4222'']"
    by code_simp+
  note defs = Let_def Load_def and_then_def sample_world_def envInt_def envIntIfSet_def envIntList_def parseLevel_def
        env_def envBool_def envDuration_def confPath_def set_env_def exchangeRedis_def internalRedis_def
        envOverride_def default_queue_def validate_def loadKey_def abs_dir_def validateInspector_def NewKey_def
    validateHTTP_def trim_right_def
  show "\<exists>c. Load sample_world RoleInspector = Inr c \<and> cf_queue_depth c = 64 \<and> cf_profiles_dir c = ''/app/profiles'' \<and>
     cf_redis_url c = ''redis://r'' \<and> cf_internal_url c = ''redis://r'' \<and> cf_data_dir c = []"
    by (simp add: defs e)
  show "\<exists>c. Load sample_world RoleHTTP = Inr c \<and> cf_profiles_dir c = ''/app/profiles'' \<and> cf_internal_url c = ''redis://r'' \<and>
     cf_data_dir c = [] \<and> cf_web_dir c = ''/app/web'' \<and> cf_controller_url c = [] \<and> cf_scope c = [] \<and>
     cf_servers c = [''nats://127.0.0.1:4222'']"
    by (simp add: defs e)
qed

lemma load_sound_witness:
  "\<exists>c. Load sample_world RoleInspector = Inr c \<and> inspector_ok c \<and> cf_queue_depth c = 64"
proof -
  obtain c where c: "Load sample_world RoleInspector = Inr c" "cf_queue_depth c = 64" using sample_loads(1) by blast
  then show ?thesis using load_sound [OF c(1)] by auto
qed

end
