(* ===== verification/Yaml_Values.thy ===== *)
theory Yaml_Values
  imports Strconv Profile
begin

text \<open>
  The two values of a profile with a syntax of their own (\<open>internal/config/profile.go\<close>):
  \<open>Duration.UnmarshalYAML\<close> and \<open>Rate.UnmarshalYAML\<close>. Decoding the node to a string is package
  \<open>yaml\<close>: \<open>node\<close> is its outcome, \<^const>\<open>None\<close> an error.
\<close>

datatype decode_error =
    NoScalar
  | BadDuration
  | NegativeDuration string
  | BadRate string
  | BadRateUnit string

section \<open>Durations\<close>

definition UnmarshalDuration :: "string option \<Rightarrow> decode_error + duration" where
  "UnmarshalDuration node =
     (case node of
        None \<Rightarrow> Inl NoScalar
      | Some raw \<Rightarrow>
          let raw = trim_space raw
          in if raw = [] \<or> raw = ''0'' then Inr 0
             else case ParseDuration raw of
               None \<Rightarrow> Inl BadDuration
             | Some v \<Rightarrow> if v < 0 then Inl (NegativeDuration raw) else Inr v)"

section \<open>Rates\<close>

text \<open>\<open>strings.Cut\<close> at a byte.\<close>

definition cut_at :: "char \<Rightarrow> string \<Rightarrow> (string \<times> string) option" where
  "cut_at c s =
     (if c \<in> set s then Some (takeWhile (\<lambda>x. x \<noteq> c) s, tl (dropWhile (\<lambda>x. x \<noteq> c) s)) else None)"

text \<open>
  \<open>fmt.Sscanf\<close> with the format \<open>%d\<close>: a sign, then as many digits as there are, at least one, within 64 bits.
  What follows is left unread. White space in front would be skipped; the caller trimmed it.
\<close>

definition scan_int :: "string \<Rightarrow> int option" where
  "scan_int s =
     (case signed_parts s of (neg, body) \<Rightarrow>
        let ds = takeWhile digit_char body;
            v = (if neg then - digits_value ds else digits_value ds)
        in if ds = [] then None else if - (2 ^ 63) \<le> v \<and> v < 2 ^ 63 then Some v else None)"

definition rate_unit :: "string \<Rightarrow> duration option" where
  "rate_unit u = map_of [(''s'', Second), (''m'', Minute), (''h'', Hour)] u"

definition UnmarshalRate :: "string option \<Rightarrow> decode_error + rate" where
  "UnmarshalRate node =
     (case node of
        None \<Rightarrow> Inl NoScalar
      | Some raw \<Rightarrow>
          let raw = trim_space raw
          in if raw = [] \<or> raw = ''0'' then Inr \<lparr>ra_n = 0, ra_per = 0\<rparr>
             else case cut_at (CHR ''/'') raw of
               None \<Rightarrow> Inl (BadRate raw)
             | Some (num, unit) \<Rightarrow>
                 (case scan_int num of
                    None \<Rightarrow> Inl (BadRate raw)
                  | Some n \<Rightarrow>
                      if n < 0 then Inl (BadRate raw)
                      else case rate_unit unit of
                        None \<Rightarrow> Inl (BadRateUnit raw)
                      | Some per \<Rightarrow> Inr \<lparr>ra_n = n, ra_per = per\<rparr>))"

section \<open>Numbers are read back\<close>

lemma digit_value_bounds: "digit_char c \<Longrightarrow> 0 \<le> digit_value c \<and> digit_value c \<le> 9"
  by (simp add: digit_char_def digit_value_def)

lemma digits_from: "foldl (\<lambda>n c. n * 10 + digit_value c) x s = x * 10 ^ length s + digits_value s"
proof (induction s arbitrary: x)
  case (Cons c s)
  show ?case
    using Cons [of "x * 10 + digit_value c"] Cons [of "digit_value c"] by (simp add: digits_value_def algebra_simps)
qed (simp add: digits_value_def)

lemma digits_value_Cons: "digits_value (c # s) = digit_value c * 10 ^ length s + digits_value s"
  using digits_from [of "digit_value c" s] by (simp add: digits_value_def)

lemma digits_value_nonneg: "list_all digit_char s \<Longrightarrow> 0 \<le> digits_value s"
proof (induction s)
  case (Cons c s)
  then show ?case using digit_value_bounds [of c] by (simp add: digits_value_Cons)
qed (simp add: digits_value_def)

lemma leadingInt_digits:
  assumes "list_all digit_char ds" "0 \<le> x" "x * 10 ^ length ds + digits_value ds \<le> 2 ^ 63"
    and "rest = [] \<or> \<not> digit_char (hd rest)"
  shows "leadingInt x (ds @ rest) = Some (x * 10 ^ length ds + digits_value ds, rest)"
  using assms
proof (induction ds arbitrary: x)
  case Nil
  then show ?case by (cases rest) (simp_all add: digits_value_def)
next
  case (Cons c ds)
  let ?y = "x * 10 + digit_value c"
  have c: "digit_char c" "list_all digit_char ds" using Cons.prems(1) by simp_all
  have total: "x * 10 ^ length (c # ds) + digits_value (c # ds) = ?y * 10 ^ length ds + digits_value ds"
    by (simp add: digits_value_Cons algebra_simps)
  have y: "0 \<le> ?y" using Cons.prems(2) digit_value_bounds [OF c(1)] by simp
  have "?y * 1 \<le> ?y * 10 ^ length ds" using y by (intro mult_left_mono) simp_all
  also have "\<dots> \<le> ?y * 10 ^ length ds + digits_value ds" using digits_value_nonneg [OF c(2)] by simp
  also have "\<dots> \<le> 2 ^ 63" using Cons.prems(3) unfolding total .
  finally have small: "?y \<le> 2 ^ 63" by simp
  have "x \<le> 2 ^ 63 div 10" using small digit_value_bounds [OF c(1)] by simp
  have "leadingInt ?y (ds @ rest) = Some (x * 10 ^ length (c # ds) + digits_value (c # ds), rest)"
    unfolding total using Cons.IH [OF c(2) y] Cons.prems(3,4) unfolding total by simp
  then show ?case
    using \<open>x \<le> 2 ^ 63 div 10\<close> small c(1) by (simp only: append_Cons leadingInt.simps Let_def if_False simp_thms not_less [symmetric])
qed

lemma digit_not_dot: "digit_char c \<Longrightarrow> c \<noteq> CHR ''.''"
  by (auto simp: digit_char_def byte_of_def)

lemma dec_digits_cases: "0 \<le> n \<Longrightarrow> \<exists>c t. dec_digits n = c # t \<and> digit_char c"
  using dec_digits_value [of n] by (cases "dec_digits n") auto

lemma read_part:
  assumes "0 \<le> n" "unit_of u = Some k" "n * k \<le> 2 ^ 63" "u \<noteq> []" "0 < k"
    and u: "list_all (\<lambda>c. c \<noteq> CHR ''.'' \<and> \<not> digit_char c) u"
  shows "duration_part (dec_digits n @ u) = Some (n * k, [])"
proof -
  obtain c t where d: "dec_digits n = c # t" "digit_char c" using dec_digits_cases [OF assms(1)] by blast
  have "n * 1 \<le> n * k" using assms(1,5) by (intro mult_left_mono) auto
  then have "n \<le> 2 ^ 63" using assms(3) by linarith
  then have i: "leadingInt 0 (dec_digits n @ u) = Some (n, u)"
    using leadingInt_digits [of "dec_digits n" 0 u] dec_digits_value [OF assms(1)] u by (cases u) auto
  have h: "hd u \<noteq> CHR ''.''" "takeWhile (\<lambda>c. c \<noteq> CHR ''.'' \<and> \<not> digit_char c) u = u"
    using u assms(4) by (cases u; simp) (use u in \<open>simp add: takeWhile_eq_all_conv list_all_iff\<close>)
  have "n * k div k \<le> 2 ^ 63 div k" using assms(3,5) by (intro zdiv_mono1) auto
  then have "n \<le> 2 ^ 63 div k" using assms(5) by simp
  moreover have "dec_digits n @ u \<noteq> []" "hd (dec_digits n @ u) = c" "length u \<noteq> length (dec_digits n @ u)"
    using d(1) by simp_all
  ultimately show ?thesis
    using d(2) h(1) assms(2,4) unfolding duration_part_def i by (simp add: h(2))
qed

lemma parsed_duration_bounds:
  assumes "ParseDuration s = Some d"
  shows "d < 2 ^ 63" "0 \<le> d \<or> s \<noteq> [] \<and> hd s = CHR ''-''"
proof -
  obtain neg body where p: "signed_parts s = (neg, body)" by fastforce
  have n: "0 \<le> v" if "duration_parts 0 t = Some v" for t v using duration_parts_nonneg [OF that] by simp
  show "d < 2 ^ 63" using assms p by (auto simp: ParseDuration_def split: if_splits option.splits dest!: n)
  show "0 \<le> d \<or> s \<noteq> [] \<and> hd s = CHR ''-''"
    using assms p by (auto simp: ParseDuration_def signed_parts_def split: if_splits option.splits list.splits dest: n)
qed

section \<open>What the two accept\<close>

lemma trim_plain: "s \<noteq> [] \<Longrightarrow> graphic (hd s) \<Longrightarrow> graphic (last s) \<Longrightarrow> trim_space s = s"
  by (intro trim_space_ends) simp

lemma digit_graphic: "digit_char c \<Longrightarrow> graphic c"
  by (simp add: digit_char_def graphic_def)

lemma dec_digits_hd: "0 \<le> n \<Longrightarrow> digit_char (hd (dec_digits n)) \<and> dec_digits n \<noteq> []"
  using dec_digits_cases [of n] by auto

lemma written_duration:
  assumes "0 \<le> n" "(u, k) \<in> set [(''ns'', 1), (''us'', Microsecond), (''ms'', Millisecond), (''s'', Second), (''m'', Minute), (''h'', Hour)]"
    "n * k < 2 ^ 63"
  shows "UnmarshalDuration (Some (dec_digits n @ u)) = Inr (n * k)"
proof -
  have u: "unit_of u = Some k" "u \<noteq> []" "0 < k" "list_all (\<lambda>c. c \<noteq> CHR ''.'' \<and> \<not> digit_char c) u" "graphic (last u)"
    using assms(2) by (auto simp: unit_of_def digit_char_def graphic_def byte_of_def)
  note d = dec_digits_hd [OF assms(1)]
  let ?s = "dec_digits n @ u"
  have t: "trim_space ?s = ?s" using d u(2,5) by (intro trim_plain) (simp_all add: digit_graphic)
  have p: "duration_part ?s = Some (n * k, [])"
    using assms(1,3) u by (intro read_part) simp_all
  obtain c r where c: "dec_digits n = c # r" "digit_char c" using dec_digits_cases [OF assms(1)] by blast
  have sp: "signed_parts ?s = (False, ?s)" using c digit_not_sign [OF c(2)] by (simp add: signed_parts_def)
  have nz: "?s \<noteq> ''0''" using c u(2) by (cases r) auto
  have k: "0 \<le> n * k" using assms(1) u(3) by simp
  have m: "n * k mod 2 ^ 64 = n * k" using k assms(3) by (simp add: mod_pos_pos_trivial)
  have "duration_parts 0 ?s = duration_parts (n * k) []"
    using p m assms(3) u(2) by (subst duration_parts.simps) (simp add: Let_def)
  then have "duration_parts 0 ?s = Some (n * k)" by (simp add: duration_parts.simps [of _ "[]"])
  moreover have "?s \<noteq> []" using u(2) by simp
  ultimately have "ParseDuration ?s = Some (n * k)"
    using nz assms(3) unfolding ParseDuration_def sp by (simp del: append_is_Nil_conv)
  then show ?thesis using t nz c k u(2) by (simp add: UnmarshalDuration_def Let_def)
qed

lemma cut_first:
  "c \<notin> set a \<Longrightarrow> takeWhile (\<lambda>x. x \<noteq> c) (a @ c # b) = a \<and> dropWhile (\<lambda>x. x \<noteq> c) (a @ c # b) = c # b"
  by (induction a) auto

lemma cut_at_Some: "cut_at c s = Some (a, b) \<longleftrightarrow> s = a @ c # b \<and> c \<notin> set a"
proof
  assume h: "cut_at c s = Some (a, b)"
  then obtain x y where x: "s = x @ c # y" "c \<notin> set x"
    using split_list_first [of c s] by (auto simp: cut_at_def split: if_splits)
  then show "s = a @ c # b \<and> c \<notin> set a" using h cut_first [OF x(2), of y] by (simp add: cut_at_def)
next
  assume "s = a @ c # b \<and> c \<notin> set a"
  then show "cut_at c s = Some (a, b)" using cut_first [of c a b] by (simp add: cut_at_def)
qed

definition number_shape :: "string \<Rightarrow> string \<Rightarrow> string \<Rightarrow> string \<Rightarrow> bool" where
  "number_shape num sign ds junk \<longleftrightarrow>
     num = sign @ ds @ junk \<and> sign \<in> {[], ''-'', ''+''} \<and> ds \<noteq> [] \<and> list_all digit_char ds \<and>
     (junk = [] \<or> \<not> digit_char (hd junk))"

lemma scan_int_Some:
  "scan_int num = Some n \<longleftrightarrow>
     (\<exists>sign ds junk. number_shape num sign ds junk \<and>
        n = (if sign = ''-'' then - digits_value ds else digits_value ds) \<and> - (2 ^ 63) \<le> n \<and> n < 2 ^ 63)"
proof
  assume a: "scan_int num = Some n"
  obtain neg body where p: "signed_parts num = (neg, body)" by fastforce
  let ?ds = "takeWhile digit_char body" and ?sign = "take (length num - length body) num"
  have s: "num = ?sign @ body" "?sign \<in> {[], ''-'', ''+''}" "neg \<longleftrightarrow> ?sign = ''-''"
    using p by (auto simp: signed_parts_def split: list.splits if_splits)
  have "dropWhile digit_char body = [] \<or> \<not> digit_char (hd (dropWhile digit_char body))" by (metis hd_dropWhile)
  moreover have "list_all digit_char ?ds" by (auto simp: list_all_iff dest: set_takeWhileD)
  moreover have "?ds \<noteq> []" using a p by (auto simp: scan_int_def Let_def split: if_splits)
  ultimately have "number_shape num ?sign ?ds (dropWhile digit_char body)"
    using s(1,2) unfolding number_shape_def takeWhile_dropWhile_id by blast
  then show "\<exists>sign ds junk. number_shape num sign ds junk \<and>
      n = (if sign = ''-'' then - digits_value ds else digits_value ds) \<and> - (2 ^ 63) \<le> n \<and> n < 2 ^ 63"
    using a p s(3)
    by (intro exI [of _ ?sign] exI [of _ ?ds] exI [of _ "dropWhile digit_char body"]) (auto simp: scan_int_def Let_def split: if_splits)
next
  assume "\<exists>sign ds junk. number_shape num sign ds junk \<and>
      n = (if sign = ''-'' then - digits_value ds else digits_value ds) \<and> - (2 ^ 63) \<le> n \<and> n < 2 ^ 63"
  then obtain sign ds junk where h: "number_shape num sign ds junk"
    "n = (if sign = ''-'' then - digits_value ds else digits_value ds)" "- (2 ^ 63) \<le> n" "n < 2 ^ 63" by blast
  obtain c t where c: "ds = c # t" "digit_char c" using h(1) by (cases ds) (auto simp: number_shape_def)
  have "signed_parts num = (sign = ''-'', ds @ junk)"
    using h(1) c digit_not_sign [OF c(2)] by (auto simp: number_shape_def signed_parts_def)
  moreover have "takeWhile digit_char (ds @ junk) = ds"
    using h(1) by (cases junk) (auto simp: number_shape_def list_all_iff takeWhile_append)
  ultimately show "scan_int num = Some n" using h by (auto simp: scan_int_def number_shape_def)
qed

lemma accepted_duration: "UnmarshalDuration node = Inr d \<Longrightarrow> 0 \<le> d \<and> d < 2 ^ 63"
  using parsed_duration_bounds(1) by (auto simp: UnmarshalDuration_def Let_def split: option.splits if_splits)

text \<open>The durations of a profile. One that is accepted lies between zero and the longest of 64 bits, and a
  number written with one of the units is read as that number of units, as long as it fits.\<close>

theorem durations_read:
  "(UnmarshalDuration node = Inr d \<longrightarrow> 0 \<le> d \<and> d < 2 ^ 63) \<and>
   (0 \<le> n \<and> n * k < 2 ^ 63 \<and>
      (u, k) \<in> set [(''ns'', 1), (''us'', Microsecond), (''ms'', Millisecond), (''s'', Second), (''m'', Minute), (''h'', Hour)] \<longrightarrow>
      UnmarshalDuration (Some (dec_digits n @ u)) = Inr (n * k))"
  using written_duration [of n u k] accepted_duration [of node d] by blast

lemma durations_read_witness:
  "UnmarshalDuration (Some ''15m'') = Inr (15 * Minute)"
proof -
  have "dec_digits 15 = ''15''" by code_simp
  then show ?thesis using durations_read [of None 0 15 Minute "''m''"] by simp
qed

text \<open>C39: The rates of a profile. A rate is accepted exactly when it is empty, zero, or an optional sign, digits
  whose value is in range and not below zero, any further characters up to the first slash, and a unit of
  seconds, minutes or hours; what stands between the digits and the slash changes nothing.\<close>

theorem rates_exact:
  "UnmarshalRate (Some raw) = Inr r \<longleftrightarrow>
     (let t = trim_space raw
      in if t = [] \<or> t = ''0'' then r = \<lparr>ra_n = 0, ra_per = 0\<rparr>
         else \<exists>sign ds junk u per. t = sign @ ds @ junk @ ''/'' @ u \<and> CHR ''/'' \<notin> set junk \<and>
           number_shape (sign @ ds @ junk) sign ds junk \<and> digits_value ds < 2 ^ 63 \<and>
           (sign = ''-'' \<longrightarrow> digits_value ds = 0) \<and> rate_unit u = Some per \<and> r = \<lparr>ra_n = digits_value ds, ra_per = per\<rparr>)"
  (is "?lhs \<longleftrightarrow> ?rhs")
proof (cases "trim_space raw = [] \<or> trim_space raw = ''0''")
  case True
  then show ?thesis by (auto simp: UnmarshalRate_def Let_def)
next
  case False
  have range: "0 \<le> digits_value ds" "CHR ''/'' \<notin> set sign" "CHR ''/'' \<notin> set ds"
    if "number_shape num sign ds junk" for num sign ds junk
    using that digits_value_nonneg [of ds] by (auto simp: number_shape_def digit_char_def byte_of_def list_all_iff)
  show ?thesis
  proof
    assume ?lhs
    then obtain num u n per where h: "trim_space raw = num @ CHR ''/'' # u" "CHR ''/'' \<notin> set num" "scan_int num = Some n"
      "0 \<le> n" "rate_unit u = Some per" "r = \<lparr>ra_n = n, ra_per = per\<rparr>"
      using False by (auto simp: UnmarshalRate_def Let_def cut_at_Some split: option.splits if_splits)
    obtain sign ds junk where s: "number_shape num sign ds junk"
      "n = (if sign = ''-'' then - digits_value ds else digits_value ds)" "n < 2 ^ 63"
      using h(3) unfolding scan_int_Some by blast
    have num: "num = sign @ ds @ junk" using s(1) by (simp add: number_shape_def)
    have "digits_value ds = n" "sign = ''-'' \<longrightarrow> digits_value ds = 0" using s(2) h(4) range(1) [OF s(1)] by (auto split: if_splits)
    then show ?rhs using False h s unfolding num
      by (simp add: Let_def) (intro exI [of _ sign] exI [of _ ds] exI [of _ junk] exI [of _ u], simp)
  next
    assume ?rhs
    with False obtain sign ds junk u per where h: "trim_space raw = (sign @ ds @ junk) @ CHR ''/'' # u" "CHR ''/'' \<notin> set junk"
      "number_shape (sign @ ds @ junk) sign ds junk" "digits_value ds < 2 ^ 63" "sign = ''-'' \<longrightarrow> digits_value ds = 0"
      "rate_unit u = Some per" "r = \<lparr>ra_n = digits_value ds, ra_per = per\<rparr>"
      by (auto simp: Let_def)
    have "scan_int (sign @ ds @ junk) = Some (digits_value ds)"
      unfolding scan_int_Some using h(3,4,5) range(1) [OF h(3)] by (intro exI [of _ sign] exI [of _ ds] exI [of _ junk]) auto
    moreover have "cut_at (CHR ''/'') (trim_space raw) = Some (sign @ ds @ junk, u)"
      unfolding cut_at_Some using h(1,2) range(2,3) [OF h(3)] by simp
    ultimately show ?lhs using False h(6,7) range(1) [OF h(3)] by (simp add: UnmarshalRate_def Let_def)
  qed
qed

lemma rates_exact_witness: "UnmarshalRate (Some ''30/m'') = Inr \<lparr>ra_n = 30, ra_per = Minute\<rparr>"
proof -
  have t: "trim_space ''30/m'' = ''30/m''" by (intro trim_plain) (simp_all add: graphic_def byte_of_def)
  have d: "digits_value ''30'' = 30" "list_all digit_char ''30''"
    by (simp_all add: digits_value_def digit_value_def digit_char_def byte_of_def)
  show ?thesis
    unfolding rates_exact t Let_def
    by (simp, rule exI [of _ "[]"], rule exI [of _ "''30''"], rule exI [of _ "[]"], rule exI [of _ "''m''"])
      (simp add: number_shape_def d rate_unit_def digit_char_def byte_of_def)
qed

lemma junk_rate_accepted: "UnmarshalRate (Some ''30x0/m'') = Inr \<lparr>ra_n = 30, ra_per = Minute\<rparr>"
proof -
  have "trim_space ''30x0/m'' = ''30x0/m''" by (intro trim_plain) (simp_all add: graphic_def byte_of_def)
  then show ?thesis
    by (simp add: UnmarshalRate_def cut_at_def scan_int_def signed_parts_def digit_char_def digits_value_def digit_value_def
        byte_of_def rate_unit_def)
qed

end
