(* ===== verification/Desired.thy ===== *)
theory Desired
  imports Profiles
begin

text \<open>
  Package \<open>internal/desired\<close>: the manifest of profiles the controller publishes, how it is checked, written to
  disk and put into service, and the record of what is applied.

  The data directory is three trees: \<open>.next\<close>, \<open>.prev\<close> and \<open>profiles\<close>. Every call of the file system can fail;
  \<open>faults\<close> says which ones do and what a failed removal or write leaves behind. Decoding the manifest
  (\<open>encoding/json\<close>), the level names (\<open>loglevel\<close>) and the decoders of a profile are the outside
  (\<open>desired_world\<close>). \<open>Parse\<close> and \<open>Apply\<close> of the package are \<open>ParseManifest\<close> and \<open>ApplyManifest\<close>.
\<close>

record file_entry =
  f_name :: string
  f_text :: string

record settings =
  st_log_level :: string
  st_level :: int

text \<open>A \<open>Profile\<close> of the manifest is the list of its files.\<close>

record manifest =
  m_v :: int
  m_rev :: int
  m_config_hash :: string
  m_profiles :: "(string, file_entry list) gomap"
  m_settings :: "settings option"

record desired_world =
  dw_manifest :: "string \<Rightarrow> manifest option"
  dw_level :: "string \<Rightarrow> int option"
  dw_decode :: decoder
  dw_parses :: "string \<Rightarrow> bool"

datatype manifest_error =
    NotJson
  | BadVersion int
  | BadRev
  | NoDefaultProfile
  | EmptyProfile string
  | BadFileName string string
  | BadProfileName string
  | BadLogLevel
  | HashMismatch string string

abbreviation (input) "DefaultProfile \<equiv> ''default''"

section \<open>The manifest\<close>

text \<open>\<open>validate\<close> and \<open>writeSettings\<close> of \<open>settings.go\<close>.\<close>

definition settings_validate :: "desired_world \<Rightarrow> settings option \<Rightarrow> manifest_error + settings option" where
  "settings_validate w s =
     (case s of
        None \<Rightarrow> Inr None
      | Some s \<Rightarrow>
          (case dw_level w (st_log_level s) of
             None \<Rightarrow> Inl BadLogLevel
           | Some level \<Rightarrow> Inr (Some (s\<lparr>st_level := level\<rparr>))))"

definition zero_ended :: "string \<Rightarrow> string" where
  "zero_ended s = s @ [CHR 0x00]"

definition writeSettings :: "settings option \<Rightarrow> string" where
  "writeSettings s =
     (case s of None \<Rightarrow> []
      | Some s \<Rightarrow> zero_ended ''settings'' @ zero_ended ''log_level'' @ zero_ended (st_log_level s))"

definition sorted_names :: "(string, 'a) gomap \<Rightarrow> string list" where
  "sorted_names ps = sort (map fst ps)"

text \<open>What \<open>HashWith\<close> feeds to SHA-256.\<close>

definition hash_input :: "(string, file_entry list) gomap \<Rightarrow> settings option \<Rightarrow> string" where
  "hash_input profiles settings =
     concat (map (\<lambda>name. zero_ended name @
       concat (map (\<lambda>f. zero_ended (f_name f) @ zero_ended (f_text f)) (the (map_of profiles name))))
       (sorted_names profiles)) @
     writeSettings settings"

definition HashWith :: "(string, file_entry list) gomap \<Rightarrow> settings option \<Rightarrow> string" where
  "HashWith profiles settings = ''sha256:'' @ hex_encode (sha256 (hash_input profiles settings))"

definition Names :: "manifest \<Rightarrow> string list" where
  "Names m = sorted_names (m_profiles m)"

definition slashes :: string where
  "slashes = [CHR ''/'', CHR 0x5C]"

definition check_file :: "string \<Rightarrow> file_entry \<Rightarrow> manifest_error option" where
  "check_file name f =
     (if f_name f = [] \<or> contains_any (f_name f) slashes \<or> f_name f = ''.'' \<or> f_name f = ''..''
      then Some (BadFileName name (f_name f)) else None)"

definition check_profile :: "string \<times> file_entry list \<Rightarrow> manifest_error option" where
  "check_profile np =
     (case np of (name, files) \<Rightarrow>
        if name = [] \<or> files = [] then Some (EmptyProfile name)
        else case check_each 0 (\<lambda>_. check_file name) files of
          Some e \<Rightarrow> Some e
        | None \<Rightarrow>
            if name = ''.'' \<or> name = ''..'' \<or> contains_any name slashes then Some (BadProfileName name) else None)"

definition ParseManifest :: "desired_world \<Rightarrow> string \<Rightarrow> manifest_error + manifest" where
  "ParseManifest w raw =
     (case dw_manifest w raw of
        None \<Rightarrow> Inl NotJson
      | Some m \<Rightarrow>
          if m_v m \<noteq> 1 then Inl (BadVersion (m_v m))
          else if m_rev m < 1 then Inl BadRev
          else if map_of (m_profiles m) DefaultProfile = None then Inl NoDefaultProfile
          else case check_each 0 (\<lambda>_. check_profile) (m_profiles m) of
            Some e \<Rightarrow> Inl e
          | None \<Rightarrow>
              (case settings_validate w (m_settings m) of
                 Inl e \<Rightarrow> Inl e
               | Inr s \<Rightarrow>
                   let got = HashWith (m_profiles m) s
                   in if m_config_hash m \<noteq> [] \<and> m_config_hash m \<noteq> got
                      then Inl (HashMismatch got (m_config_hash m))
                      else Inr (m\<lparr>m_settings := s, m_config_hash := got\<rparr>)))"

section \<open>The data directory\<close>

type_synonym tree = "(string, (string, string) gomap) gomap"

record data_dir =
  dd_next :: "tree option"
  dd_prev :: "tree option"
  dd_live :: "tree option"

datatype call = MkDir | MkSub string | PutFile string string string

datatype removal = OldNext | BadNext | OldPrev | BadLive | LastPrev

datatype renaming = Park | Promote | Unpark | Restore

text \<open>
  What the file system does in one \<open>Apply\<close>: whether the data directory could be made, which calls of \<open>write\<close>
  fail and what is then in \<open>.next\<close>, what each removal leaves (\<^const>\<open>None\<close> after one that succeeds), which
  renamings fail though they could be done, and what the two reads of the live tree see.
\<close>

record faults =
  fa_data :: bool
  fa_call :: "call \<Rightarrow> bool"
  fa_broken :: "tree option"
  fa_left :: "removal \<Rightarrow> tree \<Rightarrow> tree option"
  fa_rename :: "renaming \<Rightarrow> bool"
  fa_read :: "tree option \<Rightarrow> conf_dir"
  fa_again :: "tree option \<Rightarrow> conf_dir"

definition removeAll :: "faults \<Rightarrow> removal \<Rightarrow> tree option \<Rightarrow> tree option" where
  "removeAll fa r t = (case t of None \<Rightarrow> None | Some t \<Rightarrow> fa_left fa r t)"

datatype rename_result = Moved tree | NotExist | NotMoved

text \<open>\<open>os.Rename\<close> of directories: the target is missing or an empty directory.\<close>

definition rename_tree :: "faults \<Rightarrow> renaming \<Rightarrow> tree option \<Rightarrow> tree option \<Rightarrow> rename_result" where
  "rename_tree fa r src dst =
     (case src of
        None \<Rightarrow> NotExist
      | Some t \<Rightarrow> if \<not> fa_rename fa r \<and> (dst = None \<or> dst = Some []) then Moved t else NotMoved)"

definition do_call :: "call \<Rightarrow> tree option \<Rightarrow> tree option" where
  "do_call c t =
     (case c of
        MkDir \<Rightarrow> (case t of None \<Rightarrow> Some [] | Some t \<Rightarrow> Some t)
      | MkSub name \<Rightarrow>
          map_option (\<lambda>t. case map_of t name of None \<Rightarrow> AList.update name [] t | Some _ \<Rightarrow> t) t
      | PutFile name file_name body \<Rightarrow>
          map_option (\<lambda>t. AList.update name (AList.update file_name body (map_get t name [])) t) t)"

fun run_calls :: "faults \<Rightarrow> call list \<Rightarrow> tree option \<Rightarrow> bool \<times> tree option" where
  "run_calls fa [] t = (True, t)"
| "run_calls fa (c # cs) t =
     (if fa_call fa c then (False, fa_broken fa) else run_calls fa cs (do_call c t))"

definition profile_calls :: "string \<times> file_entry list \<Rightarrow> call list" where
  "profile_calls np =
     (case np of (name, files) \<Rightarrow> MkSub name # map (\<lambda>f. PutFile name (f_name f) (f_text f)) files)"

definition write_calls :: "manifest \<Rightarrow> call list" where
  "write_calls m = MkDir # concat (map profile_calls (m_profiles m))"

definition write_tree :: "faults \<Rightarrow> manifest \<Rightarrow> tree option \<Rightarrow> bool \<times> tree option" where
  "write_tree fa m t = run_calls fa (write_calls m) t"

section \<open>Apply\<close>

datatype apply_error =
    DataDir
  | WriteFailed
  | ParkLive
  | PromoteStaging
  | ReloadFailed read_error

definition live_dir :: "string \<Rightarrow> string" where
  "live_dir dataDir = dataDir @ ''/profiles''"

definition reload_live ::
    "desired_world \<Rightarrow> (tree option \<Rightarrow> conf_dir) \<Rightarrow> string \<Rightarrow> tree option \<Rightarrow> prof_store \<Rightarrow> read_error option \<times> prof_store" where
  "reload_live w view dataDir live s =
     ReloadFrom (dw_decode w) (dw_parses w) (\<lambda>_. view live) (live_dir dataDir) s"

text \<open>From the renaming that promotes \<open>.next\<close> on; \<open>lived\<close> when there was a live tree to park.\<close>

definition promote ::
    "desired_world \<Rightarrow> faults \<Rightarrow> string \<Rightarrow> bool \<Rightarrow> data_dir \<Rightarrow> prof_store \<Rightarrow> apply_error option \<times> data_dir \<times> prof_store" where
  "promote w fa dataDir lived d s =
     (case rename_tree fa Promote (dd_next d) (dd_live d) of
        Moved t \<Rightarrow>
          let d = d\<lparr>dd_next := None, dd_live := Some t\<rparr>
          in (case reload_live w (fa_read fa) dataDir (dd_live d) s of
                (Some e, s) \<Rightarrow>
                  let d = d\<lparr>dd_live := removeAll fa BadLive (dd_live d)\<rparr>
                  in if lived
                     then (case rename_tree fa Restore (dd_prev d) (dd_live d) of
                             Moved t \<Rightarrow>
                               let d = d\<lparr>dd_prev := None, dd_live := Some t\<rparr>
                               in (Some (ReloadFailed e), d, snd (reload_live w (fa_again fa) dataDir (dd_live d) s))
                           | _ \<Rightarrow> (Some (ReloadFailed e), d, s))
                     else (Some (ReloadFailed e), d, s)
              | (None, s) \<Rightarrow> (None, d\<lparr>dd_prev := removeAll fa LastPrev (dd_prev d)\<rparr>, s))
      | _ \<Rightarrow>
          let d = (if lived
                   then (case rename_tree fa Unpark (dd_prev d) (dd_live d) of
                           Moved t \<Rightarrow> d\<lparr>dd_prev := None, dd_live := Some t\<rparr>
                         | _ \<Rightarrow> d)
                   else d)
          in (Some PromoteStaging, d\<lparr>dd_next := removeAll fa BadNext (dd_next d)\<rparr>, s))"

definition ApplyManifest ::
    "desired_world \<Rightarrow> faults \<Rightarrow> string \<Rightarrow> manifest \<Rightarrow> data_dir \<Rightarrow> prof_store \<Rightarrow> apply_error option \<times> data_dir \<times> prof_store" where
  "ApplyManifest w fa dataDir m d s =
     (if \<not> fa_data fa then (Some DataDir, d, s)
      else let d = d\<lparr>dd_next := removeAll fa OldNext (dd_next d)\<rparr>
           in case write_tree fa m (dd_next d) of
                (False, t) \<Rightarrow> (Some WriteFailed, d\<lparr>dd_next := removeAll fa BadNext t\<rparr>, s)
              | (True, t) \<Rightarrow>
                  let d = d\<lparr>dd_next := t, dd_prev := removeAll fa OldPrev (dd_prev d)\<rparr>
                  in (case rename_tree fa Park (dd_live d) (dd_prev d) of
                        NotMoved \<Rightarrow> (Some ParkLive, d\<lparr>dd_next := removeAll fa BadNext (dd_next d)\<rparr>, s)
                      | NotExist \<Rightarrow> promote w fa dataDir False d s
                      | Moved t \<Rightarrow> promote w fa dataDir True (d\<lparr>dd_live := None, dd_prev := Some t\<rparr>) s))"

section \<open>What is applied\<close>

abbreviation (input) "ApplyOK \<equiv> ''ok''"
abbreviation (input) "ApplyFailed \<equiv> ''apply_failed''"

record applied =
  ap_hash :: string
  ap_rev :: int
  ap_apply :: string
  ap_names :: "string list"

definition no_applied :: applied where
  "no_applied = \<lparr>ap_hash = [], ap_rev = 0, ap_apply = [], ap_names = []\<rparr>"

definition applied_snapshot :: "applied option \<Rightarrow> applied" where
  "applied_snapshot a = (case a of None \<Rightarrow> no_applied | Some a \<Rightarrow> a)"

text \<open>\<open>apply\<close> of \<open>settings.go\<close>: the level the process logs at.\<close>

definition settings_apply :: "settings option \<Rightarrow> int option \<Rightarrow> int option" where
  "settings_apply s level =
     (case (s, level) of
        (Some s, Some l) \<Rightarrow> Some (if l = st_level s then l else st_level s)
      | _ \<Rightarrow> level)"

record node =
  nd_applied :: applied
  nd_disk :: data_dir
  nd_store :: prof_store
  nd_level :: "int option"

text \<open>
  One turn of the loop of \<open>Watch\<close>: an update of the key (\<open>nil\<close> marks the end of the initial values), met by
  the file system of \<open>fa\<close>.
\<close>

datatype kv_entry = KvNil | KvDelete | KvPurge | KvPut string

definition watch_put :: "desired_world \<Rightarrow> faults \<Rightarrow> string \<Rightarrow> string \<Rightarrow> node \<Rightarrow> node" where
  "watch_put w fa dataDir raw n =
     (case ParseManifest w raw of
        Inl _ \<Rightarrow> n
      | Inr m \<Rightarrow>
          let a = applied_snapshot (Some (nd_applied n))
          in if ap_apply a = ApplyOK \<and> ap_hash a = m_config_hash m \<and> ap_rev a = m_rev m then n
             else (case ApplyManifest w fa dataDir m (nd_disk n) (nd_store n) of
                     (Some _, d, s) \<Rightarrow>
                       n\<lparr>nd_disk := d, nd_store := s,
                         nd_applied := \<lparr>ap_hash = ap_hash a, ap_rev = ap_rev a, ap_apply = ApplyFailed, ap_names = ap_names a\<rparr>\<rparr>
                   | (None, d, s) \<Rightarrow>
                       n\<lparr>nd_disk := d, nd_store := s,
                         nd_applied := \<lparr>ap_hash = m_config_hash m, ap_rev = m_rev m, ap_apply = ApplyOK, ap_names = Names m\<rparr>,
                         nd_level := settings_apply (m_settings m) (nd_level n)\<rparr>))"

definition watch_entry :: "desired_world \<Rightarrow> string \<Rightarrow> faults \<times> kv_entry \<Rightarrow> node \<Rightarrow> node" where
  "watch_entry w dataDir fe n =
     (case snd fe of
        KvNil \<Rightarrow> n
      | KvDelete \<Rightarrow> n
      | KvPurge \<Rightarrow> n
      | KvPut raw \<Rightarrow> watch_put w (fst fe) dataDir raw n)"

text \<open>\<open>Watch\<close>: what it needs of the bus, and the loop of its goroutine over what its \<open>select\<close> gives.\<close>

datatype watch_error = NoJetStream | NoBucket | NoWatcher

definition watch_start :: "bool \<Rightarrow> bool \<Rightarrow> bool \<Rightarrow> watch_error + applied" where
  "watch_start js kv watcher =
     (if \<not> js then Inl NoJetStream else if \<not> kv then Inl NoBucket else if \<not> watcher then Inl NoWatcher
      else Inr no_applied)"

datatype watch_event = CtxDone | UpdatesClosed | Update faults kv_entry

fun watch_loop :: "desired_world \<Rightarrow> string \<Rightarrow> watch_event list \<Rightarrow> node \<Rightarrow> node" where
  "watch_loop w dataDir [] n = n"
| "watch_loop w dataDir (CtxDone # es) n = n"
| "watch_loop w dataDir (UpdatesClosed # es) n = n"
| "watch_loop w dataDir (Update fa e # es) n = watch_loop w dataDir es (watch_entry w dataDir (fa, e) n)"

text \<open>\<open>Bootstrap\<close>: the tree the last run left, when it has the profile of the default.\<close>

definition Bootstrap ::
    "desired_world \<Rightarrow> (tree option \<Rightarrow> conf_dir) \<Rightarrow> string \<Rightarrow> tree option \<Rightarrow> prof_store \<Rightarrow> bool \<times> prof_store" where
  "Bootstrap w view dataDir live s =
     (if dataDir = [] then (False, s)
      else if Option.bind (Option.bind live (\<lambda>t. map_of t DefaultProfile)) (\<lambda>fs. map_of fs ''profile.yaml'') = None
      then (False, s)
      else case reload_live w view dataDir live s of
        (Some _, s) \<Rightarrow> (False, s)
      | (None, s) \<Rightarrow> (True, s))"

section \<open>The store stays valid\<close>

lemma reload_live_ok: "store_ok s \<Longrightarrow> store_ok (snd (reload_live w view dir live s))"
  by (auto simp: reload_live_def ReloadFrom_def store_ok_def dest: read_snapshot_ok split: sum.split)

lemma reload_live_pair_ok: "reload_live w view dir live s = (e, s') \<Longrightarrow> store_ok s \<Longrightarrow> store_ok s'"
  using reload_live_ok [of s w view dir live] by simp

lemma promote_store_ok:
  assumes "store_ok s"
  shows "store_ok (snd (snd (promote w fa dir lived d s)))"
  using assms
  by (auto simp: promote_def Let_def reload_live_ok dest!: reload_live_pair_ok
      split: rename_result.split option.split prod.split)

lemma apply_store_ok:
  assumes "store_ok s"
  shows "store_ok (snd (snd (ApplyManifest w fa dir m d s)))"
  using assms by (simp add: ApplyManifest_def Let_def promote_store_ok split: rename_result.split prod.split bool.split)

lemma apply_pair_store_ok: "ApplyManifest w fa dir m d s = (e, d', s') \<Longrightarrow> store_ok s \<Longrightarrow> store_ok s'"
  using apply_store_ok [of s w fa dir m d] by simp

lemma watch_entry_store_ok:
  assumes "store_ok (nd_store n)"
  shows "store_ok (nd_store (watch_entry w dir ev n))"
proof (cases ev)
  case (Pair fa e)
  show ?thesis
  proof (cases e)
    case (KvPut raw)
    show ?thesis
    proof (cases "ParseManifest w raw")
      case (Inr m)
      obtain x d s where a: "ApplyManifest w fa dir m (nd_disk n) (nd_store n) = (x, d, s)"
        by (cases "ApplyManifest w fa dir m (nd_disk n) (nd_store n)")
      have "store_ok s" by (rule apply_pair_store_ok [OF a assms])
      then show ?thesis
        using assms a Inr KvPut Pair by (cases x) (auto simp: watch_entry_def watch_put_def Let_def)
    qed (use assms KvPut Pair in \<open>simp add: watch_entry_def watch_put_def\<close>)
  qed (use assms Pair in \<open>simp_all add: watch_entry_def\<close>)
qed

lemma watch_run_store_ok: "store_ok (nd_store n) \<Longrightarrow> store_ok (nd_store (fold (watch_entry w dir) evs n))"
  by (induction evs arbitrary: n) (simp_all add: watch_entry_store_ok)

text \<open>Where the store reads from: the live tree, unless the manifest failed and it did not before.\<close>

lemma reload_live_dir:
  "ps_dir (snd (reload_live w view dir live s)) = (if fst (reload_live w view dir live s) = None then live_dir dir else ps_dir s)"
  by (simp add: reload_live_def ReloadFrom_def split: sum.split)

lemma reload_live_pair_dir:
  "reload_live w view dir live s = (e, s') \<Longrightarrow> ps_dir s' = (if e = None then live_dir dir else ps_dir s)"
  using reload_live_dir [of w view dir live s] by simp

lemma promote_dir:
  assumes "promote w fa dir lived d s = (e, d', s')"
  shows "ps_dir s' = live_dir dir \<or> e \<noteq> None \<and> ps_dir s' = ps_dir s"
  using assms
  by (auto simp: promote_def Let_def reload_live_dir dest!: reload_live_pair_dir
      split: rename_result.splits option.splits prod.splits if_splits)

lemma apply_dir:
  assumes "ApplyManifest w fa dir m d s = (e, d', s')"
  shows "ps_dir s' = live_dir dir \<or> e \<noteq> None \<and> ps_dir s' = ps_dir s"
  using assms
  by (auto simp: ApplyManifest_def Let_def dest: promote_dir split: rename_result.splits prod.splits bool.splits if_splits)

definition reads_live :: "string \<Rightarrow> node \<Rightarrow> bool" where
  "reads_live dir n \<longleftrightarrow> (ap_hash (nd_applied n) \<noteq> [] \<longrightarrow> ps_dir (nd_store n) = live_dir dir)"

lemma watch_entry_reads_live:
  assumes "reads_live dir n"
  shows "reads_live dir (watch_entry w dir ev n)"
proof (cases ev)
  case (Pair fa e)
  show ?thesis
  proof (cases e)
    case (KvPut raw)
    show ?thesis
    proof (cases "ParseManifest w raw")
      case (Inr m)
      obtain x d s where a: "ApplyManifest w fa dir m (nd_disk n) (nd_store n) = (x, d, s)"
        by (cases "ApplyManifest w fa dir m (nd_disk n) (nd_store n)")
      show ?thesis
        using assms a apply_dir [OF a] Inr KvPut Pair
        by (cases x) (auto simp: watch_entry_def watch_put_def Let_def reads_live_def applied_snapshot_def)
    qed (use assms KvPut Pair in \<open>simp add: watch_entry_def watch_put_def\<close>)
  qed (use assms Pair in \<open>simp_all add: watch_entry_def\<close>)
qed

section \<open>What is written\<close>

text \<open>A file of a tree, and a file of a manifest: of two with one name the later one is kept.\<close>

definition tree_file :: "tree \<Rightarrow> string \<Rightarrow> string \<Rightarrow> string option" where
  "tree_file t name file_name = Option.bind (map_of t name) (\<lambda>fs. map_of fs file_name)"

definition manifest_file :: "manifest \<Rightarrow> string \<Rightarrow> string \<Rightarrow> string option" where
  "manifest_file m name file_name =
     Option.bind (map_of (m_profiles m) name) (\<lambda>fs. map_of (rev (map (\<lambda>f. (f_name f, f_text f)) fs)) file_name)"

text \<open>The tree has the profiles of the manifest and their files, and nothing else.\<close>

definition holds :: "tree \<Rightarrow> manifest \<Rightarrow> bool" where
  "holds t m \<longleftrightarrow> dom (map_of t) = dom (map_of (m_profiles m)) \<and>
     (\<forall>name file_name. tree_file t name file_name = manifest_file m name file_name)"

lemma run_calls_fold: "run_calls fa cs t = (True, t') \<Longrightarrow> t' = fold do_call cs t"
  by (induction fa cs t rule: run_calls.induct) (auto split: if_splits)

lemma put_files:
  "map_of t name = Some fs \<Longrightarrow>
   \<exists>t'. fold do_call (map (\<lambda>f. PutFile name (f_name f) (f_text f)) files) (Some t) = Some t' \<and>
     map_of t' = (map_of t)(name \<mapsto> fold (\<lambda>f. AList.update (f_name f) (f_text f)) files fs)"
proof (induction files arbitrary: t fs)
  case Nil
  then show ?case by (auto simp: fun_upd_idem)
next
  case (Cons f files)
  let ?t = "AList.update name (AList.update (f_name f) (f_text f) fs) t"
  have "map_of ?t name = Some (AList.update (f_name f) (f_text f) fs)" by (simp add: update_conv')
  from Cons.IH [OF this] obtain t' where
    "fold do_call (map (\<lambda>f. PutFile name (f_name f) (f_text f)) files) (Some ?t) = Some t'"
    "map_of t' = (map_of t)(name \<mapsto> fold (\<lambda>f. AList.update (f_name f) (f_text f)) (f # files) fs)"
    by (auto simp: update_conv' fun_eq_iff)
  moreover have "do_call (PutFile name (f_name f) (f_text f)) (Some t) = Some ?t"
    using Cons.prems by (simp add: do_call_def map_get_def)
  ultimately show ?case by auto
qed

lemma put_all:
  "map_of (fold (\<lambda>f. AList.update (f_name f) (f_text f)) files fs) k =
   (case map_of (rev (map (\<lambda>f. (f_name f, f_text f)) files)) k of None \<Rightarrow> map_of fs k | Some x \<Rightarrow> Some x)"
proof (induction files arbitrary: fs)
  case (Cons f files)
  show ?case
    by (simp add: Cons map_add_def update_conv' split: option.split)
qed simp

lemma put_all_empty:
  "map_of (fold (\<lambda>f. AList.update (f_name f) (f_text f)) files []) k = map_of (rev (map (\<lambda>f. (f_name f, f_text f)) files)) k"
  by (simp add: put_all split: option.split)

lemma profile_calls_tree:
  assumes "map_of t (fst np) = None"
  shows "\<exists>t'. fold do_call (profile_calls np) (Some t) = Some t' \<and>
    map_of t' = (map_of t)(fst np \<mapsto> fold (\<lambda>f. AList.update (f_name f) (f_text f)) (snd np) [])"
proof -
  obtain name files where np: "np = (name, files)" by (cases np)
  have "map_of (AList.update name [] t) name = Some []" by (simp add: update_conv')
  from put_files [OF this, of files] show ?thesis
    using assms by (auto simp: np profile_calls_def do_call_def update_conv')
qed

lemma all_calls_tree:
  assumes "distinct (map fst ps)" "\<forall>np \<in> set ps. map_of t (fst np) = None"
  shows "\<exists>t'. fold do_call (concat (map profile_calls ps)) (Some t) = Some t' \<and>
    map_of t' = map_of t ++ (\<lambda>n. map_option (\<lambda>files. fold (\<lambda>f. AList.update (f_name f) (f_text f)) files []) (map_of ps n))"
  using assms
proof (induction ps arbitrary: t)
  case Nil
  then show ?case by (auto simp: map_add_def)
next
  case (Cons np ps)
  obtain t1 where t1: "fold do_call (profile_calls np) (Some t) = Some t1"
      "map_of t1 = (map_of t)(fst np \<mapsto> fold (\<lambda>f. AList.update (f_name f) (f_text f)) (snd np) [])"
    using profile_calls_tree [of t np] Cons.prems(2) by auto
  have new: "map_of ps (fst np) = None" using Cons.prems(1) by (auto simp: map_of_eq_None_iff)
  have "\<forall>q \<in> set ps. map_of t1 (fst q) = None"
    using Cons.prems t1(2) by (auto simp: image_iff)
  then obtain t2 where "fold do_call (concat (map profile_calls ps)) (Some t1) = Some t2"
      "map_of t2 = map_of t1 ++ (\<lambda>n. map_option (\<lambda>files. fold (\<lambda>f. AList.update (f_name f) (f_text f)) files []) (map_of ps n))"
    using Cons.IH [of t1] Cons.prems(1) by auto
  moreover have "map_of t1 ++ (\<lambda>n. map_option (\<lambda>files. fold (\<lambda>f. AList.update (f_name f) (f_text f)) files []) (map_of ps n)) =
      map_of t ++ (\<lambda>n. map_option (\<lambda>files. fold (\<lambda>f. AList.update (f_name f) (f_text f)) files []) (map_of (np # ps) n))"
    using new t1(2) by (cases np) (auto simp: map_add_def fun_eq_iff split: option.split)
  ultimately show ?case using t1(1) by (cases np) auto
qed

lemma write_holds:
  assumes "write_tree fa m None = (True, t)" "distinct (map fst (m_profiles m))"
  shows "\<exists>t'. t = Some t' \<and> holds t' m"
proof -
  have "t = fold do_call (concat (map profile_calls (m_profiles m))) (Some [])"
    using run_calls_fold [OF assms(1) [unfolded write_tree_def]] by (simp add: do_call_def write_calls_def)
  then obtain t' where t': "t = Some t'"
      "map_of t' = (\<lambda>n. map_option (\<lambda>files. fold (\<lambda>f. AList.update (f_name f) (f_text f)) files []) (map_of (m_profiles m) n))"
    using all_calls_tree [OF assms(2), of "[]"] by auto
  then have "holds t' m"
    by (auto simp: holds_def tree_file_def manifest_file_def put_all_empty dom_def Option.bind_map_option comp_def)
  then show ?thesis using t'(1) by blast
qed

section \<open>All or nothing\<close>

text \<open>Removals succeed, and a parked tree can be moved back.\<close>

definition recovers :: "faults \<Rightarrow> bool" where
  "recovers fa \<longleftrightarrow> (\<forall>r t. fa_left fa r t = None) \<and> \<not> fa_rename fa Unpark \<and> \<not> fa_rename fa Restore"

text \<open>The store serves what a view of the live tree gave.\<close>

definition serves :: "desired_world \<Rightarrow> (tree option \<Rightarrow> conf_dir) \<Rightarrow> tree option \<Rightarrow> snapshot \<Rightarrow> bool" where
  "serves w view live sn \<longleftrightarrow> (\<exists>g. read_snapshot (dw_decode w) (dw_parses w) (view live) g = Inr sn)"

lemma remove_recovers [simp]: "recovers fa \<Longrightarrow> removeAll fa r t = None"
  by (auto simp: removeAll_def recovers_def split: option.split)

lemma reload_live_cases:
  "reload_live w view dataDir live s = (e, s') \<Longrightarrow>
   (e = None \<longrightarrow> serves w view live (ps_cur s') \<and> ps_dir s' = live_dir dataDir) \<and> (e \<noteq> None \<longrightarrow> s' = s)"
  by (auto simp: reload_live_def ReloadFrom_def serves_def split: sum.splits)

lemma promote_spec:
  assumes "promote w fa dataDir lived d s = (e, d', s')" "recovers fa" "dd_live d = None"
    "lived \<longleftrightarrow> dd_prev d \<noteq> None"
  shows "(e = None \<longrightarrow> dd_live d' = dd_next d \<and> dd_next d \<noteq> None \<and> dd_next d' = None \<and> dd_prev d' = None \<and>
       serves w (fa_read fa) (dd_next d) (ps_cur s') \<and> ps_dir s' = live_dir dataDir) \<and>
     (e \<noteq> None \<longrightarrow> dd_live d' = dd_prev d \<and> dd_next d' = None \<and>
       (s' = s \<or> dd_live d' \<noteq> None \<and> serves w (fa_again fa) (dd_live d') (ps_cur s') \<and> ps_dir s' = live_dir dataDir))"
proof (cases "rename_tree fa Promote (dd_next d) (dd_live d)")
  case (Moved t)
  then have t: "dd_next d = Some t" by (auto simp: rename_tree_def split: option.splits if_splits)
  obtain e1 s1 where r: "reload_live w (fa_read fa) dataDir (Some t) s = (e1, s1)" by (cases "reload_live w (fa_read fa) dataDir (Some t) s")
  note rc = reload_live_cases [OF r]
  show ?thesis
  proof (cases e1)
    case None
    then show ?thesis using assms(1,2) Moved r rc t by (auto simp: promote_def)
  next
    case (Some e2)
    then have s1: "s1 = s" using rc by simp
    show ?thesis
    proof (cases "dd_prev d")
      case None
      then show ?thesis using assms(1,2,4) Moved r Some s1 by (auto simp: promote_def)
    next
      case (Some t0)
      then have "rename_tree fa Restore (Some t0) None = Moved t0" using assms(2) by (simp add: rename_tree_def recovers_def)
      moreover obtain e3 s3 where r3: "reload_live w (fa_again fa) dataDir (Some t0) s = (e3, s3)"
        by (cases "reload_live w (fa_again fa) dataDir (Some t0) s")
      ultimately show ?thesis
        using assms(1,2,4) Moved r \<open>e1 = Some e2\<close> s1 Some reload_live_cases [OF r3]
        by (cases e3) (auto simp: promote_def)
    qed
  qed
next
  case NotExist
  then show ?thesis
    using assms by (cases "dd_prev d") (auto simp: promote_def rename_tree_def recovers_def)
next
  case NotMoved
  then show ?thesis
    using assms by (cases "dd_prev d") (auto simp: promote_def rename_tree_def recovers_def)
qed

lemma apply_spec:
  assumes "ApplyManifest w fa dataDir m d s = (e, d', s')" "recovers fa" "distinct (map fst (m_profiles m))"
  shows "(e = None \<longrightarrow> (\<exists>t. dd_live d' = Some t \<and> holds t m \<and> serves w (fa_read fa) (Some t) (ps_cur s') \<and>
       ps_dir s' = live_dir dataDir \<and> dd_next d' = None \<and> dd_prev d' = None)) \<and>
     (e \<noteq> None \<longrightarrow> dd_live d' = dd_live d \<and>
       (s' = s \<or> dd_live d' \<noteq> None \<and> serves w (fa_again fa) (dd_live d') (ps_cur s') \<and> ps_dir s' = live_dir dataDir))"
proof -
  obtain ok t where w: "write_tree fa m None = (ok, t)" by (cases "write_tree fa m None")
  consider (data) "\<not> fa_data fa" | (broken) "fa_data fa" "\<not> ok" | (new) "fa_data fa" "ok" "dd_live d = None"
    | (parked) t0 where "fa_data fa" "ok" "dd_live d = Some t0" "\<not> fa_rename fa Park"
    | (stuck) t0 where "fa_data fa" "ok" "dd_live d = Some t0" "fa_rename fa Park"
    by (cases "dd_live d") auto
  then show ?thesis
  proof cases
    case new
    obtain t1 where "t = Some t1" "holds t1 m" using write_holds [OF _ assms(3)] w new(2) by auto
    moreover have "promote w fa dataDir False (d\<lparr>dd_next := t, dd_prev := None\<rparr>) s = (e, d', s')"
      using assms(1,2) w new by (simp add: ApplyManifest_def rename_tree_def)
    ultimately show ?thesis using promote_spec [of w fa dataDir False _ s e d' s'] assms(2) new(3) by fastforce
  next
    case parked
    obtain t1 where "t = Some t1" "holds t1 m" using write_holds [OF _ assms(3)] w parked(2) by auto
    moreover have "promote w fa dataDir True (d\<lparr>dd_next := t, dd_live := None, dd_prev := Some t0\<rparr>) s = (e, d', s')"
      using assms(1,2) w parked by (simp add: ApplyManifest_def rename_tree_def)
    ultimately show ?thesis using promote_spec [of w fa dataDir True _ s e d' s'] assms(2) parked(3) by fastforce
  qed (use assms(1,2) w in \<open>auto simp: ApplyManifest_def rename_tree_def\<close>)
qed

lemma if_Inl_Inr: "(if b then Inl e else x) = Inr y \<longleftrightarrow> \<not> b \<and> x = Inr y"
  by simp

lemma parsed_fields:
  assumes "ParseManifest w raw = Inr m"
  shows "\<exists>m0. dw_manifest w raw = Some m0 \<and> m_profiles m = m_profiles m0 \<and> m_v m = 1 \<and> 1 \<le> m_rev m \<and>
    map_of (m_profiles m) DefaultProfile \<noteq> None \<and> check_each 0 (\<lambda>_. check_profile) (m_profiles m) = None \<and>
    m_config_hash m = HashWith (m_profiles m) (m_settings m) \<and> m_config_hash m0 \<in> {[], m_config_hash m}"
proof -
  obtain m0 where m0: "dw_manifest w raw = Some m0" using assms by (cases "dw_manifest w raw") (simp_all add: ParseManifest_def)
  have chk: "\<not> m_v m0 \<noteq> 1" "\<not> m_rev m0 < 1" "\<not> map_of (m_profiles m0) DefaultProfile = None"
      "check_each 0 (\<lambda>_. check_profile) (m_profiles m0) = None"
      "(case settings_validate w (m_settings m0) of
          Inl e \<Rightarrow> Inl e
        | Inr s \<Rightarrow>
            let got = HashWith (m_profiles m0) s
            in if m_config_hash m0 \<noteq> [] \<and> m_config_hash m0 \<noteq> got then Inl (HashMismatch got (m_config_hash m0))
               else Inr (m0\<lparr>m_settings := s, m_config_hash := got\<rparr>)) = Inr m"
    using assms unfolding ParseManifest_def m0 option.case if_Inl_Inr
    by (simp_all only: if_Inl_Inr split: option.splits) simp_all
  then obtain s where "m = m0\<lparr>m_settings := s, m_config_hash := HashWith (m_profiles m0) s\<rparr>"
      "m_config_hash m0 \<in> {[], HashWith (m_profiles m0) s}"
    by (auto simp: Let_def split: sum.splits if_splits)
  then show ?thesis using m0 chk(1-4) by simp
qed

lemma hash_nonempty: "HashWith ps s \<noteq> []"
  by (simp add: HashWith_def)

text \<open>
  What the record of the applied manifest says of the disk and of the store: of the manifests received one
  parses to it, its files are the live tree, and the store serves what one of the reads saw of that tree.
\<close>

definition received :: "(faults \<times> kv_entry) list \<Rightarrow> string set" where
  "received evs = {raw. \<exists>fa. (fa, KvPut raw) \<in> set evs}"

definition views :: "(faults \<times> kv_entry) list \<Rightarrow> (tree option \<Rightarrow> conf_dir) set" where
  "views evs = fa_read ` fst ` set evs \<union> fa_again ` fst ` set evs"

definition stands_for ::
    "desired_world \<Rightarrow> string \<Rightarrow> string set \<Rightarrow> (tree option \<Rightarrow> conf_dir) set \<Rightarrow> applied \<Rightarrow> tree option \<Rightarrow> prof_store \<Rightarrow> bool" where
  "stands_for w dataDir raws vs a live s \<longleftrightarrow>
     (\<exists>raw \<in> raws. \<exists>m t. ParseManifest w raw = Inr m \<and> ap_hash a = m_config_hash m \<and> ap_rev a = m_rev m \<and> ap_names a = Names m \<and>
        live = Some t \<and> holds t m) \<and>
     ps_dir s = live_dir dataDir \<and> (\<exists>view \<in> vs. serves w view live (ps_cur s))"

definition applied_ok :: "desired_world \<Rightarrow> string \<Rightarrow> (faults \<times> kv_entry) list \<Rightarrow> tree option \<Rightarrow> node \<Rightarrow> bool" where
  "applied_ok w dataDir evs live0 n \<longleftrightarrow>
     (if ap_hash (nd_applied n) = [] then dd_live (nd_disk n) = live0 \<and> ap_apply (nd_applied n) \<noteq> ApplyOK
      else stands_for w dataDir (received evs) (views evs) (nd_applied n) (dd_live (nd_disk n)) (nd_store n)) \<and>
     ap_apply (nd_applied n) \<in> {[], ApplyOK, ApplyFailed}"

lemma stands_for_more:
  "stands_for w dataDir raws vs a live s \<Longrightarrow> raws \<subseteq> raws' \<Longrightarrow> vs \<subseteq> vs' \<Longrightarrow> stands_for w dataDir raws' vs' a live s"
  unfolding stands_for_def by (meson subsetD)

lemma stands_for_other:
  assumes "stands_for w dataDir raws vs a live s" "ap_hash a' = ap_hash a" "ap_rev a' = ap_rev a" "ap_names a' = ap_names a"
    "s' = s \<or> (\<exists>view \<in> vs. serves w view live (ps_cur s')) \<and> ps_dir s' = live_dir dataDir"
  shows "stands_for w dataDir raws vs a' live s'"
  using assms(1,5) unfolding stands_for_def assms(2-4) by blast

lemma more_events: "received evs \<subseteq> received (evs @ [ev])" "views evs \<subseteq> views (evs @ [ev])"
  by (auto simp: received_def views_def)

lemma applied_ok_more: "applied_ok w dataDir evs live0 n \<Longrightarrow> applied_ok w dataDir (evs @ [ev]) live0 n"
  using stands_for_more [OF _ more_events] by (simp add: applied_ok_def split: if_splits)

lemma watch_put_cases:
  assumes "ParseManifest w raw = Inr m" "ApplyManifest w fa dataDir m (nd_disk n) (nd_store n) = (e, d, s)"
  shows "watch_put w fa dataDir raw n = n \<or>
    e = None \<and> watch_put w fa dataDir raw n =
      n\<lparr>nd_disk := d, nd_store := s,
        nd_applied := \<lparr>ap_hash = m_config_hash m, ap_rev = m_rev m, ap_apply = ApplyOK, ap_names = Names m\<rparr>,
        nd_level := settings_apply (m_settings m) (nd_level n)\<rparr> \<or>
    e \<noteq> None \<and> watch_put w fa dataDir raw n =
      n\<lparr>nd_disk := d, nd_store := s, nd_applied := (nd_applied n)\<lparr>ap_apply := ApplyFailed\<rparr>\<rparr>"
proof (cases "ap_apply (nd_applied n) = ApplyOK \<and> ap_hash (nd_applied n) = m_config_hash m \<and> ap_rev (nd_applied n) = m_rev m")
  case True
  then show ?thesis using assms(1) by (simp add: watch_put_def Let_def applied_snapshot_def)
next
  case False
  have a: "\<lparr>ap_hash = ap_hash (nd_applied n), ap_rev = ap_rev (nd_applied n), ap_apply = ApplyFailed, ap_names = ap_names (nd_applied n)\<rparr> =
      (nd_applied n)\<lparr>ap_apply := ApplyFailed\<rparr>" by simp
  show ?thesis
    unfolding watch_put_def assms sum.case Let_def applied_snapshot_def option.case if_not_P [OF False] prod.case a
    by (cases e) simp_all
qed

lemma watch_put_ok:
  assumes ok: "applied_ok w dataDir evs live0 n" and rec: "recovers fa"
    and keys: "\<And>raw m. dw_manifest w raw = Some m \<Longrightarrow> distinct (map fst (m_profiles m))"
  shows "applied_ok w dataDir (evs @ [(fa, KvPut raw)]) live0 (watch_put w fa dataDir raw n)"
proof (cases "ParseManifest w raw")
  case (Inl e)
  then show ?thesis using applied_ok_more [OF ok] by (simp add: watch_put_def)
next
  case (Inr m)
  let ?evs = "evs @ [(fa, KvPut raw)]"
  obtain e d s where a: "ApplyManifest w fa dataDir m (nd_disk n) (nd_store n) = (e, d, s)"
    by (cases "ApplyManifest w fa dataDir m (nd_disk n) (nd_store n)")
  have "distinct (map fst (m_profiles m))" using parsed_fields [OF Inr] keys by metis
  note sp = apply_spec [OF a rec this]
  have h: "m_config_hash m \<noteq> []" using parsed_fields [OF Inr] hash_nonempty by metis
  have v: "raw \<in> received ?evs" "fa_read fa \<in> views ?evs" "fa_again fa \<in> views ?evs"
    by (auto simp: received_def views_def)
  have old: "applied_ok w dataDir ?evs live0 n" by (rule applied_ok_more [OF ok])
  show ?thesis
    using watch_put_cases [OF Inr a]
  proof (elim disjE conjE)
    assume "watch_put w fa dataDir raw n = n"
    then show ?thesis using old by simp
  next
    assume n: "watch_put w fa dataDir raw n =
      n\<lparr>nd_disk := d, nd_store := s,
        nd_applied := \<lparr>ap_hash = m_config_hash m, ap_rev = m_rev m, ap_apply = ApplyOK, ap_names = Names m\<rparr>,
        nd_level := settings_apply (m_settings m) (nd_level n)\<rparr>" and "e = None"
    then obtain t where "dd_live d = Some t" "holds t m" "serves w (fa_read fa) (Some t) (ps_cur s)" "ps_dir s = live_dir dataDir"
      using sp by blast
    then have "stands_for w dataDir (received ?evs) (views ?evs)
        \<lparr>ap_hash = m_config_hash m, ap_rev = m_rev m, ap_apply = ApplyOK, ap_names = Names m\<rparr> (dd_live d) s"
      unfolding stands_for_def using Inr v(1,2) by auto
    then show ?thesis using h by (simp add: applied_ok_def n)
  next
    assume n: "watch_put w fa dataDir raw n =
      n\<lparr>nd_disk := d, nd_store := s, nd_applied := (nd_applied n)\<lparr>ap_apply := ApplyFailed\<rparr>\<rparr>" and "e \<noteq> None"
    then have live: "dd_live d = dd_live (nd_disk n)"
      "s = nd_store n \<or> (\<exists>view \<in> views ?evs. serves w view (dd_live (nd_disk n)) (ps_cur s)) \<and> ps_dir s = live_dir dataDir"
      using sp v(3) by auto
    show ?thesis
      using old live(1) stands_for_other [OF _ _ _ _ live(2), of _ "nd_applied n" "(nd_applied n)\<lparr>ap_apply := ApplyFailed\<rparr>"]
      by (simp add: applied_ok_def n split: if_splits)
  qed
qed

lemma watch_entry_ok:
  assumes "applied_ok w dataDir evs live0 n" "recovers (fst ev)"
    and "\<And>raw m. dw_manifest w raw = Some m \<Longrightarrow> distinct (map fst (m_profiles m))"
  shows "applied_ok w dataDir (evs @ [ev]) live0 (watch_entry w dataDir ev n)"
proof (cases ev)
  case (Pair fa e)
  then show ?thesis
    using applied_ok_more [OF assms(1), of ev] watch_put_ok [OF assms(1) _ assms(3), of fa] assms(2)
    by (cases e) (auto simp: watch_entry_def)
qed

lemma watch_run_ok:
  assumes "nd_applied n0 = no_applied"
    and "\<And>raw m. dw_manifest w raw = Some m \<Longrightarrow> distinct (map fst (m_profiles m))"
  shows "(\<And>ev. ev \<in> set evs \<Longrightarrow> recovers (fst ev)) \<Longrightarrow> applied_ok w dataDir evs (dd_live (nd_disk n0)) (fold (watch_entry w dataDir) evs n0)"
proof (induction evs rule: rev_induct)
  case Nil
  then show ?case using assms(1) by (simp add: applied_ok_def no_applied_def)
next
  case (snoc ev evs)
  then show ?case using watch_entry_ok [OF _ _ assms(2)] by simp
qed

section \<open>Properties\<close>


definition sample_manifest :: manifest where
  "sample_manifest = \<lparr>m_v = 1, m_rev = 7, m_config_hash = [],
     m_profiles = [(DefaultProfile, [\<lparr>f_name = ''profile.yaml'', f_text = ''sample''\<rparr>])], m_settings = None\<rparr>"

definition sample_desired :: desired_world where
  "sample_desired = \<lparr>dw_manifest = map_of [(''m'', sample_manifest)], dw_level = \<lambda>_. None,
     dw_decode = toy_decode, dw_parses = \<lambda>_. True\<rparr>"

definition sample_faults :: faults where
  "sample_faults = \<lparr>fa_data = True, fa_call = \<lambda>_. False, fa_broken = None, fa_left = \<lambda>_ _. None,
     fa_rename = \<lambda>_. False, fa_read = \<lambda>_. toy_dir, fa_again = \<lambda>_. toy_dir\<rparr>"

lemma sample_parses:
  "ParseManifest sample_desired ''m'' =
   Inr (sample_manifest\<lparr>m_config_hash := HashWith (m_profiles sample_manifest) None\<rparr>)"
proof -
  have "check_each 0 (\<lambda>_. check_profile) (m_profiles sample_manifest) = None" by code_simp
  moreover have "m_v sample_manifest = 1" "m_rev sample_manifest = 7" "m_config_hash sample_manifest = []"
    "m_settings sample_manifest = None" "map_of (m_profiles sample_manifest) DefaultProfile \<noteq> None"
    by (simp_all add: sample_manifest_def)
  moreover have "sample_manifest\<lparr>m_settings := None\<rparr> = sample_manifest" by (simp add: sample_manifest_def)
  ultimately show ?thesis
    by (simp add: ParseManifest_def sample_desired_def settings_validate_def Let_def)
qed

lemma sample_tree:
  "write_tree sample_faults (sample_manifest\<lparr>m_config_hash := h\<rparr>) None = (True, Some [(DefaultProfile, [(''profile.yaml'', ''sample'')])])"
  by (simp add: write_tree_def write_calls_def profile_calls_def sample_manifest_def sample_faults_def do_call_def map_get_def)


text \<open>A name that stands for one entry of its directory.\<close>

definition plain_name :: "string \<Rightarrow> bool" where
  "plain_name s \<longleftrightarrow> s \<noteq> [] \<and> s \<noteq> ''.'' \<and> s \<noteq> ''..'' \<and> CHR ''/'' \<notin> set s \<and> CHR 0x5C \<notin> set s"

definition call_contained :: "call \<Rightarrow> bool" where
  "call_contained c =
     (case c of MkDir \<Rightarrow> True | MkSub name \<Rightarrow> plain_name name | PutFile name file_name _ \<Rightarrow> plain_name name \<and> plain_name file_name)"

lemma check_profile_names:
  assumes "check_profile (name, files) = None"
  shows "plain_name name" "files \<noteq> []" "f \<in> set files \<Longrightarrow> plain_name (f_name f)"
proof -
  have c: "name \<noteq> []" "files \<noteq> []" "check_each 0 (\<lambda>_. check_file name) files = None"
    "\<not> (name = ''.'' \<or> name = ''..'' \<or> contains_any name slashes)"
    using assms by (auto simp: check_profile_def split: option.splits if_splits)
  then show "plain_name name" "files \<noteq> []" by (auto simp: plain_name_def contains_any_def slashes_def)
  show "plain_name (f_name f)" if "f \<in> set files"
  proof -
    have "check_file name f = None" using c(3) that by (auto simp: check_each_None in_set_conv_nth)
    then show ?thesis by (auto simp: check_file_def plain_name_def contains_any_def slashes_def split: if_splits)
  qed
qed

text \<open>C23: An accepted manifest writes inside its tree only. Whatever \<open>Parse\<close> accepts has version 1, a positive
  revision, the default profile and no empty profile; its hash is the one computed from its profiles and
  settings, and equals the one it came with, if it came with one; and every directory and file \<open>write\<close> makes
  for it has names of one component each, so that no path leaves the directory \<open>.next\<close>.
\<close>

theorem manifest_contained:
  assumes "ParseManifest w raw = Inr m"
  shows "m_v m = 1 \<and> 1 \<le> m_rev m \<and> DefaultProfile \<in> set (Names m) \<and>
    (\<forall>name files. (name, files) \<in> set (m_profiles m) \<longrightarrow> files \<noteq> []) \<and>
    (\<exists>m0. dw_manifest w raw = Some m0 \<and> m_profiles m = m_profiles m0 \<and> m_config_hash m0 \<in> {[], m_config_hash m}) \<and>
    m_config_hash m = HashWith (m_profiles m) (m_settings m) \<and>
    (\<forall>c \<in> set (write_calls m). call_contained c)"
proof -
  obtain m0 where m0: "dw_manifest w raw = Some m0" "m_profiles m = m_profiles m0" "m_v m = 1" "1 \<le> m_rev m"
      "map_of (m_profiles m) DefaultProfile \<noteq> None" "check_each 0 (\<lambda>_. check_profile) (m_profiles m) = None"
      "m_config_hash m = HashWith (m_profiles m) (m_settings m)" "m_config_hash m0 \<in> {[], m_config_hash m}"
    using parsed_fields [OF assms] by blast
  have chk: "check_profile np = None" if "np \<in> set (m_profiles m)" for np
    using m0(6) that by (auto simp: check_each_None in_set_conv_nth)
  have "DefaultProfile \<in> set (Names m)" using m0(5) by (auto simp: Names_def sorted_names_def map_of_eq_None_iff)
  moreover have "files \<noteq> []" if "(name, files) \<in> set (m_profiles m)" for name files
    using chk [OF that] check_profile_names(2) by blast
  moreover have "call_contained c" if "c \<in> set (write_calls m)" for c
    using that chk check_profile_names(1,3)
    by (fastforce simp: write_calls_def profile_calls_def call_contained_def)
  ultimately show ?thesis using m0(1-4,7,8) by auto
qed

lemma manifest_contained_witness:
  "list_all call_contained (write_calls (sample_manifest\<lparr>m_config_hash := HashWith (m_profiles sample_manifest) None\<rparr>))"
  using manifest_contained [OF sample_parses] by (simp add: list_all_iff)

text \<open>
  The hash does not determine the content: a profile with four files and three profiles with one file each
  are the same bytes to it, since nothing marks where the files of a profile end.
\<close>

lemma hash_collides:
  "\<exists>ps qs. HashWith ps None = HashWith qs None \<and> length ps = 1 \<and> length qs = 3 \<and>
     check_each 0 (\<lambda>_. check_profile) ps = None \<and> check_each 0 (\<lambda>_. check_profile) qs = None \<and>
     map_of ps DefaultProfile \<noteq> None \<and> map_of qs DefaultProfile \<noteq> None"
proof -
  let ?y = "\<lparr>f_name = ''profile.yaml'', f_text = ''t''\<rparr>"
  let ?ps = "[(DefaultProfile, [?y, \<lparr>f_name = ''site'', f_text = ''a''\<rparr>, \<lparr>f_name = ''b'', f_text = ''zone''\<rparr>,
    \<lparr>f_name = ''c'', f_text = ''d''\<rparr>])]"
  let ?qs = "[(DefaultProfile, [?y]), (''site'', [\<lparr>f_name = ''a'', f_text = ''b''\<rparr>]), (''zone'', [\<lparr>f_name = ''c'', f_text = ''d''\<rparr>])]"
  have "hash_input ?ps None = hash_input ?qs None" by code_simp
  moreover have "check_each 0 (\<lambda>_. check_profile) ?ps = None" "check_each 0 (\<lambda>_. check_profile) ?qs = None" by code_simp+
  ultimately show ?thesis by (intro exI [of _ ?ps] exI [of _ ?qs]) (simp add: HashWith_def)
qed

end
