(* ===== verification/Probe.thy ===== *)
theory Probe
  imports Handler
begin

text \<open>
  \<open>cmd/probe\<close>: the health check of the inspector. It sends one request for the profile \<open>_probe\<close> over the bus and
  compares the verdict with the expected one. The bus is a function from the subject and the payload to the
  reply, and \<open>encoding/json\<close> the functions of the messages; flags are arguments.
\<close>

section \<open>The request\<close>

text \<open>\<open>%016x\<close> of a number that is not negative: sixteen digits hold every \<open>int64\<close>.\<close>

definition hex16 :: "int \<Rightarrow> string" where
  "hex16 n = map (\<lambda>k. hex_digit (n div 16 ^ k mod 16)) (rev [0..<16])"

definition no_action :: action where
  "no_action = \<lparr>a_to = [], a_do = [], a_apply = [], a_phase = [], a_code = [], a_delta = 0, a_value = 0,
     a_counter = [], a_marker = [], a_group = [], a_set = [], a_ttl = None, a_when = [], a_headers = None,
     a_args = None, a_body = None\<rparr>"

definition probe_prior :: "string \<Rightarrow> prior_verdict list" where
  "probe_prior pri =
     (if pri = [] then []
      else case cut pri (CHR ''='') of (insp, code, _) \<Rightarrow>
        [\<lparr>pv_phase = PhaseRequest, pv_wave = 0, pv_inspector = insp, pv_verdict = VerdictAllow, pv_score = 0,
          pv_reason = None,
          pv_actions = [no_action\<lparr>a_do := DoChallenge, a_apply := ApplyRequest, a_code := code\<rparr>]\<rparr>])"

text \<open>\<open>now\<close> is \<open>time.Now().UnixNano()\<close>.\<close>

definition probe_request ::
    "string \<Rightarrow> string \<Rightarrow> string \<Rightarrow> string \<Rightarrow> string \<Rightarrow> string \<Rightarrow> int \<Rightarrow> duration \<Rightarrow> go_time \<Rightarrow> request" where
  "probe_request name uri meth clientIP prof pri score timeout now =
     (case cut uri (CHR ''?'') of (path, args, _) \<Rightarrow>
        \<lparr>q_v = Version, q_rid = hex16 now, q_ray = [], q_phase = PhaseRequest, q_wave = 0, q_inspector = name,
         q_deadline_ms = quot timeout Millisecond, q_audit_subject = None, q_node = ''probe'',
         q_conn = \<lparr>client_ip = clientIP, client_port = 12345, server_ip = ''127.0.0.1'', server_port = 8080,
                   conn_tls = None\<rparr>,
         q_http = \<lparr>h_method = meth, h_scheme = ''http'', h_host = ''probe.local'', h_uri = path,
                   h_args_size = int (length args), h_version = ''HTTP/1.1''\<rparr>,
         q_vars = [], q_needs = [NeedHeaders],
         q_store = \<lparr>st_headers = None, st_args = None, st_body = None\<rparr>,
         q_route = \<lparr>rt_server_name = ''probe.local'', rt_location = ''/'', rt_profile = prof\<rparr>,
         q_score = \<lparr>sc_total = score, sc_deny_at = 100\<rparr>, q_prior = probe_prior pri, q_response = None\<rparr>)"

section \<open>The check\<close>

datatype probe_error =
    NoBus
  | NotMarshalled
  | NoVerdict string
  | BadReply
  | WrongVerdict string string

text \<open>\<open>ask\<close> is \<open>nc.Request\<close>: \<^const>\<open>None\<close> is a timeout or an error of the bus.\<close>

definition probe_run ::
    "bool \<Rightarrow> (request \<Rightarrow> string option) \<Rightarrow> (string \<Rightarrow> string \<Rightarrow> string option) \<Rightarrow> (string \<Rightarrow> reply option) \<Rightarrow>
     string \<Rightarrow> request \<Rightarrow> string \<Rightarrow> probe_error option" where
  "probe_run connected_ok marshal ask unmarshal subject req expect =
     (if \<not> connected_ok then Some NoBus
      else case marshal req of
        None \<Rightarrow> Some NotMarshalled
      | Some payload \<Rightarrow>
          (case ask subject payload of
             None \<Rightarrow> Some (NoVerdict subject)
           | Some raw \<Rightarrow>
               (case unmarshal raw of
                  None \<Rightarrow> Some BadReply
                | Some rep \<Rightarrow>
                    if expect \<noteq> [] \<and> rp_verdict rep \<noteq> expect
                    then Some (WrongVerdict (rp_verdict rep) expect) else None)))"

section \<open>What the inspector answers\<close>

text \<open>The request of the health check as the image runs it: every flag but the timeout is the default.\<close>

definition health_request :: "string \<Rightarrow> duration \<Rightarrow> go_time \<Rightarrow> request" where
  "health_request name timeout now =
     probe_request name ''/healthcheck'' ''GET'' ''127.0.0.1'' ProbeName [] 0 timeout now"

lemma health_fields [simp]:
  "q_v (health_request name timeout now) = Version" "q_rid (health_request name timeout now) = hex16 now"
  "q_phase (health_request name timeout now) = PhaseRequest" "q_inspector (health_request name timeout now) = name"
  "h_method (q_http (health_request name timeout now)) = ''GET''"
  "h_uri (q_http (health_request name timeout now)) = ''/healthcheck''"
  "q_store (health_request name timeout now) = \<lparr>st_headers = None, st_args = None, st_body = None\<rparr>"
  "rt_profile (q_route (health_request name timeout now)) = ProbeName"
  "q_prior (health_request name timeout now) = []"
proof -
  have "cut ''/healthcheck'' (CHR ''?'') = (''/healthcheck'', [], False)" by code_simp
  then show "q_v (health_request name timeout now) = Version" "q_rid (health_request name timeout now) = hex16 now"
    "q_phase (health_request name timeout now) = PhaseRequest" "q_inspector (health_request name timeout now) = name"
    "h_method (q_http (health_request name timeout now)) = ''GET''"
    "h_uri (q_http (health_request name timeout now)) = ''/healthcheck''"
    "q_store (health_request name timeout now) = \<lparr>st_headers = None, st_args = None, st_body = None\<rparr>"
    "rt_profile (q_route (health_request name timeout now)) = ProbeName"
    "q_prior (health_request name timeout now) = []"
    by (simp_all add: health_request_def probe_request_def probe_prior_def)
qed

lemma health_parses:
  assumes "unm payload = Some (health_request name timeout now)" "name \<noteq> []"
  shows "Parse unm order payload = Inr (health_request name timeout now)"
proof -
  have "hex16 now \<noteq> []" by (simp add: hex16_def)
  moreover have "validate_store \<lparr>st_headers = None, st_args = None, st_body = None\<rparr> order = None"
    unfolding validate_store_None by (auto simp: locator_ok_def locator_of_def)
  ultimately show ?thesis using assms by (simp add: Parse_def)
qed

lemma no_prior_no_skip: "\<not> as_skip (PriorAsk [] p)"
  by (cases p) (simp_all add: PriorAsk_def empty_asked_def)

text \<open>The input \<open>Check\<close> sees, levels of the buckets aside.\<close>

lemma health_input:
  assumes "gather h (health_request name timeout now) (Some (probeVariant d)) w = (Inr (i, ls), w')"
  shows "i_profile i = Some (probeVariant d)" "i_method i = ''GET''" "i_uri i = ''/healthcheck''"
    "\<not> as_skip (i_asked i)"
    "opened_of i key rv cl = \<lparr>op_clearance = None, op_code = CodeRequired, op_findings = []\<rparr>"
proof -
  let ?req = "health_request name timeout now"
  let ?p = "probeVariant d"
  obtain i0 where i0: "read_input h ?req ?p = Inr i0" "i = (if buckets_enabled (p_buckets ?p) then i0\<lparr>i_levels := percentsOf ls\<rparr> else i0)"
    using gather_cases [OF assms] by (auto simp: probe_fields)
  have "Pair (ha_store h) None None = ([], [], [], False)"
    by (cases "ha_store h") (simp_all add: Pair_def Headers_def argsOf_def)
  then have r: "i0 = (store_input h ?req ?p [] [] [])
      \<lparr>i_opened := Some (Open_input (store_input h ?req ?p [] [] []) (ha_token h) (ha_revoked h) (ha_clearances h))\<rparr>"
    using i0(1) by (simp add: read_input_def Let_def)
  have hc: "header_cookie [] c = []" for c by simp
  have "Open_input (store_input h ?req ?p [] [] []) (ha_token h) (ha_revoked h) (ha_clearances h) =
      \<lparr>op_clearance = None, op_code = CodeRequired, op_findings = []\<rparr>"
    by (simp add: Open_input_def open_clearance_def hc) (simp add: store_input_def)
  then show "i_profile i = Some ?p" "i_method i = ''GET''" "i_uri i = ''/healthcheck''" "\<not> as_skip (i_asked i)"
    "opened_of i key rv cl = \<lparr>op_clearance = None, op_code = CodeRequired, op_findings = []\<rparr>"
    using i0(2) by (simp_all add: r opened_of_def no_prior_no_skip)
qed

lemma health_ticket:
  assumes "\<And>nonce t. SealTicket key nonce t \<noteq> None"
  shows "issueTicket i p key rnd a \<noteq> []"
  using assms [of "rnd_nonce rnd" "ticket_of i p rnd a"] by (auto simp: issueTicket_def)

text \<open>How \<open>Check\<close> answers the health check.\<close>

lemma health_check:
  assumes g: "gather h (health_request name timeout now) (Some (probeVariant d)) w = (Inr (i, ls), w')"
    and seal: "\<And>nonce t. SealTicket key nonce t \<noteq> None"
    and res_def: "res = Check i key rv cl rnd"
  shows "r_verdict res =
      (if OwnPath (probeVariant d) ''/healthcheck'' then VerdictAllow
       else if ''GET'' \<in> set (g_redirect_methods (p_gate d)) \<and> \<not> g_inline (p_gate d) then VerdictRedirect
       else VerdictDeny) \<and>
    (r_inline res \<longleftrightarrow> \<not> OwnPath (probeVariant d) ''/healthcheck'' \<and> ''GET'' \<in> set (g_redirect_methods (p_gate d)) \<and>
       g_inline (p_gate d))"
proof -
  let ?p = "probeVariant d"
  note i = health_input [OF g]
  have m: "p_mode ?p = ModeEnforce" by (rule probe_fields)
  have html: "\<not> g_html_only (p_gate ?p)" "g_inline (p_gate ?p) = g_inline (p_gate d)" by (simp_all add: probeVariant_def)
  have rule: "ru_when (RuleFor ?p (i_method i) (i_uri i)) = WhenAlways" by (simp add: probeVariant_def RuleFor_def)
  have nav: "navigational i ?p \<longleftrightarrow> ''GET'' \<in> set (g_redirect_methods (p_gate d))"
    using html i(2) by (auto simp: navigational_def RedirectsMethod_def probe_fields list_ex_iff)
  have sealed: "ticket_sealed i ?p key rnd" using health_ticket [OF seal] by (simp add: ticket_sealed_def)
  have tr: "trigger_of i ?p (opened_of i key rv cl) \<noteq> []"
    using i(4) rule unfolding trigger_of_def required_def i(5) by simp
  have v: "r_verdict res = (if OwnPath ?p ''/healthcheck'' then VerdictAllow
       else if navigational i ?p \<and> \<not> g_inline (p_gate d) then VerdictRedirect else VerdictDeny)"
    unfolding res_def decision_table [OF i(1)] verdict_spec_def i(3)
    using m tr sealed html(2) i(5) [of key rv cl] by (simp add: passes_clearance_def FormInline_def)
  have inl: "r_inline res \<longleftrightarrow> \<not> OwnPath ?p ''/healthcheck'' \<and> navigational i ?p \<and> g_inline (p_gate d)"
  proof
    assume r: "r_inline res"
    then obtain q where "i_profile i = Some q" "FormInline q" "navigational i q" "r_verdict res = VerdictDeny"
      unfolding res_def by (rule check_inline)
    then have q: "q = ?p" "g_inline (p_gate d)" "navigational i ?p" "r_verdict res = VerdictDeny"
      using i(1) html(2) by (simp_all add: FormInline_def)
    then show "\<not> OwnPath ?p ''/healthcheck'' \<and> navigational i ?p \<and> g_inline (p_gate d)"
      using v by (auto split: if_splits)
  next
    assume a: "\<not> OwnPath ?p ''/healthcheck'' \<and> navigational i ?p \<and> g_inline (p_gate d)"
    show "r_inline res"
      unfolding res_def
      by (rule check_asks_inline [OF i(1) m _ _ _ i(5) rule i(4) health_ticket [OF seal]])
        (use a i(3) html(2) in \<open>simp_all add: FormInline_def\<close>)
  qed
  show ?thesis using v inl nav by auto
qed

text \<open>C22: What the health check of the image shows. The request \<open>captcha-probe\<close> sends is well formed and of the supported
  version, and unless the request store, the buckets or the geo service answer with an error the verdict for
  the profile \<open>_probe\<close>, derived from the default profile, is: \<open>allow\<close> when \<open>/healthcheck\<close> is under the path of
  the profile; \<open>deny\<close> when \<open>GET\<close> is not among the redirect methods or when an inline form was placed; \<open>redirect\<close>,
  which is what the image expects, in all other cases. Without inline forms none is placed.
\<close>

theorem probe_verdict:
  assumes "unm payload = Some (health_request name timeout now)" "name \<noteq> []"
    and "snap_profile (Some (ha_snapshot h)) ProbeName = Some (probeVariant d)"
    and "\<And>nonce t. SealTicket (ha_token h) nonce t \<noteq> None"
    and "inspect h (health_request name timeout now) fill w = (Some (rep, det), w')"
    and "rp_verdict rep \<noteq> VerdictError"
  shows "Parse unm order payload = Inr (health_request name timeout now) \<and>
    rp_verdict rep =
      (if OwnPath (probeVariant d) ''/healthcheck'' then VerdictAllow
       else if ''GET'' \<notin> set (g_redirect_methods (p_gate d)) \<or> rp_rewrite rep \<noteq> None then VerdictDeny
       else VerdictRedirect) \<and>
    (\<not> g_inline (p_gate d) \<longrightarrow> rp_rewrite rep = None)"
proof -
  let ?req = "health_request name timeout now"
  let ?prof = "snap_profile (Some (ha_snapshot h)) (rt_profile (q_route ?req))"
  have prof: "?prof = Some (probeVariant d)" using assms(3) by simp
  have "rp_verdict rep =
      (if OwnPath (probeVariant d) ''/healthcheck'' then VerdictAllow
       else if ''GET'' \<notin> set (g_redirect_methods (p_gate d)) \<or> rp_rewrite rep \<noteq> None then VerdictDeny
       else VerdictRedirect) \<and>
    (\<not> g_inline (p_gate d) \<longrightarrow> rp_rewrite rep = None)"
    using assms(5)
  proof (cases rule: inspect_cases)
    case (failed rep0 det0)
    then have "rp_verdict rep = VerdictError" using gather_error [OF failed(1)] by auto
    then show ?thesis using assms(6) by simp
  next
    case (geo i ls w1 res rw w2 det0)
    then show ?thesis using assms(6) by simp
  next
    case (answered i ls w1 res rw w2 actions w3 det0)
    have f: "rp_verdict rep = r_verdict res" "rp_rewrite rep = rw" using answered(4) by simp_all
    note c = health_check [OF answered(1) [unfolded prof] assms(4)]
    from answered(2) show ?thesis
    proof (cases rule: place_form_cases)
      case plain
      then show ?thesis using c [OF refl, of "ha_revoked h" "ha_clearances h" "ha_rnd h"] f by auto
    next
      case (placed p rw0)
      then show ?thesis using c [OF refl, of "ha_revoked h" "ha_clearances h" "ha_rnd h"] f by auto
    next
      case (refused p err e)
      then show ?thesis using c [OF refl, of "ha_revoked h" "ha_clearances h" "ha_rnd h"] f by auto
    qed
  qed auto
  then show ?thesis using health_parses [of unm payload name timeout now order, OF assms(1,2)] by blast
qed

definition probe_hand :: "unit hand" where
  "probe_hand = toy_hand\<lparr>ha_snapshot := toy_snapshot\<lparr>sn_by_name := [(ProbeName, probeVariant cleared_profile)]\<rparr>\<rparr>"

lemma probe_hand_facts:
  "snap_profile (Some (ha_snapshot probe_hand)) ProbeName = Some (probeVariant cleared_profile)"
  "SealTicket (ha_token probe_hand) nonce t \<noteq> None"
  by (simp_all add: probe_hand_def snap_profile_def toy_hand_def toy_key_def SealTicket_def seal_token_def)

lemma probe_inspect:
  "\<exists>rep det w'. inspect probe_hand (health_request ''captcha'' Second 0) 0 toy_world = (Some (rep, det), w') \<and>
     rp_verdict rep \<noteq> VerdictError"
proof -
  let ?req = "health_request ''captcha'' Second 0"
  let ?p = "probeVariant cleared_profile"
  have q: "p_rules ?p = []" "\<not> buckets_enabled (p_buckets ?p)" "p_mode ?p = ModeEnforce" "\<not> g_inline (p_gate cleared_profile)"
    using cleared_profile_quiet
    by (simp_all add: probe_fields) (simp add: cleared_profile_def sample_profile_def defaults_def Let_def)
  have pr: "Pair (ha_store probe_hand) None None = ([], [], [], False)"
    by (simp add: probe_hand_def toy_hand_def Pair_def Headers_def argsOf_def)
  obtain i where "gather probe_hand ?req (Some ?p) toy_world = (Inr (i, []), toy_world)"
    using q pr by (simp add: gather_def read_input_def charge_input_def Let_def)
  note g = this
  let ?res = "Check i (ha_token probe_hand) (ha_revoked probe_hand) (ha_clearances probe_hand) (ha_rnd probe_hand)"
  have "\<not> r_inline ?res \<and> r_verdict ?res \<noteq> VerdictError"
    using health_check [OF g probe_hand_facts(2) refl] q(4) by simp
  then show ?thesis
    using g q(1) probe_hand_facts(1)
    by (simp add: inspect_def place_form_def no_rules_no_fire Let_def)
qed

lemma probe_verdict_witness:
  "\<exists>rep det w'. inspect probe_hand (health_request ''captcha'' Second 0) 0 toy_world = (Some (rep, det), w') \<and>
     rp_verdict rep = VerdictRedirect"
proof -
  obtain rep det w' where r: "inspect probe_hand (health_request ''captcha'' Second 0) 0 toy_world = (Some (rep, det), w')"
      "rp_verdict rep \<noteq> VerdictError"
    using probe_inspect by blast
  have f: "\<not> OwnPath (probeVariant cleared_profile) ''/healthcheck''" "''GET'' \<in> set (g_redirect_methods (p_gate cleared_profile))"
      "\<not> g_inline (p_gate cleared_profile)"
    by (simp_all add: OwnPath_def probeVariant_def cleared_profile_def sample_profile_def defaults_def Let_def
        trim_right_def has_prefix_def)
  show ?thesis
    using probe_verdict [where unm = "\<lambda>_. Some (health_request ''captcha'' Second 0)" and payload = "[]" and order = "[]",
        OF refl _ probe_hand_facts(1) probe_hand_facts(2) r] f r by auto
qed

end
