(* ===== verification/Startup.thy ===== *)
theory Startup
  imports Config Desired Roster Queue Secrets
begin

text \<open>
  The \<open>main\<close> packages of the two services: what is opened in which order, what a failure of each step does, and
  the values the parts are made with. \<open>cmd/inspector/main.go\<close> and \<open>cmd/http/main.go\<close>.

  A connection is a flag that says whether it could be made. Logging is left out; signals and the loops the
  services start in the background are in theory \<open>Service\<close>.
\<close>

section \<open>Shared pieces\<close>

fun joined_from :: "nat \<Rightarrow> string list \<Rightarrow> string \<Rightarrow> string" where
  "joined_from i [] out = out"
| "joined_from i (s # ss) out = joined_from (Suc i) ss ((if i > 0 then out @ '','' else out) @ s)"

definition joined :: "string list \<Rightarrow> string" where
  "joined servers = joined_from 0 servers []"

text \<open>The lists the mirror of clearances is asked for at every tick.\<close>

definition watched_lists :: "snapshot option \<Rightarrow> string list" where
  "watched_lists sn = map (\<lambda>p. cc_list (p_clearance p)) (filter (\<lambda>p. ListEnabled (p_clearance p)) (All sn))"

definition needs_geo :: "profile \<Rightarrow> bool" where
  "needs_geo p \<longleftrightarrow>
     tier_enabled (pb_asn_net (p_buckets p)) \<or> tier_enabled (pb_asn_router (p_buckets p)) \<or>
     list_ex (\<lambda>r. er_list r \<noteq> [] \<and> (er_write r = WriteNet \<or> er_write r = WriteNetAll \<or> er_write r = WriteASN)) (p_rules p)"

text \<open>The name the warning of \<open>openResolver\<close> carries: empty when no profile needs the geo service.\<close>

definition geo_need :: "snapshot option \<Rightarrow> string" where
  "geo_need sn = (case find needs_geo (All sn) of None \<Rightarrow> [] | Some p \<Rightarrow> p_name p)"

datatype resolver = NoResolver | GeoResolver string duration int

text \<open>The resolver, and the profile that is warned about; \<open>geo_ok\<close> tells whether the client could be made.\<close>

definition openResolver :: "config \<Rightarrow> snapshot option \<Rightarrow> bool \<Rightarrow> resolver \<times> string" where
  "openResolver c sn geo_ok =
     (let need = geo_need sn
      in if cf_geo_addr c = [] then (NoResolver, need)
         else if \<not> geo_ok then (NoResolver, [])
         else (GeoResolver (cf_geo_addr c) (cf_geo_timeout c) (cf_geo_neg_max c), []))"

section \<open>Rosters\<close>

datatype roster = MemoryRoster memory | RedisRoster string redis_roster

datatype start_error =
    ConfigError config_error
  | ProfilesError read_error
  | PagesError
  | StoreError
  | StorePing
  | NoInternalRedis
  | RosterError
  | RosterPing
  | RosterRefresh
  | BusError
  | NoBusForLists
  | SecretsError new_error
  | BucketsError
  | BlobsError
  | SubscribeError
  | LimitsError

text \<open>Of the roster in Redis: whether the address parses, the ping, and what the server answers to the refresh.\<close>

record roster_link =
  rl_parses :: "string \<Rightarrow> bool"
  rl_ping :: bool
  rl_exec :: "unit redis_exec"
  rl_now :: go_time

definition inspector_roster :: "config \<Rightarrow> snapshot \<Rightarrow> roster_link \<Rightarrow> start_error + roster" where
  "inspector_roster c sn rl =
     (let rc = sn_roster sn
      in if rc_store rc = RosterMemory then Inr (MemoryRoster NewMemory)
         else if \<not> rl_parses rl (cf_internal_url c) then Inl RosterError
         else if \<not> rl_ping rl then Inl RosterPing
         else case redis_refresh (rl_exec rl) (rl_now rl) (NewRedis (rc_prefix rc)) () of
           (None, _, _) \<Rightarrow> Inl RosterRefresh
         | (Some _, r, _) \<Rightarrow> Inr (RedisRoster (cf_internal_url c) r))"

definition http_roster :: "config \<Rightarrow> snapshot \<Rightarrow> roster_link \<Rightarrow> start_error + roster" where
  "http_roster c sn rl =
     (let rc = sn_roster sn
      in if rc_store rc = RosterMemory then Inr (MemoryRoster NewMemory)
         else if cf_internal_url c = [] then Inl NoInternalRedis
         else if \<not> rl_parses rl (cf_internal_url c) then Inl RosterError
         else if \<not> rl_ping rl then Inl RosterPing
         else Inr (RedisRoster (cf_internal_url c) (NewRedis (rc_prefix rc))))"

section \<open>The inspector\<close>

text \<open>
  What the inspector meets while it starts. \<open>in_view\<close> and \<open>in_live\<close> are the data directory of \<open>Desired\<close>; its
  watch runs in the background, and its failure is only logged.
\<close>

record inspector_world =
  in_config :: config_world
  in_desired :: desired_world
  in_disk :: "string \<Rightarrow> conf_dir"
  in_store_parses :: "string \<Rightarrow> bool"
  in_store_ping :: bool
  in_roster :: roster_link
  in_bus :: "string \<Rightarrow> bool"
  in_view :: "tree option \<Rightarrow> conf_dir"
  in_live :: "tree option"
  in_buckets_parse :: "string \<Rightarrow> bool"
  in_geo_ok :: bool
  in_blobs_open :: "string \<Rightarrow> bool"
  in_subscribe_ok :: bool
  in_limits_ok :: bool

record inspector =
  is_config :: config
  is_profiles :: prof_store
  is_roster :: roster
  is_resolver :: resolver
  is_forms :: "string option"
  is_pool :: pool_cfg
  is_subject :: "string \<times> string"
  is_pending :: int

definition inspector_run :: "inspector_world \<Rightarrow> start_error + inspector" where
  "inspector_run w =
     (case Load (in_config w) RoleInspector of
        Inl e \<Rightarrow> Inl (ConfigError e)
      | Inr c \<Rightarrow>
     (case LoadProfiles (dw_decode (in_desired w)) (dw_parses (in_desired w)) (in_disk w) (cf_profiles_dir c) of
        Inl e \<Rightarrow> Inl (ProfilesError e)
      | Inr profiles \<Rightarrow>
     let sn = ps_cur profiles
     in if \<not> in_store_parses w (cf_redis_url c) then Inl StoreError
        else if \<not> in_store_ping w then Inl StorePing
        else case inspector_roster c sn (in_roster w) of
          Inl e \<Rightarrow> Inl e
        | Inr ros \<Rightarrow>
            if \<not> in_bus w (joined (cf_servers c)) then Inl BusError
            else let profiles = (if cf_data_dir c \<noteq> []
                                 then snd (Bootstrap (in_desired w) (in_view w) (cf_data_dir c) (in_live w) profiles)
                                 else profiles)
                 in if \<not> in_buckets_parse w (cf_internal_url c) then Inl BucketsError
                    else if \<not> in_blobs_open w (cf_internal_url c) then Inl BlobsError
                    else if \<not> in_subscribe_ok w then Inl SubscribeError
                    else if \<not> in_limits_ok w then Inl LimitsError
                    else Inr \<lparr>is_config = c, is_profiles = profiles, is_roster = ros,
                              is_resolver = fst (openResolver c (Some sn) (in_geo_ok w)),
                              is_forms = (if cf_http_url c \<noteq> [] then Some (cf_http_url c) else None),
                              is_pool = new_cfg (nat (cf_workers c)) (cf_queue_depth c) (cf_reserve_ms c)
                                          (cf_min_budget_ms c) (cf_queue_full c),
                              is_subject = (cf_subject c, cf_queue c),
                              is_pending = i64 (cf_queue_depth c + cf_workers c + 2)\<rparr>))"

section \<open>The page server\<close>

record page_world =
  pw_config :: config_world
  pw_desired :: desired_world
  pw_disk :: "string \<Rightarrow> conf_dir"
  pw_pages :: "string \<Rightarrow> bool"
  pw_roster :: roster_link
  pw_bus :: "string \<Rightarrow> bool"
  pw_buckets_parse :: "string \<Rightarrow> bool"
  pw_geo_ok :: bool
  pw_blobs_open :: "string \<Rightarrow> bool"
  pw_view :: "tree option \<Rightarrow> conf_dir"
  pw_live :: "tree option"

text \<open>The lists the rules and the clearances of the profiles name, without repetition.\<close>

definition bus_names :: "snapshot option \<Rightarrow> string list" where
  "bus_names sn =
     remdups (concat (map (\<lambda>p. map er_list (filter (\<lambda>r. er_list r \<noteq> []) (p_rules p)) @
       (if ListEnabled (p_clearance p) then [cc_list (p_clearance p)] else [])) (All sn)))"

definition openBus :: "config \<Rightarrow> snapshot option \<Rightarrow> (string \<Rightarrow> bool) \<Rightarrow> start_error + bool" where
  "openBus c sn bus =
     (let names = bus_names sn
      in if names = [] \<and> cf_data_dir c = [] then Inr False
         else if cf_servers c = [] then (if names \<noteq> [] then Inl NoBusForLists else Inr False)
         else if \<not> bus (joined (cf_servers c)) then Inl BusError
         else Inr True)"

text \<open>\<open>pg_bus\<close>: whether the server can write lists; \<open>pg_mirror\<close>: whether it follows the clearance lists, and
  whether it reads their pieces from Redis; \<open>pg_redis_buckets\<close>: whether buckets are kept in Redis.\<close>

record 'k page_server =
  pg_config :: config
  pg_profiles :: prof_store
  pg_roster :: roster
  pg_bus :: bool
  pg_mirror :: "bool option"
  pg_secrets :: "'k secret_store option"
  pg_redis_buckets :: bool

definition http_run ::
    "('k, 'c) crypto \<Rightarrow> page_world \<Rightarrow> start_error + 'k page_server" where
  "http_run cy w =
     (case Load (pw_config w) RoleHTTP of
        Inl e \<Rightarrow> Inl (ConfigError e)
      | Inr c \<Rightarrow>
     (case LoadProfiles (dw_decode (pw_desired w)) (dw_parses (pw_desired w)) (pw_disk w) (cf_profiles_dir c) of
        Inl e \<Rightarrow> Inl (ProfilesError e)
      | Inr profiles \<Rightarrow>
     let sn = ps_cur profiles
     in if \<not> pw_pages w (cf_web_dir c) then Inl PagesError
        else case http_roster c sn (pw_roster w) of
          Inl e \<Rightarrow> Inl e
        | Inr ros \<Rightarrow>
            (case openBus c (Some sn) (pw_bus w) of
               Inl e \<Rightarrow> Inl e
             | Inr nc \<Rightarrow>
                 (case NewSecrets cy (cw_read (pw_config w)) (cf_controller_url c) (cf_scope c) (cf_contour_key_file c) of
                    Inl e \<Rightarrow> Inl (SecretsError e)
                  | Inr sec \<Rightarrow>
                      if nc \<and> cf_internal_url c \<noteq> [] \<and> \<not> pw_blobs_open w (cf_internal_url c) then Inl BlobsError
                      else Inr \<lparr>pg_config = c,
                                pg_profiles =
                                  (if nc \<and> cf_data_dir c \<noteq> []
                                   then snd (Bootstrap (pw_desired w) (pw_view w) (cf_data_dir c) (pw_live w) profiles)
                                   else profiles),
                                pg_roster = ros, pg_bus = nc,
                                pg_mirror = (if nc then Some (cf_internal_url c \<noteq> []) else None),
                                pg_secrets = sec,
                                pg_redis_buckets = (cf_internal_url c \<noteq> [] \<and> pw_buckets_parse w (cf_internal_url c))\<rparr>))))"

section \<open>The heartbeat\<close>

text \<open>What the inspector adds to the message of \<open>pulse\<close>: its generation and what is applied, and the counters of
  the queue.\<close>

record beat =
  bt_workers :: int
  bt_depth :: int
  bt_queued :: int
  bt_accepted :: int
  bt_shed :: int
  bt_expired :: int
  bt_rev :: int
  bt_config_hash :: string
  bt_apply :: string
  bt_profiles :: "string list"

definition heartbeat :: "config \<Rightarrow> pool \<Rightarrow> snapshot option \<Rightarrow> applied option \<Rightarrow> beat" where
  "heartbeat c pl snap app =
     (let b = \<lparr>bt_workers = cf_workers c, bt_depth = cf_queue_depth c, bt_queued = int (length (pl_q pl)),
               bt_accepted = int (pl_accepted pl), bt_shed = int (pl_shed pl), bt_expired = int (pl_expired pl),
               bt_rev = 0, bt_config_hash = [], bt_apply = [], bt_profiles = []\<rparr>;
          b = (case snap of
                 None \<Rightarrow> b
               | Some sn \<Rightarrow> b\<lparr>bt_rev := sn_gen sn, bt_config_hash := sn_fingerprint sn, bt_apply := ApplyOK,
                              bt_profiles := snap_names (Some sn)\<rparr>);
          a = applied_snapshot app
      in if ap_apply a \<noteq> []
         then b\<lparr>bt_config_hash := ap_hash a, bt_rev := ap_rev a, bt_apply := ap_apply a,
                bt_profiles := (if ap_names a \<noteq> [] then ap_names a else bt_profiles b)\<rparr>
         else b)"

section \<open>What a started service has\<close>

lemma joined_from_join:
  "joined_from i ss out = (if ss = [] then out else if i = 0 then out @ join_with '','' ss else out @ '','' @ join_with '','' ss)"
proof (induction i ss out rule: joined_from.induct)
  case (2 i s ss out)
  then show ?case by (cases ss) simp_all
qed simp

lemma joined_join: "joined ss = join_with '','' ss"
  by (cases ss) (simp_all add: joined_def joined_from_join)

lemma bootstrap_ok: "store_ok s \<Longrightarrow> store_ok (snd (Bootstrap w view dir live s))"
  by (auto simp: Bootstrap_def reload_live_def ReloadFrom_def store_ok_def dest: read_snapshot_ok
      split: option.split sum.split)

text \<open>Where the identities, nonces and counters are kept: nowhere but in the process, or under a prefix in a Redis.\<close>

definition roster_place :: "roster \<Rightarrow> (string \<times> string) option" where
  "roster_place r = (case r of MemoryRoster _ \<Rightarrow> None | RedisRoster url rr \<Rightarrow> Some (url, rr_prefix rr))"

definition configured_place :: "config \<Rightarrow> snapshot \<Rightarrow> (string \<times> string) option" where
  "configured_place c sn =
     (if rc_store (sn_roster sn) = RosterMemory then None else Some (cf_internal_url c, rc_prefix (sn_roster sn)))"

lemma refresh_keeps_prefix: "redis_refresh exec now r s = (n, r', s') \<Longrightarrow> rr_prefix r' = rr_prefix r"
  by (auto simp: redis_refresh_def split: prod.splits option.splits list.splits roster_reply.splits)

lemma inspector_roster_place: "inspector_roster c sn rl = Inr r \<Longrightarrow> roster_place r = configured_place c sn"
  by (auto simp: inspector_roster_def roster_place_def configured_place_def Let_def NewRedis_def
      dest: refresh_keeps_prefix split: if_splits prod.splits option.splits)

lemma http_roster_place:
  "http_roster c sn rl = Inr r \<Longrightarrow>
   roster_place r = configured_place c sn \<and> (roster_place r \<noteq> None \<longrightarrow> cf_internal_url c \<noteq> [])"
  by (auto simp: http_roster_def roster_place_def configured_place_def Let_def NewRedis_def split: if_splits)

lemma inspector_run_parts:
  assumes "inspector_run w = Inr s"
  obtains c profiles where "Load (in_config w) RoleInspector = Inr c"
    "LoadProfiles (dw_decode (in_desired w)) (dw_parses (in_desired w)) (in_disk w) (cf_profiles_dir c) = Inr profiles"
    "inspector_roster c (ps_cur profiles) (in_roster w) = Inr (is_roster s)"
    "is_config s = c" "in_bus w (joined (cf_servers c))"
    "is_profiles s = profiles \<or>
     is_profiles s = snd (Bootstrap (in_desired w) (in_view w) (cf_data_dir c) (in_live w) profiles)"
    "is_pool s = new_cfg (nat (cf_workers c)) (cf_queue_depth c) (cf_reserve_ms c) (cf_min_budget_ms c) (cf_queue_full c)"
    "is_forms s = (if cf_http_url c \<noteq> [] then Some (cf_http_url c) else None)"
  using assms unfolding inspector_run_def
  by (auto simp: Let_def split: sum.splits if_splits intro: that)

lemma http_run_parts:
  assumes "http_run cy w = Inr s"
  obtains c profiles where "Load (pw_config w) RoleHTTP = Inr c"
    "LoadProfiles (dw_decode (pw_desired w)) (dw_parses (pw_desired w)) (pw_disk w) (cf_profiles_dir c) = Inr profiles"
    "http_roster c (ps_cur profiles) (pw_roster w) = Inr (pg_roster s)"
    "openBus c (Some (ps_cur profiles)) (pw_bus w) = Inr (pg_bus s)"
    "pg_config s = c"
    "pg_profiles s = profiles \<or>
     pg_profiles s = snd (Bootstrap (pw_desired w) (pw_view w) (cf_data_dir c) (pw_live w) profiles)"
    "pg_mirror s = (if pg_bus s then Some (cf_internal_url c \<noteq> []) else None)"
  using assms unfolding http_run_def
  by (auto simp: Let_def split: sum.splits if_splits intro: that)

lemma inspector_started:
  assumes "inspector_run w = Inr s"
  obtains profiles where "Load (in_config w) RoleInspector = Inr (is_config s)" "inspector_ok (is_config s)"
    "common_ok (in_config w) (is_config s)"
    "LoadProfiles (dw_decode (in_desired w)) (dw_parses (in_desired w)) (in_disk w) (cf_profiles_dir (is_config s)) = Inr profiles"
    "snapshot_ok (ps_cur profiles)" "store_ok (is_profiles s)"
    "0 < pl_workers (is_pool s)" "0 < pl_depth (is_pool s)"
    "int (pl_depth (is_pool s)) = cf_queue_depth (is_config s)" "pl_full (is_pool s) \<in> {FullDrop, FullWait}"
    "in_bus w (join_with '','' (cf_servers (is_config s)))"
    "roster_place (is_roster s) = configured_place (is_config s) (ps_cur profiles)"
proof -
  obtain c profiles where c: "Load (in_config w) RoleInspector = Inr c"
    "LoadProfiles (dw_decode (in_desired w)) (dw_parses (in_desired w)) (in_disk w) (cf_profiles_dir c) = Inr profiles"
    "inspector_roster c (ps_cur profiles) (in_roster w) = Inr (is_roster s)" "is_config s = c"
    "in_bus w (joined (cf_servers c))"
    "is_profiles s = profiles \<or>
     is_profiles s = snd (Bootstrap (in_desired w) (in_view w) (cf_data_dir c) (in_live w) profiles)"
    "is_pool s = new_cfg (nat (cf_workers c)) (cf_queue_depth c) (cf_reserve_ms c) (cf_min_budget_ms c) (cf_queue_full c)"
    using assms by (rule inspector_run_parts)
  have ok: "inspector_ok c" "common_ok (in_config w) c" using load_good [OF c(1)] by simp_all
  have st: "store_ok profiles" by (rule load_ok [OF c(2)])
  then have sn: "snapshot_ok (ps_cur profiles)" by (simp add: store_ok_def)
  have ps: "store_ok (is_profiles s)" using c(6) st bootstrap_ok [OF st] by auto
  have pool: "0 < pl_workers (is_pool s)" "0 < pl_depth (is_pool s)" "int (pl_depth (is_pool s)) = cf_queue_depth c"
    "pl_full (is_pool s) \<in> {FullDrop, FullWait}"
    using ok(1) by (auto simp: c(7) new_cfg_def inspector_ok_def)
  show thesis
    by (rule that [OF _ _ _ _ sn ps pool(1,2)])
      (use c(1,2,5) ok pool(3,4) inspector_roster_place [OF c(3)] in \<open>simp_all add: c(4) joined_join\<close>)
qed

lemma http_started:
  assumes "http_run cy w = Inr s"
  obtains profiles where "common_ok (pw_config w) (pg_config s)"
    "LoadProfiles (dw_decode (pw_desired w)) (dw_parses (pw_desired w)) (pw_disk w) (cf_profiles_dir (pg_config s)) = Inr profiles"
    "snapshot_ok (ps_cur profiles)" "store_ok (pg_profiles s)"
    "bus_names (Some (ps_cur profiles)) \<noteq> [] \<longrightarrow> pg_bus s" "pg_mirror s \<noteq> None \<longleftrightarrow> pg_bus s"
    "roster_place (pg_roster s) = configured_place (pg_config s) (ps_cur profiles)"
proof -
  obtain d profiles where d: "Load (pw_config w) RoleHTTP = Inr d"
    "LoadProfiles (dw_decode (pw_desired w)) (dw_parses (pw_desired w)) (pw_disk w) (cf_profiles_dir d) = Inr profiles"
    "http_roster d (ps_cur profiles) (pw_roster w) = Inr (pg_roster s)"
    "openBus d (Some (ps_cur profiles)) (pw_bus w) = Inr (pg_bus s)" "pg_config s = d"
    "pg_profiles s = profiles \<or>
     pg_profiles s = snd (Bootstrap (pw_desired w) (pw_view w) (cf_data_dir d) (pw_live w) profiles)"
    "pg_mirror s = (if pg_bus s then Some (cf_internal_url d \<noteq> []) else None)"
    using assms by (rule http_run_parts)
  have st: "store_ok profiles" by (rule load_ok [OF d(2)])
  then have sn: "snapshot_ok (ps_cur profiles)" by (simp add: store_ok_def)
  have ps: "store_ok (pg_profiles s)" using d(6) st bootstrap_ok [OF st] by auto
  have bus: "bus_names (Some (ps_cur profiles)) \<noteq> [] \<longrightarrow> pg_bus s"
    using d(4) by (auto simp: openBus_def Let_def split: if_splits)
  show thesis
    by (rule that [OF _ _ sn ps bus])
      (use d(2,7) load_good [OF d(1)] http_roster_place [OF d(3)] in \<open>simp_all add: d(5)\<close>)
qed

text \<open>What a service that started has. The inspector: an accepted configuration, validated profiles, a queue with at
  least one worker and at least one place, as deep as configured, with a known policy, and a connection to all
  its bus addresses. The page server: an accepted configuration, validated profiles, and the bus whenever a
  profile names a list, with the mirror of the clearances exactly when it has the bus. Both keep nonces,
  bans and revocations where the profiles say, and when they read the same profiles and the same internal
  Redis it is the same place, so that what one revokes or burns the other sees.
\<close>

theorem services_start:
  assumes i: "inspector_run w = Inr s" and h: "http_run cy v = Inr t"
  shows "inspector_ok (is_config s) \<and> common_ok (in_config w) (is_config s) \<and> store_ok (is_profiles s) \<and>
    0 < pl_workers (is_pool s) \<and> 0 < pl_depth (is_pool s) \<and>
    int (pl_depth (is_pool s)) = cf_queue_depth (is_config s) \<and> pl_full (is_pool s) \<in> {FullDrop, FullWait} \<and>
    in_bus w (join_with '','' (cf_servers (is_config s))) \<and>
    common_ok (pw_config v) (pg_config t) \<and> store_ok (pg_profiles t) \<and> (pg_mirror t \<noteq> None \<longleftrightarrow> pg_bus t) \<and>
    (\<exists>sn sn'. snapshot_ok sn \<and> snapshot_ok sn' \<and> (bus_names (Some sn') \<noteq> [] \<longrightarrow> pg_bus t) \<and>
       roster_place (is_roster s) = configured_place (is_config s) sn \<and>
       roster_place (pg_roster t) = configured_place (pg_config t) sn') \<and>
    (in_desired w = pw_desired v \<and> in_disk w = pw_disk v \<and>
     cf_profiles_dir (is_config s) = cf_profiles_dir (pg_config t) \<and>
     cf_internal_url (is_config s) = cf_internal_url (pg_config t) \<longrightarrow>
     roster_place (is_roster s) = roster_place (pg_roster t))"
proof -
  from i obtain profiles where p: "inspector_ok (is_config s)" "common_ok (in_config w) (is_config s)"
    "LoadProfiles (dw_decode (in_desired w)) (dw_parses (in_desired w)) (in_disk w) (cf_profiles_dir (is_config s)) = Inr profiles"
    "snapshot_ok (ps_cur profiles)" "store_ok (is_profiles s)"
    "0 < pl_workers (is_pool s)" "0 < pl_depth (is_pool s)"
    "int (pl_depth (is_pool s)) = cf_queue_depth (is_config s)" "pl_full (is_pool s) \<in> {FullDrop, FullWait}"
    "in_bus w (join_with '','' (cf_servers (is_config s)))"
    "roster_place (is_roster s) = configured_place (is_config s) (ps_cur profiles)"
    by (rule inspector_started)
  from h obtain profiles' where q: "common_ok (pw_config v) (pg_config t)"
    "LoadProfiles (dw_decode (pw_desired v)) (dw_parses (pw_desired v)) (pw_disk v) (cf_profiles_dir (pg_config t)) = Inr profiles'"
    "snapshot_ok (ps_cur profiles')" "store_ok (pg_profiles t)"
    "bus_names (Some (ps_cur profiles')) \<noteq> [] \<longrightarrow> pg_bus t" "pg_mirror t \<noteq> None \<longleftrightarrow> pg_bus t"
    "roster_place (pg_roster t) = configured_place (pg_config t) (ps_cur profiles')"
    by (rule http_started)
  have same: "roster_place (is_roster s) = roster_place (pg_roster t)"
    if "in_desired w = pw_desired v" "in_disk w = pw_disk v" "cf_profiles_dir (is_config s) = cf_profiles_dir (pg_config t)"
      "cf_internal_url (is_config s) = cf_internal_url (pg_config t)"
  proof -
    have "profiles = profiles'" using p(3) q(2) that by simp
    then show ?thesis using p(11) q(7) that(4) by (simp add: configured_place_def)
  qed
  show ?thesis using p q same by blast
qed

definition sample_link :: roster_link where
  "sample_link = \<lparr>rl_parses = \<lambda>_. True, rl_ping = True, rl_exec = \<lambda>_ s. (Some [RpList []], s), rl_now = 0\<rparr>"

definition sample_inspector_world :: inspector_world where
  "sample_inspector_world =
     \<lparr>in_config = sample_world, in_desired = sample_desired, in_disk = \<lambda>_. toy_dir, in_store_parses = \<lambda>_. True,
      in_store_ping = True, in_roster = sample_link, in_bus = \<lambda>_. True, in_view = \<lambda>_. toy_dir, in_live = None,
      in_buckets_parse = \<lambda>_. True, in_geo_ok = True, in_blobs_open = \<lambda>_. True, in_subscribe_ok = True, in_limits_ok = True\<rparr>"

definition sample_page_world :: page_world where
  "sample_page_world =
     \<lparr>pw_config = sample_world, pw_desired = sample_desired, pw_disk = \<lambda>_. toy_dir, pw_pages = \<lambda>_. True,
      pw_roster = sample_link, pw_bus = \<lambda>_. True, pw_buckets_parse = \<lambda>_. True, pw_geo_ok = True,
      pw_blobs_open = \<lambda>_. True, pw_view = \<lambda>_. toy_dir, pw_live = None\<rparr>"

lemma sample_profiles:
  "\<exists>s. LoadProfiles (dw_decode sample_desired) (dw_parses sample_desired) (\<lambda>_. toy_dir) dir = Inr s"
proof -
  obtain s where "LoadProfiles toy_decode (\<lambda>_. True) (\<lambda>_. toy_dir) ''/etc'' = Inr s" using toy_load by blast
  then show ?thesis by (auto simp: LoadProfiles_def sample_desired_def split: sum.splits)
qed

lemma sample_rosters:
  "\<exists>r. inspector_roster c sn sample_link = Inr r"
  "cf_internal_url c \<noteq> [] \<Longrightarrow> \<exists>r. http_roster c sn sample_link = Inr r"
  by (simp_all add: inspector_roster_def http_roster_def sample_link_def redis_refresh_def Let_def)

lemma sample_starts:
  "\<exists>s c. inspector_run sample_inspector_world = Inr s \<and> is_config s = c \<and> Load sample_world RoleInspector = Inr c"
  "\<exists>t c. http_run cy sample_page_world = Inr t \<and> pg_config t = c \<and> Load sample_world RoleHTTP = Inr c"
proof -
  obtain c where c: "Load sample_world RoleInspector = Inr c" using sample_loads(1) by blast
  obtain s where s: "LoadProfiles (dw_decode sample_desired) (dw_parses sample_desired) (\<lambda>_. toy_dir) (cf_profiles_dir c) = Inr s"
    using sample_profiles by blast
  obtain r where r: "inspector_roster c (ps_cur s) sample_link = Inr r" using sample_rosters(1) by blast
  show "\<exists>s c. inspector_run sample_inspector_world = Inr s \<and> is_config s = c \<and> Load sample_world RoleInspector = Inr c"
    using c s r by (simp add: inspector_run_def sample_inspector_world_def Let_def)
  obtain d where d: "Load sample_world RoleHTTP = Inr d" "cf_internal_url d = ''redis://r''" "cf_data_dir d = []"
      "cf_controller_url d = []" "cf_servers d = [''nats://127.0.0.1:4222'']"
    using sample_loads(2) by blast
  obtain s' where s': "LoadProfiles (dw_decode sample_desired) (dw_parses sample_desired) (\<lambda>_. toy_dir) (cf_profiles_dir d) = Inr s'"
    using sample_profiles by blast
  obtain r' where r': "http_roster d (ps_cur s') sample_link = Inr r'" using sample_rosters(2) [of d "ps_cur s'"] d(2) by auto
  have "\<exists>b. openBus d (Some (ps_cur s')) (\<lambda>_. True) = Inr b" using d(5) by (simp add: openBus_def Let_def) blast
  moreover have "NewSecrets cy rd (cf_controller_url d) sc kf = Inr None" for rd sc kf
    using d(4) by (simp add: NewSecrets_def)
  ultimately show "\<exists>t c. http_run cy sample_page_world = Inr t \<and> pg_config t = c \<and> Load sample_world RoleHTTP = Inr c"
    using d(1-3) s' r' by (auto simp: http_run_def sample_page_world_def Let_def)
qed

lemma services_start_witness:
  "\<exists>s t. inspector_run sample_inspector_world = Inr s \<and> http_run toy_crypto sample_page_world = Inr t \<and>
     0 < pl_workers (is_pool s) \<and> roster_place (is_roster s) = roster_place (pg_roster t)"
proof -
  obtain s c where s: "inspector_run sample_inspector_world = Inr s" "is_config s = c" "Load sample_world RoleInspector = Inr c"
    using sample_starts(1) by blast
  obtain t d where t: "http_run toy_crypto sample_page_world = Inr t" "pg_config t = d" "Load sample_world RoleHTTP = Inr d"
    using sample_starts(2) by blast
  have "cf_profiles_dir c = cf_profiles_dir d" "cf_internal_url c = cf_internal_url d"
    using sample_loads s(3) t(3) by auto
  moreover have "in_desired sample_inspector_world = pw_desired sample_page_world"
    "in_disk sample_inspector_world = pw_disk sample_page_world"
    by (simp_all add: sample_inspector_world_def sample_page_world_def)
  ultimately show ?thesis
    using services_start [OF s(1) t(1)] s t by auto
qed

end
