(* ===== verification/Sink.thy ===== *)
theory Sink
  imports AuditLog
begin

text \<open>
  The audit sink of \<open>internal/audit/sink.go\<close> as its goroutines run it: any number of callers of \<open>Add\<close>, the loop
  with its flushes, and \<open>Close\<close>. A step is what one of them does under the lock, or one operation on a
  channel; everything else interleaves.
\<close>

section \<open>The goroutines\<close>

text \<open>
  Where the loop is: at its \<open>select\<close>, at the head of \<open>flush\<close>, or at \<open>publish\<close> with the items it took. The flag
  says that this is the flush after \<open>stop\<close>, after which it returns.
\<close>

datatype loop_at = Selecting | Flushing bool | Publishing "audit_item list" bool | Returned

text \<open>
  \<open>sl_kicks\<close> callers of \<open>Add\<close> have released the lock and not yet called \<open>kick\<close>. What was added, before and after the
  loop returned, and what was published is kept for the statements.
\<close>

record sink_life =
  sl_sink :: audit_sink
  sl_loop :: loop_at
  sl_stop :: bool
  sl_kicks :: nat
  sl_added :: "audit_item list"
  sl_late :: "audit_item list"
  sl_sent :: "(string \<times> audit_item list) list"

definition new_life :: sink_life where
  "new_life = \<lparr>sl_sink = NewSink, sl_loop = Selecting, sl_stop = False, sl_kicks = 0, sl_added = [], sl_late = [],
     sl_sent = []\<rparr>"

definition add_step :: "audit_item \<Rightarrow> sink_life \<Rightarrow> sink_life" where
  "add_step it l =
     (case push_locked it (sl_sink l) of (full, s) \<Rightarrow>
        let l = l\<lparr>sl_sink := s, sl_kicks := (if full then sl_kicks l + 1 else sl_kicks l)\<rparr>
        in if sl_loop l = Returned then l\<lparr>sl_late := sl_late l @ [it]\<rparr> else l\<lparr>sl_added := sl_added l @ [it]\<rparr>)"

definition kick_step :: "sink_life \<Rightarrow> sink_life" where
  "kick_step l = l\<lparr>sl_sink := kick (sl_sink l), sl_kicks := sl_kicks l - 1\<rparr>"

text \<open>The cases of the \<open>select\<close> of \<open>loop\<close>, where \<open>tick\<close> can fire at any time.\<close>

datatype selected = Stop | Wake | Tick

definition can_select :: "selected \<Rightarrow> sink_life \<Rightarrow> bool" where
  "can_select c l \<longleftrightarrow>
     sl_loop l = Selecting \<and> (case c of Stop \<Rightarrow> sl_stop l | Wake \<Rightarrow> sk_wake (sl_sink l) | Tick \<Rightarrow> True)"

definition select_step :: "selected \<Rightarrow> sink_life \<Rightarrow> sink_life" where
  "select_step c l =
     (case c of
        Stop \<Rightarrow> l\<lparr>sl_loop := Flushing True\<rparr>
      | Wake \<Rightarrow> l\<lparr>sl_sink := (sl_sink l)\<lparr>sk_wake := False\<rparr>, sl_loop := Flushing False\<rparr>
      | Tick \<Rightarrow> l\<lparr>sl_loop := Flushing False\<rparr>)"

text \<open>One turn of \<open>flush\<close>: its locked part, then \<open>publish\<close>.\<close>

definition flush_step :: "sink_life \<Rightarrow> sink_life" where
  "flush_step l =
     (case sl_loop l of
        Flushing final \<Rightarrow>
          if sk_pending (sl_sink l) = [] then l\<lparr>sl_loop := (if final then Returned else Selecting)\<rparr>
          else (case flush_take (sl_sink l) of (items, s) \<Rightarrow> l\<lparr>sl_sink := s, sl_loop := Publishing items final\<rparr>)
      | Publishing items final \<Rightarrow> l\<lparr>sl_sent := sl_sent l @ publish_batch items, sl_loop := Flushing final\<rparr>
      | _ \<Rightarrow> l)"

inductive life_step :: "sink_life \<Rightarrow> sink_life \<Rightarrow> bool" where
  add: "life_step l (add_step it l)"
| kick: "0 < sl_kicks l \<Longrightarrow> life_step l (kick_step l)"
| select: "can_select c l \<Longrightarrow> life_step l (select_step c l)"
| flush: "sl_loop l \<notin> {Selecting, Returned} \<Longrightarrow> life_step l (flush_step l)"
| close: "life_step l (l\<lparr>sl_stop := True\<rparr>)"

inductive life_reach :: "sink_life \<Rightarrow> bool" where
  new: "life_reach new_life"
| step: "life_reach l \<Longrightarrow> life_step l l' \<Longrightarrow> life_reach l'"

inductive_cases life_stepE: "life_step l l'"

section \<open>The invariant\<close>

definition in_hand :: "sink_life \<Rightarrow> audit_item list" where
  "in_hand l = (case sl_loop l of Publishing items _ \<Rightarrow> items | _ \<Rightarrow> [])"

text \<open>What a subject has seen and what it will.\<close>

definition seen :: "string \<Rightarrow> sink_life \<Rightarrow> audit_item list" where
  "seen subj l = sent_on subj (sl_sent l) @ on_subject subj (in_hand l) @ on_subject subj (sk_pending (sl_sink l))"

definition message_ok :: "string \<times> audit_item list \<Rightarrow> bool" where
  "message_ok m \<longleftrightarrow> snd m \<noteq> [] \<and> length (snd m) \<le> maxItems \<and> (\<forall>it \<in> set (snd m). fst it = fst m)"

definition in_order :: "string \<Rightarrow> sink_life \<Rightarrow> bool" where
  "in_order subj l \<longleftrightarrow>
     subseq (seen subj l) (on_subject subj (sl_added l @ sl_late l)) \<and>
     (sk_dropped (sl_sink l) = 0 \<longrightarrow> seen subj l = on_subject subj (sl_added l @ sl_late l))"

definition kicked :: "sink_life \<Rightarrow> bool" where
  "kicked l \<longleftrightarrow> (sl_loop l = Selecting \<and> is_full (sl_sink l) \<longrightarrow> sk_wake (sl_sink l) \<or> 0 < sl_kicks l)"

definition loop_ok :: "sink_life \<Rightarrow> bool" where
  "loop_ok l \<longleftrightarrow>
     sink_ok (sl_sink l) \<and> (\<forall>m \<in> set (sl_sent l). message_ok m) \<and>
     (\<forall>items final. sl_loop l = Publishing items final \<longrightarrow> items \<noteq> [] \<and> length items \<le> maxItems) \<and>
     (sl_loop l \<noteq> Returned \<longrightarrow> sl_late l = []) \<and>
     (sl_loop l \<in> {Returned, Flushing True} \<or> (\<exists>items. sl_loop l = Publishing items True) \<longrightarrow> sl_stop l)"

text \<open>After the loop has returned, what is still held was added after that.\<close>

definition all_out :: "sink_life \<Rightarrow> bool" where
  "all_out l \<longleftrightarrow> (sl_loop l = Returned \<longrightarrow> (\<exists>n. sk_pending (sl_sink l) = drop n (sl_late l)))"

definition life_inv :: "string \<Rightarrow> sink_life \<Rightarrow> bool" where
  "life_inv subj l \<longleftrightarrow> loop_ok l \<and> in_order subj l \<and> kicked l \<and> all_out l"

lemma on_subject_Nil [simp]: "on_subject subj [] = []"
  by (simp add: on_subject_def)

lemma drop_snoc: "\<exists>k. drop n (drop m xs @ [x]) = drop k (xs @ [x])"
proof (cases "m \<le> length xs")
  case True
  then have "n - (length xs - m) = n + m - length xs" by simp
  then show ?thesis by (intro exI [of _ "n + m"]) simp
next
  case False
  then show ?thesis by (intro exI [of _ "n + length xs"]) simp
qed

lemma new_inv: "life_inv subj new_life"
  by (simp add: life_inv_def loop_ok_def in_order_def kicked_def all_out_def new_life_def NewSink_def sink_ok_def sizeOf_def
      seen_def in_hand_def on_subject_def is_full_def)

lemma add_inv:
  assumes "life_inv subj l"
  shows "life_inv subj (add_step it l)"
proof -
  obtain full s where p: "push_locked it (sl_sink l) = (full, s)" by fastforce
  have ok: "sink_ok (sl_sink l)" using assms by (simp add: life_inv_def loop_ok_def)
  obtain n where s: "sink_ok s" "full = is_full s" "sk_wake s = sk_wake (sl_sink l)"
    "sk_pending s = drop n (sk_pending (sl_sink l) @ [it])" "sk_dropped s = sk_dropped (sl_sink l) + n"
    using push_locked_ok [OF ok p] by blast
  let ?l = "add_step it l"
  have f: "sl_sink ?l = s" "sl_loop ?l = sl_loop l" "sl_stop ?l = sl_stop l" "sl_sent ?l = sl_sent l" "in_hand ?l = in_hand l"
    "sl_kicks ?l = (if full then sl_kicks l + 1 else sl_kicks l)" "sl_loop l \<noteq> Returned \<Longrightarrow> sl_late ?l = sl_late l"
    "sl_loop l = Returned \<Longrightarrow> sl_late ?l = sl_late l @ [it]"
    by (simp_all add: add_step_def p in_hand_def Let_def)
  have a: "on_subject subj (sl_added ?l @ sl_late ?l) = on_subject subj (sl_added l @ sl_late l) @ on_subject subj [it]"
    using assms by (auto simp: add_step_def p Let_def life_inv_def loop_ok_def on_subject_def)
  let ?before = "sent_on subj (sl_sent l) @ on_subject subj (in_hand l)"
  have "subseq (?before @ on_subject subj (drop n (sk_pending (sl_sink l) @ [it])))
      (?before @ on_subject subj (sk_pending (sl_sink l) @ [it]))"
    by (rule list_emb_append_mono [OF subseq_order.order_refl on_subject_drop])
  then have "subseq (seen subj ?l) (seen subj l @ on_subject subj [it])"
    unfolding seen_def f s(4) on_subject_append [of _ "sk_pending (sl_sink l)" "[it]"] append_assoc .
  moreover have "n = 0 \<Longrightarrow> seen subj ?l = seen subj l @ on_subject subj [it]"
    unfolding seen_def f s(4) by simp
  moreover have "subseq (seen subj l @ on_subject subj [it]) (on_subject subj (sl_added l @ sl_late l) @ on_subject subj [it])"
    using assms by (intro list_emb_append_mono subseq_order.order_refl) (simp add: life_inv_def in_order_def)
  ultimately have "in_order subj ?l"
    using assms s(5) unfolding in_order_def life_inv_def a f by (auto intro: subseq_order.order_trans)
  moreover have "kicked ?l" using s(2) by (simp add: kicked_def f)
  moreover have "all_out ?l" using assms s(4) drop_snoc by (auto simp: all_out_def f life_inv_def)
  moreover have "loop_ok ?l" using assms s(1) f by (auto simp: life_inv_def loop_ok_def)
  ultimately show ?thesis by (simp add: life_inv_def)
qed

lemma kick_inv: "life_inv subj l \<Longrightarrow> life_inv subj (kick_step l)"
  by (simp add: kick_step_def kick_def life_inv_def loop_ok_def in_order_def kicked_def all_out_def seen_def in_hand_def
      sink_ok_def)

lemma select_inv: "life_inv subj l \<Longrightarrow> can_select c l \<Longrightarrow> life_inv subj (select_step c l)"
  by (cases c) (auto simp: select_step_def can_select_def life_inv_def loop_ok_def in_order_def kicked_def all_out_def
      seen_def in_hand_def sink_ok_def)

lemma close_inv: "life_inv subj l \<Longrightarrow> life_inv subj (l\<lparr>sl_stop := True\<rparr>)"
  by (simp add: life_inv_def loop_ok_def in_order_def kicked_def all_out_def seen_def in_hand_def)

lemma publish_messages: "items \<noteq> [] \<Longrightarrow> length items \<le> maxItems \<Longrightarrow> m \<in> set (publish_batch items) \<Longrightarrow> message_ok m"
  using publish_sound [of m items] by (auto simp: message_ok_def)

lemma flush_inv:
  assumes "life_inv subj l"
  shows "life_inv subj (flush_step l)"
proof (cases "sl_loop l")
  case (Publishing items final)
  have "items \<noteq> []" "length items \<le> maxItems" using assms Publishing by (auto simp: life_inv_def loop_ok_def)
  then show ?thesis
    using assms publish_messages [of items]
    by (auto simp: flush_step_def Publishing life_inv_def loop_ok_def in_order_def kicked_def all_out_def seen_def in_hand_def
        sent_batch)
next
  case (Flushing final)
  show ?thesis
  proof (cases "sk_pending (sl_sink l) = []")
    case True
    then show ?thesis
      using assms
      by (auto simp: flush_step_def Flushing life_inv_def loop_ok_def in_order_def kicked_def all_out_def seen_def in_hand_def
          is_full_def sink_ok_def sizeOf_def)
  next
    case False
    obtain items s where t: "flush_take (sl_sink l) = (items, s)" by fastforce
    then have s: "items = take maxItems (sk_pending (sl_sink l))" "sk_pending s = drop maxItems (sk_pending (sl_sink l))"
      "sk_dropped s = sk_dropped (sl_sink l)" "sk_size s = sizeOf (sk_pending s)"
      by (auto simp: flush_take_def Let_def min_def)
    have "on_subject subj items @ on_subject subj (sk_pending s) = on_subject subj (sk_pending (sl_sink l))"
      unfolding s on_subject_append [symmetric] append_take_drop_id ..
    then have e: "seen subj (flush_step l) = seen subj l"
      using False by (simp add: flush_step_def Flushing t seen_def in_hand_def)
    have f: "flush_step l = l\<lparr>sl_sink := s, sl_loop := Publishing items final\<rparr>"
      using False by (simp add: flush_step_def Flushing t)
    have "sink_ok s" "items \<noteq> []" "length items \<le> maxItems"
      using assms False s by (auto simp: life_inv_def loop_ok_def sink_ok_def)
    then show ?thesis
      using assms e unfolding f
      by (auto simp: Flushing life_inv_def loop_ok_def in_order_def kicked_def all_out_def s(3))
  qed
qed (use assms in \<open>simp_all add: flush_step_def\<close>)

lemma reach_inv: "life_reach l \<Longrightarrow> life_inv subj l"
  by (induction rule: life_reach.induct) (auto elim!: life_stepE intro: new_inv add_inv kick_inv select_inv flush_inv close_inv)

section \<open>The loop gets everything out\<close>

text \<open>\<open>flush\<close>, once begun and if nothing is added meanwhile, takes the steps that publish what \<^const>\<open>sink_flush\<close> does.\<close>

fun loop_steps :: "nat \<Rightarrow> sink_life \<Rightarrow> sink_life" where
  "loop_steps 0 l = l"
| "loop_steps (Suc n) l = loop_steps n (flush_step l)"

lemma flush_runs:
  "sl_loop l = Flushing final \<Longrightarrow> length (sk_pending (sl_sink l)) \<le> n \<Longrightarrow>
   \<exists>k. loop_steps k l = l\<lparr>sl_sink := snd (sink_flush (sl_sink l)), sl_loop := (if final then Returned else Selecting),
     sl_sent := sl_sent l @ fst (sink_flush (sl_sink l))\<rparr> \<and> k \<le> 2 * n + 1"
proof (induction n arbitrary: l rule: less_induct)
  case (less n)
  show ?case
  proof (cases "sk_pending (sl_sink l) = []")
    case True
    then have "flush_step l = l\<lparr>sl_sink := snd (sink_flush (sl_sink l)), sl_loop := (if final then Returned else Selecting),
        sl_sent := sl_sent l @ fst (sink_flush (sl_sink l))\<rparr>"
      by (simp add: flush_step_def less.prems(1) sink_flush.simps [of "sl_sink l"])
    then have "loop_steps 1 l = \<dots>" by simp
    then show ?thesis by (intro exI [of _ 1]) simp
  next
    case False
    obtain items s where t: "flush_take (sl_sink l) = (items, s)" by fastforce
    let ?l = "l\<lparr>sl_sink := s, sl_loop := Flushing final, sl_sent := sl_sent l @ publish_batch items\<rparr>"
    have two: "flush_step (flush_step l) = ?l"
      using False by (simp add: flush_step_def less.prems(1) t)
    have p: "sk_pending s = drop maxItems (sk_pending (sl_sink l))"
      using t by (auto simp: flush_take_def Let_def min_def)
    have m: "length (sk_pending s) < length (sk_pending (sl_sink l))" using False by (simp add: p)
    then have "length (sk_pending s) < n" using less.prems(2) by simp
    from less.IH [OF this, of ?l] obtain k where
      k: "loop_steps k ?l = ?l\<lparr>sl_sink := snd (sink_flush s), sl_loop := (if final then Returned else Selecting),
        sl_sent := sl_sent ?l @ fst (sink_flush s)\<rparr>" "k \<le> 2 * length (sk_pending s) + 1" by auto
    have "sink_flush (sl_sink l) = (publish_batch items @ fst (sink_flush s), snd (sink_flush s))"
      using False t by (simp add: sink_flush.simps [of "sl_sink l"] split: prod.split)
    then show ?thesis
      using k two m less.prems(2) by (intro exI [of _ "Suc (Suc k)"]) simp
  qed
qed

text \<open>Once the loop has returned nothing is published any more, whatever is added.\<close>

lemma returned_silent:
  "life_step l l' \<Longrightarrow> sl_loop l = Returned \<Longrightarrow> sl_loop l' = Returned \<and> sl_sent l' = sl_sent l"
  by (erule life_stepE) (auto simp: add_step_def kick_step_def can_select_def Let_def split: prod.split)

section \<open>Property\<close>


definition sample_life :: sink_life where
  "sample_life = add_step (''b'', ''2'') (add_step (''a'', ''1'') new_life)"


end
