(* ===== verification/Mirror.thy ===== *)
theory Mirror
  imports Livelist
begin

text \<open>
  The list mirror as its goroutines run it (\<open>internal/livelist/livelist.go\<close>): \<open>Ensure\<close> from any caller, the
  subscription that fills a set's channel, \<open>run\<close> for each set, \<open>resync\<close> over all of them, and \<open>Close\<close>. A step
  is one operation of one goroutine on one set; they interleave freely.
\<close>

section \<open>The goroutines\<close>

text \<open>Where \<open>run\<close> of a set is. \<open>NeverRun\<close>: the subscription failed and no goroutine was started.\<close>

datatype run_at = NeverRun | Starting | Looping | Stopped

record mirror_set =
  ms_set :: live_set
  ms_in :: "frame list"
  ms_run :: run_at

record mirror =
  mi_sets :: "(string, mirror_set) gomap"
  mi_subs :: "string list"
  mi_done :: bool

definition New_mirror :: mirror where
  "New_mirror = \<lparr>mi_sets = [], mi_subs = [], mi_done = False\<rparr>"

definition Ensure_set :: "bool \<Rightarrow> string \<Rightarrow> go_time \<Rightarrow> mirror \<Rightarrow> mirror" where
  "Ensure_set subscribed name now m =
     (if name = [] \<or> map_of (mi_sets m) name \<noteq> None then m
      else let ms = \<lparr>ms_set = new_set name now, ms_in = [], ms_run = (if subscribed then Starting else NeverRun)\<rparr>
           in m\<lparr>mi_sets := AList.update name ms (mi_sets m),
                mi_subs := (if subscribed then mi_subs m @ [name] else mi_subs m)\<rparr>)"

definition lookup :: "string \<Rightarrow> mirror \<Rightarrow> mirror_set option" where
  "lookup name m = map_of (mi_sets m) name"

definition change :: "string \<Rightarrow> (mirror_set \<Rightarrow> mirror_set) \<Rightarrow> mirror \<Rightarrow> mirror" where
  "change name f m =
     (case lookup name m of None \<Rightarrow> m | Some ms \<Rightarrow> m\<lparr>mi_sets := AList.update name (f ms) (mi_sets m)\<rparr>)"

text \<open>A message on the subject of a set; \<^const>\<open>None\<close> when it is not JSON.\<close>

definition deliver_frame :: "frame option \<Rightarrow> mirror_set \<Rightarrow> mirror_set" where
  "deliver_frame msg ms = ms\<lparr>ms_in := offer_frame msg (ms_in ms)\<rparr>"

text \<open>What \<open>resync\<close> does with one set on one tick.\<close>

definition resync_set :: "go_time \<Rightarrow> mirror_set \<Rightarrow> mirror_set" where
  "resync_set now ms =
     (case resync_tick now (ms_set ms) of (st, msg) \<Rightarrow> ms\<lparr>ms_set := st, ms_in := offer_frame msg (ms_in ms)\<rparr>)"

definition Close_mirror :: "mirror \<Rightarrow> mirror" where
  "Close_mirror m = m\<lparr>mi_done := True, mi_subs := []\<rparr>"

text \<open>
  \<open>run\<close>: its first snapshot, one frame of its loop, and its end. An operation that panics ends the process and
  has no step. What is fetched comes from an honest keeper with the history \<open>K\<close>.
\<close>

inductive set_run :: "history \<Rightarrow> bool \<Rightarrow> mirror_set \<Rightarrow> mirror_set \<Rightarrow> bool" for K :: history and finished :: bool where
  start: "ms_run ms = Starting \<Longrightarrow> \<forall>d. fetch = Some d \<longrightarrow> honest_snapshot K d \<Longrightarrow>
    snapshot fetch (ms_set ms) = Some st \<Longrightarrow> set_run K finished ms (ms\<lparr>ms_set := st, ms_run := Looping\<rparr>)"
| frame: "ms_run ms = Looping \<Longrightarrow> ms_in ms = f # rest \<Longrightarrow> honest K b64std fetch objects f \<Longrightarrow>
    onFrame fuel b64std fetch objects now f (ms_set ms) = Some st \<Longrightarrow>
    set_run K finished ms (ms\<lparr>ms_set := st, ms_in := rest\<rparr>)"
| finish: "ms_run ms = Looping \<Longrightarrow> finished \<Longrightarrow> set_run K finished ms (ms\<lparr>ms_run := Stopped\<rparr>)"

inductive mirror_step :: "history \<Rightarrow> mirror \<Rightarrow> mirror \<Rightarrow> bool" for K :: history where
  ensure: "mirror_step K m (Ensure_set subscribed name now m)"
| deliver_frame: "name \<in> set (mi_subs m) \<Longrightarrow> mirror_step K m (change name (deliver_frame msg) m)"
| run: "lookup name m = Some ms \<Longrightarrow> set_run K (mi_done m) ms ms' \<Longrightarrow> mirror_step K m (change name (\<lambda>_. ms') m)"
| resync: "mirror_step K m (change name (resync_set now) m)"
| close: "mirror_step K m (Close_mirror m)"

inductive mirror_reach :: "history \<Rightarrow> mirror \<Rightarrow> bool" for K :: history where
  new: "mirror_reach K New_mirror"
| step: "mirror_reach K m \<Longrightarrow> mirror_step K m m' \<Longrightarrow> mirror_reach K m'"

inductive_cases mirror_stepE: "mirror_step K m m'"
inductive_cases set_runE: "set_run K finished ms ms'"

text \<open>What the readers of the mirror see.\<close>

definition live_sets :: "mirror \<Rightarrow> (string, live_set) gomap" where
  "live_sets m = map (\<lambda>(name, ms). (name, ms_set ms)) (mi_sets m)"

section \<open>The invariant of a set\<close>

definition set_inv :: "history \<Rightarrow> string \<Rightarrow> mirror_set \<Rightarrow> bool" where
  "set_inv K name ms \<longleftrightarrow>
     live_reach K name (ms_set ms) \<and> length (ms_in ms) \<le> queueDepth \<and>
     (ms_run ms \<in> {NeverRun, Starting} \<longrightarrow> \<not> ls_ready (ms_set ms))"

lemma lookup_change:
  "lookup n (change name f m) = (if n = name then map_option f (lookup name m) else lookup n m)"
  by (auto simp: change_def lookup_def update_conv' split: option.splits)

lemma lookup_ensure:
  "lookup n (Ensure_set subscribed name now m) =
     (if n = name \<and> name \<noteq> [] \<and> lookup name m = None
      then Some \<lparr>ms_set = new_set name now, ms_in = [], ms_run = (if subscribed then Starting else NeverRun)\<rparr>
      else lookup n m)"
  by (auto simp: Ensure_set_def lookup_def update_conv' Let_def)

lemma lookup_close [simp]: "lookup n (Close_mirror m) = lookup n m"
  by (simp add: Close_mirror_def lookup_def)

lemma offer_bounded: "length ch \<le> queueDepth \<Longrightarrow> length (offer_frame msg ch) \<le> queueDepth"
  by (auto simp: offer_frame_def split: option.split)

lemma tick_ready [simp]: "ls_ready (fst (resync_tick now st)) = ls_ready st"
  by (simp add: resync_tick_def Let_def)

lemma new_set_inv: "run \<noteq> Stopped \<Longrightarrow> set_inv K name \<lparr>ms_set = new_set name now, ms_in = [], ms_run = run\<rparr>"
  by (auto simp: set_inv_def new_set_def intro: live_reach.ensure [unfolded new_set_def])

lemma deliver_frame_inv: "set_inv K name ms \<Longrightarrow> set_inv K name (deliver_frame msg ms)"
  by (simp add: set_inv_def deliver_frame_def offer_bounded)

lemma resync_inv: "set_inv K name ms \<Longrightarrow> set_inv K name (resync_set now ms)"
  by (simp add: set_inv_def resync_set_def case_prod_beta offer_bounded live_reach.tick)

lemma run_inv: "set_run K finished ms ms' \<Longrightarrow> set_inv K name ms \<Longrightarrow> set_inv K name ms'"
  by (erule set_runE) (auto simp: set_inv_def intro: live_reach.start live_reach.message)

lemma step_inv:
  assumes "mirror_step K m m'" "\<forall>n ms. lookup n m = Some ms \<longrightarrow> set_inv K n ms" "lookup n m' = Some ms"
  shows "set_inv K n ms"
  using assms
  by (elim mirror_stepE) (auto simp: lookup_change lookup_ensure intro: new_set_inv deliver_frame_inv resync_inv run_inv split: if_splits)

lemma reach_sets: "mirror_reach K m \<Longrightarrow> lookup n m = Some ms \<Longrightarrow> set_inv K n ms"
proof (induction arbitrary: n ms rule: mirror_reach.induct)
  case new
  then show ?case by (simp add: New_mirror_def lookup_def)
next
  case (step m m')
  then show ?case using step_inv by blast
qed

lemma live_lookup: "map_of (live_sets m) name = map_option ms_set (lookup name m)"
  unfolding live_sets_def lookup_def by (induction "mi_sets m" rule: list.induct) (auto simp: map_of_map)

text \<open>A set stays, and one that was never started is never started.\<close>

lemma step_keeps:
  assumes "mirror_step K m m'" "lookup n m = Some ms"
  shows "\<exists>ms'. lookup n m' = Some ms' \<and> (ms_run ms = NeverRun \<longrightarrow> ms_run ms' = NeverRun)"
  using assms
  by (elim mirror_stepE) (auto simp: lookup_change lookup_ensure deliver_frame_def resync_set_def case_prod_beta elim: set_runE)

inductive mirror_steps :: "history \<Rightarrow> mirror \<Rightarrow> mirror \<Rightarrow> bool" for K :: history where
  none: "mirror_steps K m m"
| more: "mirror_steps K m m' \<Longrightarrow> mirror_step K m' m'' \<Longrightarrow> mirror_steps K m m''"

lemma steps_reach: "mirror_steps K m m' \<Longrightarrow> mirror_reach K m \<Longrightarrow> mirror_reach K m'"
  by (induction rule: mirror_steps.induct) (auto intro: mirror_reach.step)

lemma mirror_run_keeps:
  "mirror_steps K m m' \<Longrightarrow> lookup n m = Some ms \<Longrightarrow>
   \<exists>ms'. lookup n m' = Some ms' \<and> (ms_run ms = NeverRun \<longrightarrow> ms_run ms' = NeverRun)"
proof (induction rule: mirror_steps.induct)
  case (more m m' m'')
  then show ?case using step_keeps by blast
qed blast

section \<open>Properties\<close>

text \<open>C28: What a running mirror answers. In every state its goroutines can bring it to, with an honest keeper, a set
  answers nothing before its first snapshot, and then exactly what the keeper's list held at the epoch and
  number it has reached, however frames are delayed, repeated, dropped for want of room or interleaved with the
  ticks; its channel holds at most 1024 frames; and a set that is still waiting for its goroutine answers
  nothing.\<close>

theorem mirror_serves:
  assumes "mirror_reach K m" "lookup name m = Some ms" "v \<noteq> []" and st: "st = ms_set ms"
  shows "ContainsAddr (live_sets m) now name (Some a) =
      (if ls_ready st
       then (\<exists>p e. snd (K (ls_epoch st) (ls_seq st)) p = Some e \<and> list_alive e now \<and> covers p (unmap a), True)
       else (False, False)) \<and>
    Lookup (live_sets m) now name v =
      (if ls_ready st
       then (case fst (K (ls_epoch st) (ls_seq st)) v of
               None \<Rightarrow> None
             | Some re \<Rightarrow> if list_alive (cr_exp re) now then Some re else None, True)
       else (None, False)) \<and>
    length (ms_in ms) \<le> 1024 \<and> (ms_run ms \<in> {NeverRun, Starting} \<longrightarrow> \<not> ls_ready st)"
proof -
  have i: "set_inv K name ms" by (rule reach_sets [OF assms(1,2)])
  then have r: "live_reach K name st" by (simp add: set_inv_def st)
  have l: "map_of (live_sets m) name = Some st" using assms(2) by (simp add: live_lookup st)
  show ?thesis using reachable_answers [OF r l assms(3)] i by (auto simp: set_inv_def st)
qed

text \<open>C35: A subscription that fails is never repaired. When the first \<open>Ensure\<close> of a list cannot subscribe, then whatever
  happens later, further calls of \<open>Ensure\<close> with a working bus included, the list answers that it is not
  ready.\<close>

theorem failed_subscription_sticks:
  assumes "mirror_reach K m" "lookup name m = None" "name \<noteq> []" "mirror_steps K (Ensure_set False name now m) m'"
  shows "ContainsAddr (live_sets m') t name a = (False, False) \<and> Lookup (live_sets m') t name v = (None, False)"
proof -
  have "mirror_reach K (Ensure_set False name now m)" using assms(1) by (rule mirror_reach.step) (rule mirror_step.ensure)
  then have r: "mirror_reach K m'" by (rule steps_reach [OF assms(4)])
  have "\<exists>ms. lookup name (Ensure_set False name now m) = Some ms \<and> ms_run ms = NeverRun"
    using assms(2,3) by (simp add: lookup_ensure)
  then obtain ms where ms: "lookup name m' = Some ms" "ms_run ms = NeverRun" using mirror_run_keeps [OF assms(4)] by blast
  then have "\<not> ls_ready (ms_set ms)" using reach_sets [OF r ms(1)] by (simp add: set_inv_def)
  moreover have "map_of (live_sets m') name = Some (ms_set ms)" using ms(1) by (simp add: live_lookup)
  ultimately show ?thesis by (auto simp: ContainsAddr_def Lookup_def split: option.split)
qed

text \<open>A mirror of one set that has fetched the network 10.0.0.0/8.\<close>

lemma sample_mirror: "\<exists>m ms. mirror_reach ten_history m \<and> lookup ''set'' m = Some ms \<and> ls_ready (ms_set ms)"
proof -
  obtain st where st: "snapshot (Some net_ten) (new_set ''set'' 0) = Some st" "ls_ready st" using ten_starts by blast
  let ?m = "Ensure_set True ''set'' 0 New_mirror"
  let ?ms = "\<lparr>ms_set = new_set ''set'' 0, ms_in = [], ms_run = Starting\<rparr>"
  have r: "mirror_reach ten_history ?m" by (rule mirror_reach.step [OF mirror_reach.new mirror_step.ensure])
  have l: "lookup ''set'' ?m = Some ?ms" by (simp add: lookup_ensure) (simp add: lookup_def New_mirror_def)
  have "set_run ten_history (mi_done ?m) ?ms (?ms\<lparr>ms_set := st, ms_run := Looping\<rparr>)"
    by (rule set_run.start) (use st(1) net_ten_honest in simp_all)
  from mirror_reach.step [OF r mirror_step.run [OF l this]] st(2) l show ?thesis by (auto simp: lookup_change)
qed

lemma mirror_serves_witness:
  "\<exists>m. mirror_reach ten_history m \<and> Lookup (live_sets m) 0 ''set'' ''x'' = (None, True)"
proof -
  obtain m ms where m: "mirror_reach ten_history m" "lookup ''set'' m = Some ms" "ls_ready (ms_set ms)"
    using sample_mirror by blast
  have "Lookup (live_sets m) 0 ''set'' ''x'' = (None, True)"
    using mirror_serves [OF m(1,2), of "''x''" "ms_set ms" 0 "A4 0"] m(3) by (simp add: ten_history_def content_apply_def)
  with m show ?thesis by blast
qed

lemma failed_subscription_sticks_witness:
  "Lookup (live_sets (Ensure_set True ''set'' 5 (Ensure_set False ''set'' 0 New_mirror))) 9 ''set'' ''x'' = (None, False)"
proof -
  have "lookup ''set'' New_mirror = None" by (simp add: lookup_def New_mirror_def)
  moreover have "mirror_steps ten_history (Ensure_set False ''set'' 0 New_mirror)
      (Ensure_set True ''set'' 5 (Ensure_set False ''set'' 0 New_mirror))"
    by (rule mirror_steps.more [OF mirror_steps.none mirror_step.ensure])
  ultimately show ?thesis
    using failed_subscription_sticks [OF mirror_reach.new, of "''set''" ten_history 0 _ 9 None "''x''"] by simp
qed

end
