(* ===== verification/Service.thy ===== *)
theory Service
  imports Startup Mirror
begin

text \<open>
  A started service at work: the loops \<open>main\<close> of both services starts in the background and what they do to the
  profile store and the mirror. \<open>desired.Watch\<close>, \<open>Store.Watch\<close>, \<open>waitForSignal\<close> and \<open>watchClearanceLists\<close>
  run at once; a \<open>service_event\<close> is one turn of one of the first three, and any sequence of them may happen.
\<close>

section \<open>The loops\<close>

type_synonym disk = "string \<Rightarrow> conf_dir"

definition reload_store :: "desired_world \<Rightarrow> disk \<Rightarrow> prof_store \<Rightarrow> prof_store" where
  "reload_store w d s = snd (Reload (dw_decode w) (dw_parses w) d s)"

text \<open>\<open>Store.Watch\<close> over what its \<open>select\<close> gives: the end of the context, or a tick that meets a file system.\<close>

datatype tick_event = Ended | Ticked disk

fun tick_loop :: "desired_world \<Rightarrow> tick_event list \<Rightarrow> prof_store \<Rightarrow> prof_store" where
  "tick_loop w [] s = s"
| "tick_loop w (Ended # es) s = s"
| "tick_loop w (Ticked d # es) s = tick_loop w es (reload_store w d s)"

definition store_Watch :: "desired_world \<Rightarrow> duration \<Rightarrow> tick_event list \<Rightarrow> prof_store \<Rightarrow> prof_store" where
  "store_Watch w every es s = (if every \<le> 0 then s else tick_loop w es s)"

text \<open>\<open>waitForSignal\<close>: the signal that ends the service, if one has come.\<close>

datatype os_signal = SIGINT | SIGTERM | SIGHUP

fun waitForSignal ::
    "desired_world \<Rightarrow> (os_signal \<times> disk) list \<Rightarrow> prof_store \<Rightarrow> os_signal option \<times> prof_store" where
  "waitForSignal w [] s = (None, s)"
| "waitForSignal w ((sig, d) # es) s =
     (if sig = SIGHUP then waitForSignal w es (reload_store w d s) else (Some sig, s))"

text \<open>One pass of \<open>watchClearanceLists\<close>; \<open>subscribed\<close> says for which lists the bus takes a subscription.\<close>

definition clearance_pass :: "(string \<Rightarrow> bool) \<Rightarrow> snapshot option \<Rightarrow> go_time \<Rightarrow> mirror \<Rightarrow> mirror" where
  "clearance_pass subscribed sn now m =
     fold (\<lambda>name. Ensure_set (subscribed name) name now) (watched_lists sn) m"

section \<open>All of them at once\<close>

datatype service_event = Manifest faults kv_entry | ReloadTick disk | Hangup disk

definition service_step :: "desired_world \<Rightarrow> string \<Rightarrow> service_event \<Rightarrow> node \<Rightarrow> node" where
  "service_step w dataDir ev n =
     (case ev of
        Manifest fa e \<Rightarrow> watch_entry w dataDir (fa, e) n
      | ReloadTick d \<Rightarrow> n\<lparr>nd_store := reload_store w d (nd_store n)\<rparr>
      | Hangup d \<Rightarrow> n\<lparr>nd_store := reload_store w d (nd_store n)\<rparr>)"

definition service_run :: "desired_world \<Rightarrow> string \<Rightarrow> service_event list \<Rightarrow> node \<Rightarrow> node" where
  "service_run w dataDir evs n = fold (service_step w dataDir) evs n"

lemma service_run_simps [simp]:
  "service_run w dir [] n = n" "service_run w dir (e # es) n = service_run w dir es (service_step w dir e n)"
  by (simp_all add: service_run_def)

text \<open>Each loop alone is such a sequence.\<close>

lemma watch_loop_run: "\<exists>evs. watch_loop w dir es n = service_run w dir evs n"
proof (induction w dir es n rule: watch_loop.induct)
  case (4 w dir fa e es n)
  then obtain evs where "watch_loop w dir es (watch_entry w dir (fa, e) n) = service_run w dir evs (watch_entry w dir (fa, e) n)"
    by blast
  then show ?case by (intro exI [of _ "Manifest fa e # evs"]) (simp add: service_step_def)
qed (auto intro: exI [of _ "[]"])

lemma store_Watch_run: "\<exists>evs. n\<lparr>nd_store := store_Watch w every es (nd_store n)\<rparr> = service_run w dir evs n"
proof -
  have "\<exists>evs. n\<lparr>nd_store := tick_loop w es (nd_store n)\<rparr> = service_run w dir evs n"
  proof (induction w es "nd_store n" arbitrary: n rule: tick_loop.induct)
    case (3 w d es)
    let ?n = "n\<lparr>nd_store := reload_store w d (nd_store n)\<rparr>"
    obtain evs where "?n\<lparr>nd_store := tick_loop w es (nd_store ?n)\<rparr> = service_run w dir evs ?n" using 3 [of ?n] by auto
    then show ?case by (intro exI [of _ "ReloadTick d # evs"]) (simp add: service_step_def)
  qed (auto intro: exI [of _ "[]"])
  then show ?thesis by (auto simp: store_Watch_def intro: exI [of _ "[]"])
qed

lemma waitForSignal_run: "\<exists>evs. n\<lparr>nd_store := snd (waitForSignal w es (nd_store n))\<rparr> = service_run w dir evs n"
proof (induction w es "nd_store n" arbitrary: n rule: waitForSignal.induct)
  case (2 w sig d es)
  show ?case
  proof (cases "sig = SIGHUP")
    case True
    let ?n = "n\<lparr>nd_store := reload_store w d (nd_store n)\<rparr>"
    obtain evs where "?n\<lparr>nd_store := snd (waitForSignal w es (nd_store ?n))\<rparr> = service_run w dir evs ?n"
      using 2 [of ?n] True by auto
    then show ?thesis using True by (intro exI [of _ "Hangup d # evs"]) (simp add: service_step_def)
  qed (auto intro: exI [of _ "[]"])
qed (auto intro: exI [of _ "[]"])

text \<open>A signal other than SIGHUP ends the service, and nothing after it counts.\<close>

lemma waitForSignal_ends:
  "fst (waitForSignal w es s) = None \<longleftrightarrow> (\<forall>e \<in> set es. fst e = SIGHUP)"
  by (induction w es s rule: waitForSignal.induct) auto

section \<open>What holds all the time\<close>

lemma reload_store_ok: "store_ok s \<Longrightarrow> store_ok (reload_store w d s) \<and> ps_dir (reload_store w d s) = ps_dir s"
  by (auto simp: reload_store_def Reload_def store_ok_def dest: read_snapshot_ok split: option.split sum.split)

lemma service_run_ok:
  "store_ok (nd_store n) \<Longrightarrow> reads_live dir n \<Longrightarrow>
   store_ok (nd_store (service_run w dir evs n)) \<and> reads_live dir (service_run w dir evs n)"
proof (induction evs arbitrary: n)
  case (Cons ev evs)
  have "store_ok (nd_store (service_step w dir ev n)) \<and> reads_live dir (service_step w dir ev n)"
  proof (cases ev)
    case (Manifest fa e)
    then show ?thesis using Cons.prems by (simp add: service_step_def watch_entry_store_ok watch_entry_reads_live)
  qed (use Cons.prems reload_store_ok [OF Cons.prems(1)] in \<open>simp_all add: service_step_def reads_live_def\<close>)
  then show ?case using Cons.IH by simp
qed simp

section \<open>The lists of clearances\<close>

lemma pass_reaches: "mirror_reach K m \<Longrightarrow> mirror_reach K (fold (\<lambda>name. Ensure_set (f name) name now) names m)"
  by (induction names arbitrary: m) (auto intro: mirror_reach.step mirror_step.ensure)

lemma pass_keeps: "lookup n m = Some ms \<Longrightarrow> lookup n (fold (\<lambda>name. Ensure_set (f name) name now) names m) = Some ms"
proof (induction names arbitrary: m)
  case (Cons a names)
  then have "lookup n (Ensure_set (f a) a now m) = Some ms" by (auto simp: lookup_ensure)
  then show ?case using Cons.IH by simp
qed simp

lemma pass_adds:
  "n \<in> set names \<Longrightarrow> n \<noteq> [] \<Longrightarrow> lookup n m = None \<Longrightarrow>
   lookup n (fold (\<lambda>name. Ensure_set (f name) name now) names m) =
     Some \<lparr>ms_set = new_set n now, ms_in = [], ms_run = (if f n then Starting else NeverRun)\<rparr>"
proof (induction names arbitrary: m)
  case (Cons name names)
  show ?case
  proof (cases "n = name")
    case True
    then show ?thesis using Cons.prems by (auto intro!: pass_keeps simp: lookup_ensure)
  next
    case False
    then show ?thesis using Cons by (simp add: lookup_ensure)
  qed
qed simp

lemma watched_in: "p \<in> set (All sn) \<Longrightarrow> ListEnabled (p_clearance p) \<Longrightarrow> cc_list (p_clearance p) \<in> set (watched_lists sn) \<and> cc_list (p_clearance p) \<noteq> []"
  by (auto simp: watched_lists_def ListEnabled_def)

text \<open>C29: Every list of clearances a profile names is mirrored. After the pass that follows a reload, the list of
  each profile then served is in the mirror: as it was, if it was there before, and otherwise new, about to be
  read when the bus took the subscription. No list leaves the mirror, and what a list answers is exact or
  not at all.\<close>

theorem clearance_lists_mirrored:
  assumes "mirror_reach K m" "p \<in> set (All sn)" "ListEnabled (p_clearance p)" and l: "l = cc_list (p_clearance p)"
    and m': "m' = clearance_pass subscribed sn now m"
  shows "\<exists>ms. lookup l m' = Some ms \<and>
      (case lookup l m of Some ms0 \<Rightarrow> ms = ms0 | None \<Rightarrow> ms_run ms = (if subscribed l then Starting else NeverRun)) \<and>
      (\<forall>n ms0. lookup n m = Some ms0 \<longrightarrow> lookup n m' = Some ms0) \<and>
      ContainsAddr (live_sets m') t l (Some a) =
        (if ls_ready (ms_set ms)
         then (\<exists>q e. snd (K (ls_epoch (ms_set ms)) (ls_seq (ms_set ms))) q = Some e \<and> list_alive e t \<and> covers q (unmap a), True)
         else (False, False))"
proof -
  have w: "l \<in> set (watched_lists sn)" "l \<noteq> []" using watched_in [OF assms(2,3)] by (simp_all add: l)
  have keeps: "lookup n m = Some ms0 \<Longrightarrow> lookup n m' = Some ms0" for n ms0
    unfolding m' clearance_pass_def by (rule pass_keeps)
  obtain ms where ms: "lookup l m' = Some ms"
    "case lookup l m of Some ms0 \<Rightarrow> ms = ms0 | None \<Rightarrow> ms_run ms = (if subscribed l then Starting else NeverRun)"
  proof (cases "lookup l m")
    case None
    then show ?thesis using that pass_adds [OF w None, of subscribed now] by (simp add: m' clearance_pass_def)
  next
    case (Some ms0)
    then show ?thesis using that keeps by simp
  qed
  have "mirror_reach K m'" unfolding m' clearance_pass_def by (rule pass_reaches [OF assms(1)])
  then have "live_reach K l (ms_set ms)" using reach_sets ms(1) by (auto simp: set_inv_def)
  from reachable_answers [OF this, of "live_sets m'" "''x''"] ms keeps show ?thesis by (auto simp: live_lookup)
qed

text \<open>A snapshot of one profile, whose clearances are listed in \<open>set\<close>.\<close>

definition listed_profile :: profile where
  "listed_profile = (defaults ''default'')\<lparr>p_clearance := (p_clearance (defaults ''default''))\<lparr>cc_list := ''set''\<rparr>\<rparr>"

definition listed_snapshot :: snapshot where
  "listed_snapshot = \<lparr>sn_gen = 1, sn_fingerprint = [], sn_by_name = [(''default'', listed_profile)], sn_by_path = [],
     sn_names = [''default''], sn_roster = p_roster listed_profile, sn_limits = p_limits listed_profile\<rparr>"

lemma clearance_lists_mirrored_witness:
  "\<exists>ms. lookup ''set'' (clearance_pass (\<lambda>_. True) (Some listed_snapshot) 0 New_mirror) = Some ms \<and> ms_run ms = Starting"
proof -
  have l: "cc_list (p_clearance listed_profile) = ''set''" by (simp add: listed_profile_def)
  have p: "listed_profile \<in> set (All (Some listed_snapshot))" by (simp add: All_def listed_snapshot_def)
  have e: "ListEnabled (p_clearance listed_profile)" by (simp add: ListEnabled_def l)
  have "lookup ''set'' New_mirror = None" by (simp add: lookup_def New_mirror_def)
  with clearance_lists_mirrored [where K = ten_history and subscribed = "\<lambda>_. True" and now = 0 and t = 0 and a = "A4 0",
      OF mirror_reach.new p e l [symmetric] refl]
  show ?thesis by (elim exE conjE) (intro exI conjI; simp)
qed

end
