(* ===== verification/Gate.thy ===== *)
theory Gate
  imports Handler Service
begin

text \<open>
  The handler over the mirror: the gate of the inspector when the clearances it asks for are those a running
  mirror holds.
\<close>

text \<open>What a list whose content is \<open>c\<close> says of a value at the time \<open>now\<close>, in milliseconds.\<close>

definition keeper_lists :: "content \<Rightarrow> string \<Rightarrow> int \<Rightarrow> bool" where
  "keeper_lists c v now \<longleftrightarrow>
     (\<exists>re. fst c v = Some re \<and> list_alive (cr_exp re) now) \<or>
     (\<exists>a q e. ParseAddr v = Some a \<and> snd c q = Some e \<and> list_alive e now \<and> covers q (unmap a)) \<or>
     (\<exists>p q e. ParsePrefix v = Some p \<and> masked (PrefixFrom (unmap (fst p)) (snd p)) = Some q \<and> snd c q = Some e \<and> list_alive e now)"

lemma set_contains_lists:
  assumes "live_reach K name st" "set_contains now v st = (True, True)"
  shows "ls_ready st \<and> keeper_lists (K (ls_epoch st) (ls_seq st)) v now"
proof -
  have r: "ls_ready st" using assms(2) by (simp add: set_contains_def split: if_splits)
  then have f: "comp_inv (ls_key st) (ls_comp st)" "content_of (ls_comp st) = K (ls_epoch st) (ls_seq st)"
    using live_follows [OF assms(1)] by (simp_all add: follows_def)
  have c: "map_of (co_nets (ls_comp st)) = snd (K (ls_epoch st) (ls_seq st))"
    "map_of (co_entries (ls_comp st)) = fst (K (ls_epoch st) (ls_seq st))"
    by (simp_all add: content_of_def flip: f(2))
  show ?thesis
  proof (cases "ls_typ st = typeCIDR")
    case True
    show ?thesis
    proof (cases "ParseAddr v")
      case (Some a)
      then have "containsAddr (ls_comp st) a now" using assms(2) r True by (simp add: set_contains_def)
      then show ?thesis using r Some unfolding containsAddr_iff [OF f(1)] c keeper_lists_def by blast
    next
      case None
      then obtain p q e where "ParsePrefix v = Some p" "masked (PrefixFrom (unmap (fst p)) (snd p)) = Some q"
        "map_of (co_nets (ls_comp st)) q = Some e" "list_alive e now"
        using assms(2) r True by (auto simp: set_contains_def split: option.splits)
      then show ?thesis using r unfolding c keeper_lists_def by blast
    qed
  next
    case False
    then obtain re where "map_of (co_entries (ls_comp st)) v = Some re" "list_alive (cr_exp re) now"
      using assms(2) r by (auto simp: set_contains_def split: option.splits)
    then show ?thesis using r unfolding c keeper_lists_def by blast
  qed
qed

lemma mirror_lists:
  assumes "mirror_reach K m" "mirror_contains (live_sets m) now name v = (True, True)"
  shows "\<exists>ms. lookup name m = Some ms \<and> ls_ready (ms_set ms) \<and>
    keeper_lists (K (ls_epoch (ms_set ms)) (ls_seq (ms_set ms))) v now"
proof -
  obtain ms where ms: "lookup name m = Some ms" "set_contains now v (ms_set ms) = (True, True)"
    using assms(2) by (auto simp: mirror_contains_def live_lookup split: option.splits if_splits)
  have "live_reach K name (ms_set ms)" using reach_sets [OF assms(1) ms(1)] by (simp add: set_inv_def)
  from set_contains_lists [OF this ms(2)] ms(1) show ?thesis by blast
qed

text \<open>C2: The gate from the key to the keeper. A handler that asks a running mirror lets a request in where a
  challenge is always asked, with no skip granted, only with a clearance that opens under its key for this
  visitor, is unexpired and unrevoked, and, once the time of grace for the list is over, is on the keeper's list
  as of the epoch and number the mirror has reached. A mirror that has nothing yet lets nobody in.\<close>

theorem entry_was_listed:
  assumes mirror: "ha_clearances h = Some (mirror_contains (live_sets m) ms)" "mirror_reach K m"
    and prof: "snap_profile (Some (ha_snapshot h)) (rt_profile (q_route req)) = Some p" "p_mode p = ModeEnforce"
      "\<not> OwnPath p (h_uri (q_http req))"
    and asks: "ru_when (RuleFor p (h_method (q_http req)) (h_uri (q_http req))) = WhenAlways"
      "\<not> as_skip (PriorAsk (q_prior req) (Some p))"
    and out: "inspect h req fill w = (Some (rep, det), w')" "rp_verdict rep = VerdictAllow"
  shows "\<exists>raw ua c.
    OpenClearance (ha_token h) raw (ha_now h) (want_bind p (client_ip (q_conn req)) ua) = (Some c, None) \<and>
    unix (ha_now h) < c_expiry c \<and>
    (\<forall>rv. ha_revoked h = Some rv \<and> c_fp c \<noteq> [] \<longrightarrow> \<not> rv (''fp:'' @ c_fp c)) \<and>
    (ListEnabled (p_clearance p) \<and> ha_now h - from_unix (c_issued c) > cc_grace (p_clearance p) \<longrightarrow>
      (\<exists>st. lookup (cc_list (p_clearance p)) m = Some st \<and> ls_ready (ms_set st) \<and>
        keeper_lists (K (ls_epoch (ms_set st)) (ls_seq (ms_set st))) (c_jti c) ms))"
proof -
  from entry_core [OF prof asks out] obtain raw ua c where
    c: "OpenClearance (ha_token h) raw (ha_now h) (want_bind p (client_ip (q_conn req)) ua) = (Some c, None)"
    "unix (ha_now h) < c_expiry c" "\<forall>rv. ha_revoked h = Some rv \<and> c_fp c \<noteq> [] \<longrightarrow> \<not> rv (''fp:'' @ c_fp c)"
    and f: "ListEnabled (p_clearance p) \<and> ha_now h - from_unix (c_issued c) > cc_grace (p_clearance p) \<longrightarrow>
      (\<exists>f. ha_clearances h = Some f \<and> f (cc_list (p_clearance p)) (c_jti c) = (True, True))"
    by blast
  have "ListEnabled (p_clearance p) \<and> ha_now h - from_unix (c_issued c) > cc_grace (p_clearance p) \<longrightarrow>
      (\<exists>st. lookup (cc_list (p_clearance p)) m = Some st \<and> ls_ready (ms_set st) \<and>
        keeper_lists (K (ls_epoch (ms_set st)) (ls_seq (ms_set st))) (c_jti c) ms)"
    using f mirror(1) mirror_lists [OF mirror(2)] by auto
  with c show ?thesis by blast
qed

lemma entry_was_listed_witness:
  "\<exists>raw ua c. OpenClearance toy_key raw (from_unix 150) (want_bind cleared_profile (client_ip (q_conn toy_request)) ua) = (Some c, None) \<and>
     150 < c_expiry c"
proof -
  let ?h = "toy_hand\<lparr>ha_clearances := Some (mirror_contains (live_sets New_mirror) 0)\<rparr>"
  obtain rep det w' where out: "inspect ?h toy_request 0 toy_world = (Some (rep, det), w')" "rp_verdict rep = VerdictAllow"
    using toy_inspect by blast
  have p: "snap_profile (Some (ha_snapshot ?h)) (rt_profile (q_route toy_request)) = Some cleared_profile"
    using toy_profile by simp
  have "ha_token ?h = toy_key" "unix (ha_now ?h) = 150" "ha_now ?h = from_unix 150" by (simp_all add: toy_hand_def)
  moreover have cl: "ha_clearances ?h = Some (mirror_contains (live_sets New_mirror) 0)" by simp
  moreover have "\<exists>raw ua c. OpenClearance (ha_token ?h) raw (ha_now ?h) (want_bind cleared_profile (client_ip (q_conn toy_request)) ua) = (Some c, None) \<and>
      unix (ha_now ?h) < c_expiry c"
    using entry_was_listed [OF cl mirror_reach.new [of ten_history] p cleared_profile_facts(1) _ cleared_profile_facts(3) _ out]
    by (simp add: toy_asked PriorAsk_def empty_asked_def) blast
  ultimately show ?thesis by simp
qed

end
