(* ===== verification/Spec2Isabelle.thy ===== *)
theory Spec2Isabelle
  imports Protocol Overload Go_Float Netip Sha256 Base64 Token Profile Validate Buckets Decide
    Queue Siphash Wafs Livelist Roster Store Subjects AuditLog Profiles Handler Provider Http Web Passes Journey
    Secrets Sound Picture Conf_File Config Yaml_Values Desired Probe Startup Sink Mirror Service Gate
begin

text \<open>
  A verification library for \<open>placitum-captcha\<close>, the captcha inspector of a web application firewall.

  \<^bold>\<open>The program.\<close> The firewall's module asks the \<^emph>\<open>inspector\<close> (\<open>src/cmd/inspector\<close>) about every request over a
  message bus. The inspector reads the request's headers from the request store, opens the clearance cookie,
  charges leaky buckets, and answers allow, deny, redirect or error, with asks to other inspectors and writes
  to lists. A redirect leads to the \<^emph>\<open>page server\<close> (\<open>src/cmd/http\<close>), which shows a challenge, checks the answer
  and grants a clearance cookie that the inspector accepts. Both read the same profiles, from a directory or
  from the manifest a controller publishes, share a key, and keep nonces, bans and revocations in a roster;
  the ids of issued clearances travel back to the inspector in a replicated list.

  \<^bold>\<open>The theories\<close>, in the order they build on each other:

  \<^item> \<open>Prelude\<close>: Go strings, the functions of package \<open>strings\<close>, 64-bit integers, maps, sequences of checks. \<open>Go_Float\<close>
    (binary64), \<open>Netip\<close>, \<open>Sha256\<close>, \<open>Base64\<close> and \<open>Strconv\<close> are the parts of Go's library the code computes with.
  \<^item> \<open>Protocol\<close> (\<open>internal/protocol\<close>): messages, the checks of \<open>Parse\<close>, the verbs of an action, reply constructors.
  \<^item> \<open>Overload\<close> (\<open>internal/overload\<close>); \<open>Token\<close> (\<open>internal/token\<close>): sealed clearances and tickets.
  \<^item> \<open>Profile\<close>, \<open>Validate\<close>, \<open>Profiles\<close> (\<open>internal/config/profile.go\<close>, \<open>profiles.go\<close>): a profile and its questions, its
    checks, and the snapshot of a directory with the store that publishes it; \<open>Yaml_Values\<close>: the unmarshallers of
    durations and rates.
  \<^item> \<open>Buckets\<close> (\<open>internal/buckets\<close>): both backends of the leaky buckets, behind the locale \<open>bucket_backend\<close>.
  \<^item> \<open>Decide\<close> (\<open>internal/decide\<close>): \<open>Check\<close>, the verdict on one request, and the asks of earlier inspectors.
  \<^item> \<open>Queue\<close> (\<open>internal/queue\<close>): the pool as an inductive step relation whose steps are the critical sections.
  \<^item> \<open>Siphash\<close>, \<open>Wafs\<close>, \<open>Livelist\<close> (\<open>internal/livelist\<close>): the hash, the binary form and one set of a mirror; \<open>Mirror\<close>: the
    mirror with its goroutines, channels and subscriptions.
  \<^item> \<open>Roster\<close> (\<open>internal/roster\<close>), both implementations; \<open>Store\<close> (\<open>internal/store\<close>); \<open>AuditLog\<close> (\<open>internal/audit\<close>,
    \<open>internal/stats\<close>), with the goroutines of its sink in \<open>Sink\<close>; \<open>Subjects\<close> (\<open>cmd/inspector/subjects.go\<close>): buckets, rules and list writes of one request.
  \<^item> \<open>Handler\<close> (\<open>cmd/inspector/handler.go\<close>, \<open>form.go\<close>): one message from its bytes to the reply and the audit event.
  \<^item> \<open>Provider\<close> (\<open>internal/provider\<close>), \<open>Sound\<close> and \<open>Picture\<close> (\<open>internal/image\<close>), \<open>Secrets\<close> (\<open>internal/secrets\<close>): challenges,
    the samples of a spoken text, the picture of a text, and the secrets of external services.
  \<^item> \<open>Http\<close>, \<open>Web\<close> (\<open>cmd/http\<close>): what a handler is made of, and the handlers. \<open>Passes\<close> and \<open>Journey\<close>: what the page server
    promises, over sequences of requests and together with the inspector.
  \<^item> \<open>Conf_File\<close>, \<open>Config\<close> (\<open>internal/config/file.go\<close>, \<open>config.go\<close>, \<open>logship.go\<close>): the settings file and the environment.
  \<^item> \<open>Desired\<close> (\<open>internal/desired\<close>): the manifest, its way to the disk and into the store, what is applied.
  \<^item> \<open>Probe\<close> (\<open>cmd/probe\<close>): the health check. \<open>Startup\<close> (both \<open>main.go\<close>): the order of start-up, and the heartbeat.
    \<open>Service\<close>: the loops of a started service, signals, reload ticks, manifests and the passes over the clearance lists.
    \<open>Gate\<close>: the handler over the mirror, from the clearance cookie to the keeper's list.

  \<^bold>\<open>State and operations.\<close> A struct is a record with the fields of the source under a prefix of two or three letters; a Go map
  that is iterated or measured is an association list (\<open>gomap\<close>), a pointer an \<open>option\<close>, an error a value of a
  datatype of its own in \<open>Inl\<close> or an \<open>option\<close>, a panic \<^const>\<open>None\<close>. An operation takes the clock, the random
  numbers and the outside as arguments and returns the new state. Constants are abbreviations under their Go names. Strings are byte strings. Integers are
  \<^typ>\<open>int\<close> with \<open>i64\<close> where a product or sum can leave 64 bits, and words in the hashes and in sound. A
  \<open>float64\<close> is a rational; the rounding \<open>f64\<close> follows every operation, and the lemmas of \<open>Buckets\<close> use only the
  laws of the locale \<open>rounding\<close>, which \<open>Go_Float\<close> proves of \<open>f64\<close>.

  \<^bold>\<open>Interfaces.\<close> \<open>rounding\<close> (interpreted by \<open>f64\<close>), \<open>bucket_backend\<close> (by the ledger and by Redis), \<open>burn_store\<close> (by the memory
  roster) and \<open>nonce_roster\<close> (by the memory roster, for the page server).

  \<^bold>\<open>What is shown.\<close> The gate: nobody passes an enforced path without a live, unrevoked, listed clearance (\<open>Handler\<close>,
  \<open>Decide\<close>), such a clearance is earned by a right answer, once per ticket (\<open>Passes\<close>), and a granted one is let
  through (\<open>Journey\<close>). The verdict as a table, observe mode, local redirects, and who may weaken a decision
  (\<open>Decide\<close>, \<open>Journey\<close>). Every task answered once under all interleavings, no lost wake-up, bounds and order
  (\<open>Queue\<close>, \<open>Handler\<close>). Bounds of levels and agreement of the backends in binary64 (\<open>Buckets\<close>). A mirror under every interleaving of its
  goroutines answers from the keeper's content at one epoch and number (\<open>Mirror\<close>), catching up returns (\<open>Livelist\<close>), every
  list of a served profile is mirrored (\<open>Service\<close>), and audit events go out once and in order (\<open>Sink\<close>). Pictures
  cut nothing off (\<open>Picture\<close>). Snapshots hold
  validated profiles only, through reloads and manifests (\<open>Profiles\<close>, \<open>Desired\<close>, and below), and what is reported as
  applied is what is on disk (\<open>Desired\<close>). Round trips of tokens, cookies, envelopes, samples and settings. The
  theorems named in the findings of the manifest show where the code does not do what it means to.

  \<^bold>\<open>Bounds and fuel.\<close> Recursion is structural or by a measure proved at the definition. The loop of the mirror's \<open>catchUp\<close>
  is bounded by the number of missing packages (theorem \<open>Livelist.catchUp_returns\<close>); the bounds of the source
  (sizes, limits, lifetimes) are its constants.

  \<^bold>\<open>Outside.\<close> Services and packages that are not in the repository are arguments: the bus, Redis, the key-value store and
  the HTTP clients; \<open>encoding/json\<close>, YAML, \<open>net/url\<close> and the templates; AES-GCM, RSA and PEM; the clock and the
  random numbers; the geo service and the audit, flow and pulse packages of \<open>placitum-shared\<close>. Where a property needs
  something of them it is a named hypothesis, and its witness instantiates it.

  \<^bold>\<open>Not modelled.\<close> Logging and metrics output, HTML templates and the browser script, build information; the HTTP listener and
  its timeouts, the sending of the heartbeat on its ticker and the glyphs of the font, which are calls of
  libraries. Goroutines are modelled where they share state: in \<open>Queue\<close>, \<open>Sink\<close> and \<open>Mirror\<close> as steps, elsewhere as sequences of
  the operations that a mutex makes atomic.
\<close>

section \<open>A running inspector\<close>

text \<open>C19: A started inspector keeps what it started with. After any interleaving of manifests, reload ticks and
  hang-up signals, whatever they find on the disk and however the file system fails, it serves a default and
  a probe profile, and only profiles that pass validation; once a manifest is applied it reads its profiles from
  the tree of the manifests and never goes back; in every state the submitters, workers and timers can bring its
  queue to, the queue is no longer than configured, a queued task has an awake or busy worker, and every call of
  the handler had the minimum budget left or names why not; and when the workers have all exited, for which
  the shutdown waits, no task is queued or worked on.\<close>

theorem inspector_keeps_serving:
  assumes "inspector_run w = Inr s" "reachable (is_pool s) pl"
    and "n = service_run (in_desired w) dataDir evs
      \<lparr>nd_applied = no_applied, nd_disk = d, nd_store = is_profiles s, nd_level = l\<rparr>"
  shows "snap_profile (Some (ps_cur (nd_store n))) [] \<noteq> None \<and> snap_profile (Some (ps_cur (nd_store n))) ProbeName \<noteq> None \<and>
    (\<forall>name p. snap_profile (Some (ps_cur (nd_store n))) name = Some p \<longrightarrow> ValidateProfile p = (None, p)) \<and>
    (ap_hash (nd_applied n) \<noteq> [] \<longrightarrow> ps_dir (nd_store n) = live_dir dataDir) \<and>
    int (length (pl_q pl)) \<le> cf_queue_depth (is_config s) \<and>
    (pl_q pl \<noteq> [] \<longrightarrow> 0 < pl_awake pl \<or> pl_busy pl \<noteq> []) \<and>
    (\<forall>(t, left, why) \<in> set (pl_out pl). if why = [] then pl_min_budget (is_pool s) \<le> left
       else why \<in> {ReasonQueueLimit, ReasonDeadlineExceeded}) \<and>
    (pl_exited pl = pl_workers (is_pool s) \<longrightarrow> pl_q pl = [] \<and> pl_busy pl = [] \<and> pl_closed pl)"
proof -
  from assms(1) have st: "store_ok (is_profiles s)" "0 < pl_workers (is_pool s)"
    "int (pl_depth (is_pool s)) = cf_queue_depth (is_config s)"
    by (auto elim: inspector_started)
  have n: "store_ok (nd_store n)" "reads_live dataDir n"
    unfolding assms(3) using service_run_ok [of "\<lparr>nd_applied = no_applied, nd_disk = d, nd_store = is_profiles s, nd_level = l\<rparr>"] st(1)
    by (simp_all add: reads_live_def no_applied_def)
  have snap: "snap_profile (Some (ps_cur (nd_store n))) [] \<noteq> None" "snap_profile (Some (ps_cur (nd_store n))) ProbeName \<noteq> None"
    "snap_profile (Some (ps_cur (nd_store n))) name = Some p \<Longrightarrow> ValidateProfile p = (None, p)" for name p
    using n(1) by (auto simp: store_ok_def snapshot_ok_def snap_profile_def)
  have inv: "quiet (is_pool s) pl" "staffed (is_pool s) pl" "timely (is_pool s) pl"
    using reachable_inv [OF assms(2)] by (simp_all add: pool_inv_def)
  have "int (length (pl_q pl)) \<le> cf_queue_depth (is_config s)" using inv(1) st(3) by (simp add: quiet_def)
  moreover have "0 < pl_awake pl \<or> pl_busy pl \<noteq> []" if "pl_q pl \<noteq> []"
    using inv(1,2) st(2) that by (auto simp: quiet_def staffed_def)
  moreover have "pl_q pl = [] \<and> pl_busy pl = [] \<and> pl_closed pl" if "pl_exited pl = pl_workers (is_pool s)"
    using inv(1,2) st(2) that by (auto simp: quiet_def staffed_def)
  ultimately show ?thesis using snap inv(3) n(2) by (auto simp: timely_def list_all_iff reads_live_def)
qed

lemma inspector_keeps_serving_witness:
  "\<exists>s n. inspector_run sample_inspector_world = Inr s \<and>
     n = service_run (in_desired sample_inspector_world) ''/data'' [Manifest sample_faults (KvPut ''m''), Hangup (\<lambda>_. toy_dir)]
       \<lparr>nd_applied = no_applied, nd_disk = \<lparr>dd_next = None, dd_prev = None, dd_live = None\<rparr>, nd_store = is_profiles s,
        nd_level = None\<rparr> \<and>
     snap_profile (Some (ps_cur (nd_store n))) ProbeName \<noteq> None"
proof -
  obtain s where s: "inspector_run sample_inspector_world = Inr s" using sample_starts(1) by blast
  have r: "reachable (is_pool s) (new_pool (is_pool s))" by (rule reachable.init)
  show ?thesis
    using s inspector_keeps_serving [OF s r refl, of "''/data''" "[Manifest sample_faults (KvPut ''m''), Hangup (\<lambda>_. toy_dir)]"
        "\<lparr>dd_next = None, dd_prev = None, dd_live = None\<rparr>" None]
    by blast
qed

end
